(* ===== verification/Ane_Prelude.thy ===== *)
theory Ane_Prelude
  imports Main "HOL-Library.Word" "HOL-Library.Code_Target_Nat"
begin

text \<open>
  Shared vocabulary of the development: the fixed-width integer types of the C sources, the
  errno values the functions return, the kernel's alignment macros, little-endian byte access
  with the bounds written out, and the generic lemmas on lists, sums and words that the
  component theories use.

  Conventions.  A \<^verbatim>\<open>u32\<close>, \<^verbatim>\<open>u64\<close> or \<^verbatim>\<open>size_t\<close> of the source is a word of that width, so
  wrap-around is that of C.  A function that returns 0 or a negative errno returns an
  \<open>errno option\<close> (\<open>None\<close> is 0) or, when it also produces a value, an \<open>errno + 'a\<close>.
\<close>

unbundle bit_operations_syntax

type_synonym u8 = "8 word"
type_synonym u16 = "16 word"
type_synonym u32 = "32 word"
type_synonym u64 = "64 word"

datatype errno =
    EINVAL | ENOMEM | ENOSPC | ERANGE | EEXIST | EBUSY | EAGAIN | EIO | ENODEV
  | ETIMEDOUT | ECANCELED | ENOTTY | EOPNOTSUPP | ENXIO | EPROBE_DEFER | ENOENT
  | EPROTO | E2BIG | EFAULT | EPERM | ENODATA

named_theorems ane_simps \<open>definitions of the small pure functions\<close>

section \<open>Lists\<close>

text \<open>The first position, below a bound, whose element satisfies a predicate: the shape of every
  linear table search in the drivers.\<close>

fun first_index :: "('a \<Rightarrow> bool) \<Rightarrow> 'a list \<Rightarrow> nat option" where
  "first_index P [] = None"
| "first_index P (x # xs) = (if P x then Some 0 else map_option Suc (first_index P xs))"

lemma first_index_None: "first_index P xs = None \<longleftrightarrow> (\<forall>x\<in>set xs. \<not> P x)"
  by (induction xs) auto

lemma first_index_Some:
  "first_index P xs = Some i \<longleftrightarrow>
     i < length xs \<and> P (xs ! i) \<and> (\<forall>j<i. \<not> P (xs ! j))"
proof (induction xs arbitrary: i)
  case Nil
  show ?case by simp
next
  case (Cons x xs)
  show ?case
  proof (cases i)
    case 0
    then show ?thesis by auto
  next
    case (Suc k)
    then show ?thesis using Cons [of k] by (auto simp: less_Suc_eq_0_disj nth_Cons')
  qed
qed

lemma first_index_lt: "first_index P xs = Some i \<Longrightarrow> i < length xs"
  by (simp add: first_index_Some)

lemma first_index_sat: "first_index P xs = Some i \<Longrightarrow> P (xs ! i)"
  by (simp add: first_index_Some)

text \<open>Removing one position.\<close>

definition del_at :: "nat \<Rightarrow> 'a list \<Rightarrow> 'a list" where
  "del_at i xs = take i xs @ drop (Suc i) xs"

lemma length_del_at: "i < length xs \<Longrightarrow> length (del_at i xs) = length xs - 1"
  by (simp add: del_at_def)

lemma set_del_at_subset: "set (del_at i xs) \<subseteq> set xs"
  by (auto simp: del_at_def dest: in_set_takeD in_set_dropD)

lemma set_del_at: "i < length xs \<Longrightarrow> insert (xs ! i) (set (del_at i xs)) = set xs"
proof -
  assume "i < length xs"
  then have "set xs = set (take i xs @ xs ! i # drop (Suc i) xs)" by (simp flip: id_take_nth_drop)
  then show ?thesis by (auto simp: del_at_def)
qed

lemma sum_list_split_at:
  fixes f :: "'a \<Rightarrow> nat"
  assumes "i < length xs"
  shows "sum_list (map f xs) = f (xs ! i) + sum_list (map f (del_at i xs))"
proof -
  have "xs = take i xs @ xs ! i # drop (Suc i) xs"
    using assms by (rule id_take_nth_drop)
  then have "sum_list (map f xs) = sum_list (map f (take i xs @ xs ! i # drop (Suc i) xs))"
    by simp
  then show ?thesis by (simp add: del_at_def)
qed

lemma sum_list_update_nat:
  fixes f :: "'a \<Rightarrow> nat"
  assumes "i < length xs"
  shows "sum_list (map f (xs[i := y])) + f (xs ! i) = sum_list (map f xs) + f y"
  using assms by (induction xs arbitrary: i) (auto split: nat.splits)

lemma member_le_sum_list_nat:
  fixes f :: "'a \<Rightarrow> nat"
  shows "x \<in> set xs \<Longrightarrow> f x \<le> sum_list (map f xs)"
  by (induction xs) auto

lemma sum_list_bound_nat:
  fixes f :: "'a \<Rightarrow> nat"
  shows "\<forall>x \<in> set xs. f x \<le> b \<Longrightarrow> sum_list (map f xs) \<le> length xs * b"
  by (induction xs) auto

section \<open>Words\<close>

lemma unat_lt_2p64: "unat (x :: u64) < 18446744073709551616"
  using unsigned_less [of x] by simp

lemma unat_lt_2p32: "unat (x :: u32) < 4294967296"
  using unsigned_less [of x] by simp

lemma unat_lt_2p8: "unat (x :: u8) < 256"
  using unsigned_less [of x] by simp

lemma unat_add_exact:
  "unat (x :: u64) + unat y < 18446744073709551616 \<Longrightarrow> unat (x + y) = unat x + unat y"
  by (simp add: unat_plus_if')

lemma unat_sub_exact: "y \<le> (x :: 'a::len word) \<Longrightarrow> unat (x - y) = unat x - unat y"
  by (simp add: unat_sub_if' word_le_nat_alt)

lemma unat_ucast_32_64 [simp]: "unat (ucast (x :: u32) :: u64) = unat x"
  using unat_lt_2p32 [of x] by (simp add: unsigned_ucast_eq take_bit_eq_mod)

lemma unat_ucast_8_32 [simp]: "unat (ucast (x :: u8) :: u32) = unat x"
  using unat_lt_2p8 [of x] by (simp add: unsigned_ucast_eq take_bit_eq_mod)

lemma unat_ucast_8_64 [simp]: "unat (ucast (x :: u8) :: u64) = unat x"
  using unat_lt_2p8 [of x] by (simp add: unsigned_ucast_eq take_bit_eq_mod)

lemma unat_push_bit:
  "unat (push_bit n (x :: 'a::len word)) = (unat x * 2 ^ n) mod 2 ^ LENGTH('a)"
  by (subst unsigned_push_bit_eq) (simp only: push_bit_eq_mult take_bit_eq_mod)

text \<open>\<^verbatim>\<open>PAGE_ALIGN\<close> and \<^verbatim>\<open>round_up\<close> of the kernel (the page size is the kernel
  configuration's, so the page shift is an argument).\<close>

definition page_size :: "nat \<Rightarrow> u64" where
  [ane_simps]: "page_size ps = push_bit ps 1"

definition PAGE_ALIGN :: "nat \<Rightarrow> u64 \<Rightarrow> u64" where
  [ane_simps]: "PAGE_ALIGN ps v = (v + page_size ps - 1) AND NOT (page_size ps - 1)"

section \<open>Bytes\<close>

text \<open>Little-endian loads.  A load outside the buffer is \<open>None\<close>: the C code would read past the
  object there, so every function that is shown to return \<open>Some\<close> never does.\<close>

definition le32_at :: "u8 list \<Rightarrow> nat \<Rightarrow> u32" where
  "le32_at bs i =
     ucast (bs ! i) OR push_bit 8 (ucast (bs ! (i + 1))) OR
     push_bit 16 (ucast (bs ! (i + 2))) OR push_bit 24 (ucast (bs ! (i + 3)))"

definition get_le32 :: "u8 list \<Rightarrow> nat \<Rightarrow> u32 option" where
  "get_le32 bs i = (if i + 4 \<le> length bs then Some (le32_at bs i) else None)"

definition get_le64 :: "u8 list \<Rightarrow> nat \<Rightarrow> u64 option" where
  "get_le64 bs i =
     (if i + 8 \<le> length bs
      then Some (ucast (le32_at bs i) OR push_bit 32 (ucast (le32_at bs (i + 4))))
      else None)"

lemma get_le32_Some [simp]: "i + 4 \<le> length bs \<Longrightarrow> get_le32 bs i = Some (le32_at bs i)"
  by (simp add: get_le32_def)

lemma get_le32_bound: "get_le32 bs i = Some w \<Longrightarrow> i + 4 \<le> length bs"
  by (simp add: get_le32_def split: if_splits)

lemma get_le64_bound: "get_le64 bs i = Some w \<Longrightarrow> i + 8 \<le> length bs"
  by (simp add: get_le64_def split: if_splits)

end
