(* ===== verification/Ane_Pool.thy ===== *)
theory Ane_Pool
  imports Ane_Prelude
begin

text \<open>
  The parked buffer-object pool of the M2 driver (\<^verbatim>\<open>ane/t6021/ane_t6021_pool.h\<close>).

  The pool keeps buffers whose last reference is gone but whose memory stays reserved, oldest
  first.  Entries parked as program sections are charged against a byte budget; a park that
  would exceed it evicts the oldest charged entries.  The sequential operations come first, with
  the accounting invariant and the exact outcome of every branch; then the interleaving of
  concurrent parks, takes and evictions at the granularity of the atomic counter and the list
  lock.

  The \<^verbatim>\<open>release\<close> callback really frees an entry; a definition that calls it returns the
  entries it was called on, in order, or threads the callback's state.
\<close>

record pool_ent =
  ent_addr :: nat          \<comment> \<open>identity of the entry (its address)\<close>
  ent_size :: u64
  pooled_sec :: bool

record pool =
  pool_list :: "pool_ent list"   \<comment> \<open>oldest first\<close>
  sec_bytes :: u64
  max_mb :: u32
  min_kb :: u32

definition ane_t6021_pool_init :: "u32 \<Rightarrow> u32 \<Rightarrow> pool" where
  "ane_t6021_pool_init mx mn = \<lparr>pool_list = [], sec_bytes = 0, max_mb = mx, min_kb = mn\<rparr>"

definition ane_t6021_pool_admits :: "nat \<Rightarrow> pool \<Rightarrow> u64 \<Rightarrow> bool" where
  "ane_t6021_pool_admits ps p sz \<longleftrightarrow>
     max_mb p \<noteq> 0 \<and> ucast (min_kb p) * 0x400 \<le> PAGE_ALIGN ps sz"

definition ane_t6021_pool_evict_oldest :: "nat \<Rightarrow> pool \<Rightarrow> pool_ent option \<times> pool" where
  "ane_t6021_pool_evict_oldest ps p =
     (case first_index pooled_sec (pool_list p) of
        None \<Rightarrow> (None, p)
      | Some i \<Rightarrow>
          let e = pool_list p ! i in
          (Some (e\<lparr>pooled_sec := False\<rparr>),
           p\<lparr>pool_list := del_at i (pool_list p),
             sec_bytes := sec_bytes p - PAGE_ALIGN ps (ent_size e)\<rparr>))"

definition ane_t6021_pool_park_uncharged :: "pool \<Rightarrow> pool_ent \<Rightarrow> u64 \<Rightarrow> pool" where
  "ane_t6021_pool_park_uncharged p ent sz =
     p\<lparr>pool_list := pool_list p @ [ent\<lparr>ent_size := sz, pooled_sec := False\<rparr>]\<rparr>"

definition pool_budget :: "pool \<Rightarrow> u64" where
  "pool_budget p = push_bit 20 (ucast (max_mb p))"

text \<open>The charged entries, oldest first, and the bytes they are charged for.\<close>

definition secs :: "pool \<Rightarrow> pool_ent list" where
  "secs p = filter pooled_sec (pool_list p)"

definition ios :: "pool \<Rightarrow> pool_ent list" where
  "ios p = filter (\<lambda>e. \<not> pooled_sec e) (pool_list p)"

definition pg_bytes :: "nat \<Rightarrow> pool_ent \<Rightarrow> nat" where
  "pg_bytes ps e = unat (PAGE_ALIGN ps (ent_size e))"

definition charged :: "nat \<Rightarrow> pool \<Rightarrow> nat" where
  "charged ps p = sum_list (map (pg_bytes ps) (secs p))"

lemma filter_del_first:
  "first_index P xs = Some i \<Longrightarrow>
     filter P (del_at i xs) = tl (filter P xs) \<and>
     filter (\<lambda>x. \<not> P x) (del_at i xs) = filter (\<lambda>x. \<not> P x) xs \<and>
     filter P xs = xs ! i # tl (filter P xs)"
proof (induction xs arbitrary: i)
  case (Cons x xs)
  show ?case
  proof (cases "P x")
    case True
    with Cons.prems show ?thesis by (auto simp: del_at_def)
  next
    case False
    with Cons.prems obtain k where k: "i = Suc k" "first_index P xs = Some k" by auto
    then show ?thesis using Cons.IH [of k] False by (simp add: del_at_def)
  qed
qed simp

lemma evict_oldest_cases:
  obtains (empty) "secs p = []" "ane_t6021_pool_evict_oldest ps p = (None, p)"
  | (some) e rest p' where "secs p = e # rest"
      "ane_t6021_pool_evict_oldest ps p = (Some (e\<lparr>pooled_sec := False\<rparr>), p')"
      "secs p' = rest" "ios p' = ios p"
      "sec_bytes p' = sec_bytes p - PAGE_ALIGN ps (ent_size e)"
      "max_mb p' = max_mb p" "min_kb p' = min_kb p"
      "length (pool_list p') < length (pool_list p)"
      "set (pool_list p') \<subseteq> set (pool_list p)"
proof (cases "first_index pooled_sec (pool_list p)")
  case None
  then have "secs p = []" by (simp add: secs_def first_index_None)
  moreover have "ane_t6021_pool_evict_oldest ps p = (None, p)"
    using None by (simp only: ane_t6021_pool_evict_oldest_def option.case)
  ultimately show thesis by (rule empty)
next
  case (Some i)
  define e where "e = pool_list p ! i"
  define p' where "p' = p\<lparr>pool_list := del_at i (pool_list p),
             sec_bytes := sec_bytes p - PAGE_ALIGN ps (ent_size e)\<rparr>"
  have "i < length (pool_list p)" using Some by (rule first_index_lt)
  then have "length (pool_list p') < length (pool_list p)"
    by (simp add: p'_def length_del_at)
  moreover have "secs p = e # secs p'" "ios p' = ios p"
    using filter_del_first [OF Some] by (simp_all add: secs_def ios_def p'_def e_def)
  moreover have "ane_t6021_pool_evict_oldest ps p = (Some (e\<lparr>pooled_sec := False\<rparr>), p')"
    using Some by (simp add: ane_t6021_pool_evict_oldest_def p'_def e_def Let_def)
  ultimately show thesis
    using some [of e "secs p'" p'] set_del_at_subset [of i "pool_list p"]
    by (simp add: p'_def)
qed

lemma evict_oldest_shrinks:
  "(Some old, p') = ane_t6021_pool_evict_oldest ps p \<Longrightarrow>
     length (pool_list p') < length (pool_list p)"
  by (cases rule: evict_oldest_cases [of p ps]) auto

text \<open>The two eviction loops of \<^verbatim>\<open>ane_t6021_pool_park\<close>: drain everything charged (budget off),
  and make room (budget on).  Both return the entries handed to \<^verbatim>\<open>release\<close>.\<close>

function pool_drain :: "nat \<Rightarrow> pool \<Rightarrow> pool_ent list \<times> pool" where
  "pool_drain ps p =
     (case ane_t6021_pool_evict_oldest ps p of
        (None, p') \<Rightarrow> ([], p')
      | (Some old, p') \<Rightarrow> (case pool_drain ps p' of (rs, p'') \<Rightarrow> (old # rs, p'')))"
  by pat_completeness auto
termination
  by (relation "measure (\<lambda>(ps, p). length (pool_list p))")
    (auto dest: evict_oldest_shrinks)

function pool_make_room :: "nat \<Rightarrow> u64 \<Rightarrow> pool \<Rightarrow> pool_ent list \<times> pool" where
  "pool_make_room ps budget p =
     (if sec_bytes p > budget then
        (case ane_t6021_pool_evict_oldest ps p of
           (None, p') \<Rightarrow> ([], p')
         | (Some old, p') \<Rightarrow>
             (case pool_make_room ps budget p' of (rs, p'') \<Rightarrow> (old # rs, p'')))
      else ([], p))"
  by pat_completeness auto
termination
  by (relation "measure (\<lambda>(ps, b, p). length (pool_list p))")
    (auto dest: evict_oldest_shrinks)

declare pool_drain.simps [simp del] pool_make_room.simps [simp del]

text \<open>\<^verbatim>\<open>ane_t6021_pool_park\<close>: the result, the entry as the caller sees it afterwards, the entries
  released and the pool.\<close>

definition ane_t6021_pool_park ::
  "nat \<Rightarrow> pool \<Rightarrow> pool_ent \<Rightarrow> u64 \<Rightarrow> errno option \<times> pool_ent \<times> pool_ent list \<times> pool" where
  "ane_t6021_pool_park ps p ent0 sz =
     (let ent = ent0\<lparr>ent_size := sz\<rparr>;
          pg = PAGE_ALIGN ps (ent_size ent);
          budget = pool_budget p
      in if budget = 0 then
           (case pool_drain ps p of (rs, p') \<Rightarrow> (Some EINVAL, ent, rs, p'))
         else if \<not> ane_t6021_pool_admits ps p (ent_size ent) then (Some EINVAL, ent, [], p)
         else if pg > budget then (Some ENOSPC, ent, [], p)
         else
           let p1 = p\<lparr>sec_bytes := sec_bytes p + pg\<rparr>;
               (rs, p2) = (if sec_bytes p1 > budget then pool_make_room ps budget p1 else ([], p1))
           in if sec_bytes p1 > budget \<and> sec_bytes p2 > budget then
                (Some ENOSPC, ent, rs, p2\<lparr>sec_bytes := sec_bytes p2 - pg\<rparr>)
              else
                (let ent' = ent\<lparr>pooled_sec := True\<rparr>
                 in (None, ent', rs, p2\<lparr>pool_list := pool_list p2 @ [ent']\<rparr>)))"

definition ane_t6021_pool_take ::
  "nat \<Rightarrow> pool \<Rightarrow> u64 \<Rightarrow> bool \<Rightarrow> pool_ent option \<times> pool" where
  "ane_t6021_pool_take ps p sz quarantined =
     (if quarantined then (None, p)
      else case first_index (\<lambda>e. PAGE_ALIGN ps (ent_size e) = PAGE_ALIGN ps sz) (pool_list p) of
        None \<Rightarrow> (None, p)
      | Some i \<Rightarrow>
          let e = pool_list p ! i;
              p1 = p\<lparr>pool_list := del_at i (pool_list p)\<rparr>
          in if pooled_sec e
             then (Some (e\<lparr>pooled_sec := False\<rparr>),
                   p1\<lparr>sec_bytes := sec_bytes p1 - PAGE_ALIGN ps (ent_size e)\<rparr>)
             else (Some e, p1))"

text \<open>\<^verbatim>\<open>ane_t6021_pool_alloc_retry\<close>.  The attempt may look at the pool and changes the caller's
  context; \<^verbatim>\<open>release\<close> gives the evicted entry's memory back to that context.\<close>

function ane_t6021_pool_alloc_retry ::
  "nat \<Rightarrow> (pool \<Rightarrow> 'c \<Rightarrow> errno option \<times> 'c) \<Rightarrow> (pool_ent \<Rightarrow> 'c \<Rightarrow> 'c) \<Rightarrow> pool \<Rightarrow> 'c \<Rightarrow>
     errno option \<times> 'c \<times> pool" where
  "ane_t6021_pool_alloc_retry ps attempt release p ctx =
     (case attempt p ctx of (ret, ctx1) \<Rightarrow>
        if ret \<noteq> Some ENOMEM \<and> ret \<noteq> Some ENOSPC then (ret, ctx1, p)
        else (case ane_t6021_pool_evict_oldest ps p of
                (None, p') \<Rightarrow> (ret, ctx1, p')
              | (Some old, p') \<Rightarrow>
                  ane_t6021_pool_alloc_retry ps attempt release p' (release old ctx1)))"
  by pat_completeness auto
termination
  by (relation "measure (\<lambda>(ps, a, r, p, c). length (pool_list p))")
    (auto dest: evict_oldest_shrinks)

declare ane_t6021_pool_alloc_retry.simps [simp del]

definition ane_t6021_pool_sec_bytes :: "pool \<Rightarrow> u64" where
  "ane_t6021_pool_sec_bytes p = sec_bytes p"

section \<open>The accounting invariant\<close>

definition unch :: "pool_ent \<Rightarrow> pool_ent" where
  "unch e = e\<lparr>pooled_sec := False\<rparr>"

definition pool_inv :: "nat \<Rightarrow> pool \<Rightarrow> bool" where
  "pool_inv ps p \<longleftrightarrow>
     unat (sec_bytes p) = charged ps p \<and> sec_bytes p \<le> pool_budget p"

lemma unat_pool_budget: "unat (pool_budget p) = unat (max_mb p) * 2 ^ 20"
  using unat_lt_2p32 [of "max_mb p"] by (simp add: pool_budget_def unat_push_bit)

lemma pool_budget_bound: "unat (pool_budget p) < 2 ^ 52"
  using unat_lt_2p32 [of "max_mb p"] by (simp add: unat_pool_budget)

lemma pool_budget_0: "pool_budget p = 0 \<longleftrightarrow> max_mb p = 0"
  by (simp add: unat_pool_budget flip: unat_eq_zero)

lemma pool_drain_result:
  "pool_drain ps p = (rs, p') \<Longrightarrow>
     rs = map unch (secs p) \<and> secs p' = [] \<and> ios p' = ios p \<and> max_mb p' = max_mb p \<and>
     min_kb p' = min_kb p \<and>
     (unat (sec_bytes p) = charged ps p \<longrightarrow> sec_bytes p' = 0)"
proof (induction ps p arbitrary: rs p' rule: pool_drain.induct)
  case (1 ps p)
  show ?case
  proof (cases rule: evict_oldest_cases [of p ps])
    case empty
    with "1.prems" show ?thesis
      by (auto simp: pool_drain.simps [of ps p] charged_def unat_eq_zero)
  next
    case (some e rest q)
    obtain rs' where rs': "pool_drain ps q = (rs', p')" and rs: "rs = unch e # rs'"
      using "1.prems" some(2) by (auto simp: pool_drain.simps [of ps p] unch_def split: prod.splits)
    have IH: "rs' = map unch (secs q) \<and> secs p' = [] \<and> ios p' = ios q \<and> max_mb p' = max_mb q \<and>
        min_kb p' = min_kb q \<and> (unat (sec_bytes q) = charged ps q \<longrightarrow> sec_bytes p' = 0)"
      using "1.IH" [OF some(2) [symmetric]] rs' by simp
    have "unat (sec_bytes q) = charged ps q" if "unat (sec_bytes p) = charged ps p"
    proof -
      have "charged ps p = pg_bytes ps e + charged ps q" using some by (simp add: charged_def)
      moreover from this that have "PAGE_ALIGN ps (ent_size e) \<le> sec_bytes p"
        by (simp add: word_le_nat_alt pg_bytes_def)
      ultimately show ?thesis using that some(5) by (simp add: unat_sub_exact pg_bytes_def)
    qed
    then show ?thesis using IH rs some by auto
  qed
qed

text \<open>Making room: with an extra charge of \<open>x\<close> bytes on the counter (the entry being parked), a
  shortest prefix of the charged entries goes, and the counter ends within the budget.\<close>

lemma pool_make_room_result:
  "pool_make_room ps budget p = (rs, p') \<Longrightarrow> unat (sec_bytes p) = charged ps p + x \<Longrightarrow>
   x \<le> unat budget \<Longrightarrow>
     (\<exists>out. rs = map unch out \<and> secs p = out @ secs p' \<and>
        (out = [] \<or> unat budget < pg_bytes ps (last out) + charged ps p' + x)) \<and>
     ios p' = ios p \<and> max_mb p' = max_mb p \<and> min_kb p' = min_kb p \<and>
     unat (sec_bytes p') = charged ps p' + x \<and> sec_bytes p' \<le> budget"
proof (induction ps budget p arbitrary: rs p' rule: pool_make_room.induct)
  case (1 ps budget p)
  show ?case
  proof (cases "budget < sec_bytes p")
    case False
    with "1.prems" show ?thesis by (auto simp: pool_make_room.simps [of ps budget p] not_less)
  next
    case over: True
    show ?thesis
    proof (cases rule: evict_oldest_cases [of p ps])
      case empty
      with "1.prems" over have "unat (sec_bytes p) \<le> unat budget" by (simp add: charged_def)
      with over show ?thesis by (simp add: word_less_nat_alt)
    next
      case (some e rest q)
      obtain rs' where rs': "pool_make_room ps budget q = (rs', p')" and rs: "rs = unch e # rs'"
        using "1.prems" some(2) over
        by (auto simp: pool_make_room.simps [of ps budget p] unch_def split: prod.splits)
      have ch: "charged ps p = pg_bytes ps e + charged ps q" using some by (simp add: charged_def)
      then have "PAGE_ALIGN ps (ent_size e) \<le> sec_bytes p"
        using "1.prems"(2) by (simp add: word_le_nat_alt pg_bytes_def)
      then have q: "unat (sec_bytes q) = charged ps q + x"
        using some(5) ch "1.prems"(2) by (simp add: unat_sub_exact pg_bytes_def)
      obtain out where out: "rs' = map unch out" "secs q = out @ secs p'"
          "out = [] \<or> unat budget < pg_bytes ps (last out) + charged ps p' + x"
        and rest: "ios p' = ios q" "max_mb p' = max_mb q" "min_kb p' = min_kb q"
          "unat (sec_bytes p') = charged ps p' + x" "sec_bytes p' \<le> budget"
        using "1.IH" [OF over some(2) [symmetric] refl rs' q "1.prems"(3)] by blast
      have "secs p' = secs q" if "out = []" using out(2) that by simp
      then have "unat budget < pg_bytes ps (last (e # out)) + charged ps p' + x"
        using out(3) over "1.prems"(2) ch by (auto simp: charged_def word_less_nat_alt)
      then show ?thesis using rs out(1,2) rest some by (intro conjI exI [of _ "e # out"]) auto
    qed
  qed
qed

section \<open>Parking and taking\<close>

lemma charged_bound: "pool_inv ps p \<Longrightarrow> charged ps p < 2 ^ 52"
  using pool_budget_bound [of p] by (auto simp: pool_inv_def word_le_nat_alt)

lemma pool_inv_init: "pool_inv ps (ane_t6021_pool_init mx mn)"
  by (simp add: pool_inv_def ane_t6021_pool_init_def charged_def secs_def)

lemma pool_inv_park_uncharged:
  "pool_inv ps p \<Longrightarrow> pool_inv ps (ane_t6021_pool_park_uncharged p ent sz)"
  by (simp add: pool_inv_def ane_t6021_pool_park_uncharged_def charged_def secs_def pool_budget_def)

text \<open>The entry a successful park links.\<close>

definition parked :: "pool_ent \<Rightarrow> u64 \<Rightarrow> pool_ent" where
  "parked ent sz = ent\<lparr>ent_size := sz, pooled_sec := True\<rparr>"

lemma park_fits:
  assumes inv: "pool_inv ps p" and on: "max_mb p \<noteq> 0"
    and adm: "ane_t6021_pool_admits ps p sz" and fit: "PAGE_ALIGN ps sz \<le> pool_budget p"
  shows "\<exists>out p'. ane_t6021_pool_park ps p ent sz = (None, parked ent sz, map unch out, p') \<and>
           secs p' = drop (length out) (secs p) @ [parked ent sz] \<and>
           out = take (length out) (secs p) \<and> ios p' = ios p \<and> pool_inv ps p' \<and>
           (out = [] \<or> unat (pool_budget p) < pg_bytes ps (last out) + charged ps p')"
proof -
  define pg where "pg = PAGE_ALIGN ps sz"
  define p1 where "p1 = p\<lparr>sec_bytes := sec_bytes p + pg\<rparr>"
  obtain rs p2 where mr: "pool_make_room ps (pool_budget p) p1 = (rs, p2)" by fastforce
  have c: "unat (sec_bytes p) = charged ps p" using inv by (simp add: pool_inv_def)
  have pgb: "unat pg \<le> unat (pool_budget p)" using fit by (simp add: pg_def word_le_nat_alt)
  have "unat (sec_bytes p1) = charged ps p + unat pg"
    using charged_bound [OF inv] pgb pool_budget_bound [of p] c
    by (simp add: p1_def unat_add_exact)
  then have s1: "unat (sec_bytes p1) = charged ps p1 + unat pg"
    by (simp add: p1_def charged_def secs_def)
  obtain out where out: "rs = map unch out" "secs p1 = out @ secs p2"
      "out = [] \<or> unat (pool_budget p) < pg_bytes ps (last out) + charged ps p2 + unat pg"
    and r: "ios p2 = ios p1" "max_mb p2 = max_mb p1" "min_kb p2 = min_kb p1"
      "unat (sec_bytes p2) = charged ps p2 + unat pg" "sec_bytes p2 \<le> pool_budget p"
    using pool_make_room_result [OF mr s1 pgb] by blast
  define q where "q = p2\<lparr>pool_list := pool_list p2 @ [parked ent sz]\<rparr>"
  have same: "secs p1 = secs p" "ios p1 = ios p" "max_mb p1 = max_mb p" "min_kb p1 = min_kb p"
    by (simp_all add: p1_def secs_def ios_def)
  have no_room: "rs = []" "p2 = p1" if "\<not> pool_budget p < sec_bytes p1"
    using mr that by (auto simp: pool_make_room.simps [of ps _ p1])
  have park: "ane_t6021_pool_park ps p ent sz = (None, parked ent sz, rs, q)"
    using on adm fit r(5) mr no_room pool_budget_0 [of p]
    by (auto simp: ane_t6021_pool_park_def Let_def pg_def [symmetric] p1_def [symmetric] parked_def
        q_def not_less split: prod.splits)
  have sq: "secs q = secs p2 @ [parked ent sz]" "ios q = ios p2"
    by (simp_all add: q_def secs_def ios_def parked_def)
  have cq: "charged ps q = charged ps p2 + unat pg"
    by (simp add: charged_def sq pg_bytes_def parked_def pg_def)
  have "pool_inv ps q"
    using r cq same by (simp add: pool_inv_def pool_budget_def q_def)
  moreover have "secs q = drop (length out) (secs p) @ [parked ent sz]"
    "out = take (length out) (secs p)"
    using sq out(2) same by simp_all
  moreover have "out = [] \<or> unat (pool_budget p) < pg_bytes ps (last out) + charged ps q"
    using out(3) cq by auto
  ultimately show ?thesis using park out(1) sq(2) r(1) same(2)
    by (intro exI [of _ out] exI [of _ q]) simp
qed

lemma park_refused:
  assumes inv: "pool_inv ps p"
    and no: "max_mb p = 0 \<or> \<not> ane_t6021_pool_admits ps p sz \<or> pool_budget p < PAGE_ALIGN ps sz"
  shows "\<exists>p'. ane_t6021_pool_park ps p ent sz =
       (if max_mb p = 0 \<or> \<not> ane_t6021_pool_admits ps p sz then Some EINVAL else Some ENOSPC,
        ent\<lparr>ent_size := sz\<rparr>, if max_mb p = 0 then map unch (secs p) else [], p') \<and>
     (if max_mb p = 0 then secs p' = [] \<and> sec_bytes p' = 0 else p' = p) \<and>
     ios p' = ios p \<and> pool_inv ps p'"
proof (cases "max_mb p = 0")
  case True
  obtain rs p' where d: "pool_drain ps p = (rs, p')" by fastforce
  have r: "rs = map unch (secs p)" "secs p' = []" "ios p' = ios p" "max_mb p' = max_mb p"
      "sec_bytes p' = 0"
    using pool_drain_result [OF d] inv by (auto simp: pool_inv_def)
  have "ane_t6021_pool_park ps p ent sz = (Some EINVAL, ent\<lparr>ent_size := sz\<rparr>, rs, p')"
    using True pool_budget_0 [of p] d by (simp add: ane_t6021_pool_park_def)
  moreover have "pool_inv ps p'" using r by (simp add: pool_inv_def charged_def)
  ultimately show ?thesis using True r by auto
next
  case False
  then show ?thesis
    using no inv pool_budget_0 [of p] by (auto simp: ane_t6021_pool_park_def Let_def)
qed

lemma charged_pool_list:
  "charged ps p = sum_list (map (\<lambda>e. if pooled_sec e then pg_bytes ps e else 0) (pool_list p))"
  by (simp add: charged_def secs_def sum_list_map_filter')

lemma take_result:
  assumes inv: "pool_inv ps p" and "ane_t6021_pool_take ps p sz q = (r, p')"
  shows "pool_inv ps p' \<and>
     (case r of
        None \<Rightarrow> p' = p \<and> (q \<or> (\<forall>e \<in> set (pool_list p). PAGE_ALIGN ps (ent_size e) \<noteq> PAGE_ALIGN ps sz))
      | Some e' \<Rightarrow> \<not> q \<and> (\<exists>i < length (pool_list p). e' = unch (pool_list p ! i) \<and>
          PAGE_ALIGN ps (ent_size e') = PAGE_ALIGN ps sz \<and>
          (\<forall>j < i. PAGE_ALIGN ps (ent_size (pool_list p ! j)) \<noteq> PAGE_ALIGN ps sz) \<and>
          pool_list p' = del_at i (pool_list p) \<and>
          unat (sec_bytes p) = unat (sec_bytes p') +
            (if pooled_sec (pool_list p ! i) then unat (PAGE_ALIGN ps sz) else 0)))"
proof (cases "q \<or> first_index (\<lambda>e. PAGE_ALIGN ps (ent_size e) = PAGE_ALIGN ps sz) (pool_list p) = None")
  case True
  then have "r = None" "p' = p" using assms(2)
    by (auto simp: ane_t6021_pool_take_def split: if_splits)
  then show ?thesis using True inv by (auto simp: first_index_None)
next
  case False
  then obtain i where fi:
    "first_index (\<lambda>e. PAGE_ALIGN ps (ent_size e) = PAGE_ALIGN ps sz) (pool_list p) = Some i"
    and nq: "\<not> q" by auto
  define e where "e = pool_list p ! i"
  have i: "i < length (pool_list p)" "PAGE_ALIGN ps (ent_size e) = PAGE_ALIGN ps sz"
      "\<forall>j < i. PAGE_ALIGN ps (ent_size (pool_list p ! j)) \<noteq> PAGE_ALIGN ps sz"
    using fi by (auto simp: first_index_Some e_def)
  have split: "charged ps p = (if pooled_sec e then pg_bytes ps e else 0) +
       sum_list (map (\<lambda>e. if pooled_sec e then pg_bytes ps e else 0) (del_at i (pool_list p)))"
    unfolding charged_pool_list e_def by (rule sum_list_split_at) (rule i(1))
  have r: "r = Some (unch e)" and p': "pool_list p' = del_at i (pool_list p)"
      "max_mb p' = max_mb p"
      "sec_bytes p' = (if pooled_sec e then sec_bytes p - PAGE_ALIGN ps sz else sec_bytes p)"
    using assms(2) fi nq i(2)
    by (auto simp: ane_t6021_pool_take_def Let_def e_def unch_def split: if_splits)
  have b: "pooled_sec e \<Longrightarrow> PAGE_ALIGN ps sz \<le> sec_bytes p"
    using split inv i(2) by (simp add: pool_inv_def word_le_nat_alt pg_bytes_def)
  have "unat (sec_bytes p) = unat (sec_bytes p') + (if pooled_sec e then unat (PAGE_ALIGN ps sz) else 0)"
    using p'(3) b by (simp add: unat_sub_exact word_le_nat_alt)
  moreover from this have "unat (sec_bytes p') = charged ps p'"
    using split inv i(2) unfolding charged_pool_list [of ps p'] p'(1)
    by (cases "pooled_sec e") (simp_all add: pool_inv_def pg_bytes_def)
  moreover have "sec_bytes p' \<le> pool_budget p'"
    using inv p' calculation(1) by (auto simp: pool_inv_def pool_budget_def word_le_nat_alt)
  ultimately show ?thesis using r p'(1) nq i e_def by (auto simp: pool_inv_def unch_def)
qed

lemma retry_result:
  assumes "ane_t6021_pool_alloc_retry ps attempt release p ctx = (ret, ctx', p')"
  shows "(ret = Some ENOMEM \<or> ret = Some ENOSPC \<longrightarrow> secs p' = []) \<and> ios p' = ios p \<and>
         (\<exists>out. secs p = out @ secs p')"
  using assms
proof (induction ps attempt release p ctx rule: ane_t6021_pool_alloc_retry.induct)
  case (1 ps attempt release p ctx)
  obtain r1 c1 where a: "attempt p ctx = (r1, c1)" by fastforce
  show ?case
  proof (cases "r1 = Some ENOMEM \<or> r1 = Some ENOSPC")
    case False
    with "1.prems" a show ?thesis by (auto simp: ane_t6021_pool_alloc_retry.simps [of ps _ _ p])
  next
    case True
    show ?thesis
    proof (cases rule: evict_oldest_cases [of p ps])
      case empty
      with "1.prems" a True show ?thesis
        by (auto simp: ane_t6021_pool_alloc_retry.simps [of ps _ _ p])
    next
      case (some e rest q)
      have "ane_t6021_pool_alloc_retry ps attempt release q (release (e\<lparr>pooled_sec := False\<rparr>) c1)
          = (ret, ctx', p')"
        using "1.prems" a True some(2) by (auto simp: ane_t6021_pool_alloc_retry.simps [of ps _ _ p])
      then show ?thesis
        using "1.IH" [OF a [symmetric] _ some(2) [symmetric] refl] True some by fastforce
    qed
  qed
qed

section \<open>Concurrent use\<close>

text \<open>
  \<^verbatim>\<open>ane_t6021_pool_park\<close> runs without the buffer lock (a \<^verbatim>\<open>vm_close\<close> reaches it), so several
  parks, takes and evictions interleave.  A thread is at one of the points between two accesses
  to the shared counter or two critical sections of the list lock; the counter update and the
  unlinking of an entry are one step, because the lock is held across both.
\<close>

datatype park_pc =
    PIdle
  | PLoop pool_ent    \<comment> \<open>charged, at the \<^verbatim>\<open>while\<close> test\<close>
  | PEvict pool_ent   \<comment> \<open>the test read a counter over the budget\<close>
  | PFinal pool_ent   \<comment> \<open>left the loop, before the last test\<close>
  | PUndo pool_ent    \<comment> \<open>the last test read a counter over the budget\<close>
  | PFits pool_ent    \<comment> \<open>about to link the entry\<close>

record cpool =
  cp :: pool
  thr :: "park_pc list"

inductive pool_step :: "nat \<Rightarrow> cpool \<Rightarrow> cpool \<Rightarrow> bool" for ps :: nat where
  charge: "\<lbrakk>t < length (thr s); thr s ! t = PIdle; max_mb (cp s) \<noteq> 0;
      ane_t6021_pool_admits ps (cp s) (ent_size e); PAGE_ALIGN ps (ent_size e) \<le> pool_budget (cp s);
      v = sec_bytes (cp s) + PAGE_ALIGN ps (ent_size e)\<rbrakk> \<Longrightarrow>
    pool_step ps s (s\<lparr>cp := (cp s)\<lparr>sec_bytes := v\<rparr>,
      thr := (thr s)[t := if v > pool_budget (cp s) then PLoop e else PFits e]\<rparr>)"
| test: "\<lbrakk>t < length (thr s); thr s ! t = PLoop e\<rbrakk> \<Longrightarrow>
    pool_step ps s (s\<lparr>thr := (thr s)[t :=
      if sec_bytes (cp s) > pool_budget (cp s) then PEvict e else PFinal e]\<rparr>)"
| evict: "\<lbrakk>t < length (thr s); thr s ! t = PEvict e;
      ane_t6021_pool_evict_oldest ps (cp s) = (old, p')\<rbrakk> \<Longrightarrow>
    pool_step ps s (s\<lparr>cp := p', thr := (thr s)[t := if old = None then PFinal e else PLoop e]\<rparr>)"
| last_test: "\<lbrakk>t < length (thr s); thr s ! t = PFinal e\<rbrakk> \<Longrightarrow>
    pool_step ps s (s\<lparr>thr := (thr s)[t :=
      if sec_bytes (cp s) > pool_budget (cp s) then PUndo e else PFits e]\<rparr>)"
| undo: "\<lbrakk>t < length (thr s); thr s ! t = PUndo e\<rbrakk> \<Longrightarrow>
    pool_step ps s (s\<lparr>cp := (cp s)\<lparr>sec_bytes := sec_bytes (cp s) - PAGE_ALIGN ps (ent_size e)\<rparr>,
      thr := (thr s)[t := PIdle]\<rparr>)"
| link: "\<lbrakk>t < length (thr s); thr s ! t = PFits e\<rbrakk> \<Longrightarrow>
    pool_step ps s (s\<lparr>cp := (cp s)\<lparr>pool_list := pool_list (cp s) @ [e\<lparr>pooled_sec := True\<rparr>]\<rparr>,
      thr := (thr s)[t := PIdle]\<rparr>)"
| take: "ane_t6021_pool_take ps (cp s) sz q = (r, p') \<Longrightarrow> pool_step ps s (s\<lparr>cp := p'\<rparr>)"
| evict_other: "ane_t6021_pool_evict_oldest ps (cp s) = (old, p') \<Longrightarrow> pool_step ps s (s\<lparr>cp := p'\<rparr>)"
| park_io: "pool_step ps s (s\<lparr>cp := ane_t6021_pool_park_uncharged (cp s) ent sz\<rparr>)"

definition pool_start :: "u32 \<Rightarrow> u32 \<Rightarrow> nat \<Rightarrow> cpool" where
  "pool_start mx mn n = \<lparr>cp = ane_t6021_pool_init mx mn, thr = replicate n PIdle\<rparr>"

text \<open>Bytes a thread holds on the counter: before and after its test against the budget passed.\<close>

fun pend_bytes :: "nat \<Rightarrow> park_pc \<Rightarrow> nat" where
  "pend_bytes ps (PLoop e) = pg_bytes ps e"
| "pend_bytes ps (PEvict e) = pg_bytes ps e"
| "pend_bytes ps (PFinal e) = pg_bytes ps e"
| "pend_bytes ps (PUndo e) = pg_bytes ps e"
| "pend_bytes ps _ = 0"

fun fit_bytes :: "nat \<Rightarrow> park_pc \<Rightarrow> nat" where
  "fit_bytes ps (PFits e) = pg_bytes ps e"
| "fit_bytes ps _ = 0"

definition pend_sum :: "nat \<Rightarrow> cpool \<Rightarrow> nat" where
  "pend_sum ps s = sum_list (map (pend_bytes ps) (thr s))"

definition fit_sum :: "nat \<Rightarrow> cpool \<Rightarrow> nat" where
  "fit_sum ps s = sum_list (map (fit_bytes ps) (thr s))"

definition cpool_inv :: "nat \<Rightarrow> u64 \<Rightarrow> nat \<Rightarrow> cpool \<Rightarrow> bool" where
  "cpool_inv ps b n s \<longleftrightarrow>
     pool_budget (cp s) = b \<and> length (thr s) = n \<and>
     (\<forall>c \<in> set (thr s). pend_bytes ps c \<le> unat b) \<and>
     unat (sec_bytes (cp s)) = charged ps (cp s) + pend_sum ps s + fit_sum ps s \<and>
     charged ps (cp s) + fit_sum ps s \<le> unat b"

lemma sums_update:
  assumes "t < length (thr s)"
  shows "pend_sum ps (s\<lparr>cp := p, thr := (thr s)[t := c]\<rparr>) + pend_bytes ps (thr s ! t) =
           pend_sum ps s + pend_bytes ps c"
    and "fit_sum ps (s\<lparr>cp := p, thr := (thr s)[t := c]\<rparr>) + fit_bytes ps (thr s ! t) =
           fit_sum ps s + fit_bytes ps c"
  using assms by (simp_all add: pend_sum_def fit_sum_def sum_list_update_nat)

lemma pend_le_sum: "t < length (thr s) \<Longrightarrow> pend_bytes ps (thr s ! t) \<le> pend_sum ps s"
  unfolding pend_sum_def by (rule member_le_sum_list_nat) simp

lemma cpool_inv_move:
  assumes "cpool_inv ps b n s" "t < length (thr s)"
    and "pend_bytes ps c = pend_bytes ps (thr s ! t)" "fit_bytes ps c = fit_bytes ps (thr s ! t)"
  shows "cpool_inv ps b n (s\<lparr>thr := (thr s)[t := c]\<rparr>)"
proof -
  have "s\<lparr>thr := (thr s)[t := c]\<rparr> = s\<lparr>cp := cp s, thr := (thr s)[t := c]\<rparr>" by simp
  moreover have "\<forall>d \<in> set ((thr s)[t := c]). pend_bytes ps d \<le> unat b"
    using assms by (auto simp: cpool_inv_def dest!: set_update_subset_insert [THEN subsetD])
  ultimately show ?thesis
    using assms sums_update [OF assms(2), where ps = ps and p = "cp s" and c = c] by (simp add: cpool_inv_def)
qed

lemma cpool_inv_uncharge:
  assumes "cpool_inv ps b n s" "charged ps (cp s) = unat x + charged ps p'"
    and "sec_bytes p' = sec_bytes (cp s) - x" "max_mb p' = max_mb (cp s)"
  shows "cpool_inv ps b n (s\<lparr>cp := p'\<rparr>)"
proof -
  have "x \<le> sec_bytes (cp s)" using assms(1,2) by (simp add: cpool_inv_def word_le_nat_alt)
  then show ?thesis
    using assms by (simp add: cpool_inv_def pool_budget_def pend_sum_def fit_sum_def unat_sub_exact)
qed

lemma evict_uncharges:
  assumes "ane_t6021_pool_evict_oldest ps p = (old, p')"
  shows "\<exists>x. charged ps p = unat x + charged ps p' \<and> sec_bytes p' = sec_bytes p - x \<and>
           max_mb p' = max_mb p"
proof (cases rule: evict_oldest_cases [of p ps])
  case empty
  with assms show ?thesis by (intro exI [of _ 0]) simp
next
  case (some e rest q)
  with assms show ?thesis
    by (intro exI [of _ "PAGE_ALIGN ps (ent_size e)"]) (simp add: charged_def pg_bytes_def)
qed

lemma take_uncharges:
  assumes "ane_t6021_pool_take ps p sz q = (r, p')"
  shows "\<exists>x. charged ps p = unat x + charged ps p' \<and> sec_bytes p' = sec_bytes p - x \<and>
           max_mb p' = max_mb p"
proof (cases "r = None")
  case True
  with assms show ?thesis
    by (intro exI [of _ 0]) (auto simp: ane_t6021_pool_take_def Let_def split: if_splits option.splits)
next
  case False
  then obtain i where i: "i < length (pool_list p)" "pool_list p' = del_at i (pool_list p)"
      "max_mb p' = max_mb p" "sec_bytes p' = sec_bytes p -
        (if pooled_sec (pool_list p ! i) then PAGE_ALIGN ps (ent_size (pool_list p ! i)) else 0)"
    using assms
    by (auto simp: ane_t6021_pool_take_def Let_def first_index_Some split: if_splits option.splits)
  then show ?thesis
    by (intro exI [of _ "if pooled_sec (pool_list p ! i)
          then PAGE_ALIGN ps (ent_size (pool_list p ! i)) else 0"])
      (auto simp: charged_pool_list sum_list_split_at [OF i(1)] pg_bytes_def)
qed

lemma cpool_inv_charge:
  assumes inv: "cpool_inv ps b n s" and nb: "Suc n * unat b < 2 ^ 64"
    and t: "t < length (thr s)" "thr s ! t = PIdle"
    and e: "PAGE_ALIGN ps (ent_size e) \<le> b"
    and v: "v = sec_bytes (cp s) + PAGE_ALIGN ps (ent_size e)"
  shows "cpool_inv ps b n (s\<lparr>cp := (cp s)\<lparr>sec_bytes := v\<rparr>,
           thr := (thr s)[t := if v > b then PLoop e else PFits e]\<rparr>)"
proof -
  let ?c = "if v > b then PLoop e else PFits e"
  let ?s' = "s\<lparr>cp := (cp s)\<lparr>sec_bytes := v\<rparr>, thr := (thr s)[t := ?c]\<rparr>"
  have pg: "pg_bytes ps e \<le> unat b" using e by (simp add: pg_bytes_def word_le_nat_alt)
  have s': "pend_sum ps ?s' = pend_sum ps s + pend_bytes ps ?c"
    "fit_sum ps ?s' = fit_sum ps s + fit_bytes ps ?c"
    using sums_update [OF t(1), where ps = ps and p = "(cp s)\<lparr>sec_bytes := v\<rparr>" and c = ?c] t(2) by simp_all
  have all: "\<forall>d \<in> set ((thr s)[t := c]). pend_bytes ps d \<le> unat b" if "pend_bytes ps c \<le> unat b" for c
    using inv that by (auto simp: cpool_inv_def dest!: set_update_subset_insert [THEN subsetD])
  have "pend_sum ps s + pg_bytes ps e \<le> n * unat b"
    using sum_list_bound_nat [OF all [of "PLoop e"]] pg inv
      sums_update(1) [OF t(1), where ps = ps and p = "cp s" and c = "PLoop e"] t(2)
    by (simp add: pend_sum_def cpool_inv_def)
  then have "unat (sec_bytes (cp s)) + pg_bytes ps e < 2 ^ 64"
    using inv nb by (simp add: cpool_inv_def)
  then have uv: "unat v = unat (sec_bytes (cp s)) + pg_bytes ps e"
    using v by (simp add: unat_add_exact pg_bytes_def)
  have "charged ps ((cp s)\<lparr>sec_bytes := v\<rparr>) = charged ps (cp s)"
    by (simp add: charged_def secs_def)
  then show ?thesis
    using inv s' uv pg all [of ?c] by (auto simp: cpool_inv_def pool_budget_def word_less_nat_alt)
qed

lemma pool_step_inv:
  assumes "pool_step ps s s'" and inv: "cpool_inv ps b n s" and nb: "Suc n * unat b < 2 ^ 64"
  shows "cpool_inv ps b n s'"
  using assms(1)
proof (cases rule: pool_step.cases)
  case (charge t e v)
  then show ?thesis using cpool_inv_charge [OF inv nb, of t e v] inv by (simp add: cpool_inv_def)
next
  case (test t e)
  then show ?thesis using cpool_inv_move [OF inv, of t] by simp
next
  case (evict t e old p')
  obtain x where "charged ps (cp s) = unat x + charged ps p'" "sec_bytes p' = sec_bytes (cp s) - x"
      "max_mb p' = max_mb (cp s)"
    using evict_uncharges [OF evict(4)] by blast
  from cpool_inv_uncharge [OF inv this] have "cpool_inv ps b n (s\<lparr>cp := p'\<rparr>)" .
  then show ?thesis using cpool_inv_move [of ps b n "s\<lparr>cp := p'\<rparr>" t] evict by simp
next
  case (last_test t e)
  have fits: "fit_sum ps s + pg_bytes ps e + charged ps (cp s) \<le> unat (sec_bytes (cp s))"
    using inv last_test pend_le_sum [of t s ps] by (simp add: cpool_inv_def)
  show ?thesis
  proof (cases "sec_bytes (cp s) > pool_budget (cp s)")
    case True
    then show ?thesis using last_test cpool_inv_move [OF inv, of t "PUndo e"] by simp
  next
    case False
    then have "unat (sec_bytes (cp s)) \<le> unat b" using inv by (simp add: cpool_inv_def word_less_nat_alt)
    moreover have "\<forall>d \<in> set ((thr s)[t := PFits e]). pend_bytes ps d \<le> unat b"
      using inv by (auto simp: cpool_inv_def dest!: set_update_subset_insert [THEN subsetD])
    ultimately show ?thesis
      using last_test False inv fits sums_update [OF last_test(2), where ps = ps and p = "cp s" and c = "PFits e"]
      by (simp add: cpool_inv_def)
  qed
next
  case (undo t e)
  have "pg_bytes ps e \<le> unat (sec_bytes (cp s))"
    using inv undo pend_le_sum [of t s ps] by (simp add: cpool_inv_def)
  moreover have "\<forall>d \<in> set ((thr s)[t := PIdle]). pend_bytes ps d \<le> unat b"
    using inv by (auto simp: cpool_inv_def dest!: set_update_subset_insert [THEN subsetD])
  ultimately show ?thesis
    using undo inv sums_update [OF undo(2), where ps = ps and c = PIdle and
        p = "(cp s)\<lparr>sec_bytes := sec_bytes (cp s) - PAGE_ALIGN ps (ent_size e)\<rparr>"]
    by (simp add: cpool_inv_def pool_budget_def unat_sub_exact pg_bytes_def word_le_nat_alt
        charged_def secs_def)
next
  case (link t e)
  let ?p = "(cp s)\<lparr>pool_list := pool_list (cp s) @ [e\<lparr>pooled_sec := True\<rparr>]\<rparr>"
  have "\<forall>d \<in> set ((thr s)[t := PIdle]). pend_bytes ps d \<le> unat b"
    using inv by (auto simp: cpool_inv_def dest!: set_update_subset_insert [THEN subsetD])
  moreover have "charged ps ?p = charged ps (cp s) + pg_bytes ps e"
    by (simp add: charged_def secs_def pg_bytes_def)
  ultimately show ?thesis
    using link inv sums_update [OF link(2), where ps = ps and c = PIdle and p = ?p]
    by (simp add: cpool_inv_def pool_budget_def)
next
  case (take sz q r p')
  then show ?thesis using take_uncharges [OF take(2)] cpool_inv_uncharge [OF inv] by blast
next
  case (evict_other old p')
  then show ?thesis using evict_uncharges [OF evict_other(2)] cpool_inv_uncharge [OF inv] by blast
next
  case (park_io ent sz)
  then show ?thesis using inv
    by (simp add: cpool_inv_def ane_t6021_pool_park_uncharged_def charged_def secs_def pend_sum_def
        fit_sum_def pool_budget_def)
qed

inductive pool_reach :: "nat \<Rightarrow> cpool \<Rightarrow> cpool \<Rightarrow> bool" for ps s0 where
  start: "pool_reach ps s0 s0"
| step: "pool_reach ps s0 s \<Longrightarrow> pool_step ps s s' \<Longrightarrow> pool_reach ps s0 s'"

lemma pool_reach_inv:
  "pool_reach ps s0 s \<Longrightarrow> cpool_inv ps b n s0 \<Longrightarrow> Suc n * unat b < 2 ^ 64 \<Longrightarrow> cpool_inv ps b n s"
  by (induction rule: pool_reach.induct) (auto intro: pool_step_inv)

lemma pool_start_inv: "cpool_inv ps (pool_budget (ane_t6021_pool_init mx mn)) n (pool_start mx mn n)"
  by (simp add: cpool_inv_def pool_start_def ane_t6021_pool_init_def charged_def secs_def
      pend_sum_def fit_sum_def sum_list_replicate)

section \<open>Properties\<close>

text \<open>C33: Parking under the section budget.  From a pool whose counter equals the page-aligned bytes
  of its charged entries and is within the budget, a park succeeds exactly when the budget is on,
  the size is admitted and the entry alone fits; it answers \<open>EINVAL\<close> or \<open>ENOSPC\<close> otherwise, and in
  every case the counter stays exact and within the budget and no uncharged (io) entry is touched.
  In particular the second \<open>ENOSPC\<close> exit (room could not be made) is never taken.\<close>

theorem pool_park_outcome:
  assumes "pool_inv ps p"
  shows "case ane_t6021_pool_park ps p ent sz of (ret, ent', rs, p') \<Rightarrow>
     ret = (if max_mb p = 0 \<or> \<not> ane_t6021_pool_admits ps p sz then Some EINVAL
            else if pool_budget p < PAGE_ALIGN ps sz then Some ENOSPC else None) \<and>
     pool_inv ps p' \<and> ios p' = ios p"
proof (cases "max_mb p = 0 \<or> \<not> ane_t6021_pool_admits ps p sz \<or> pool_budget p < PAGE_ALIGN ps sz")
  case True
  then show ?thesis using park_refused [OF assms True, of ent] by auto
next
  case False
  then show ?thesis using park_fits [OF assms, of sz ent] by (auto simp: not_less)
qed

text \<open>C34: A park that succeeds evicts the oldest charged entries first and no more than needed: the
  released entries are a prefix of the charged list, the rest stays in order with the new entry
  last, and giving back the last released entry would have exceeded the budget.\<close>

theorem pool_park_evicts_oldest:
  assumes "pool_inv ps p" "max_mb p \<noteq> 0" "ane_t6021_pool_admits ps p sz"
    and "PAGE_ALIGN ps sz \<le> pool_budget p"
  shows "\<exists>out p'. ane_t6021_pool_park ps p ent sz = (None, parked ent sz, map unch out, p') \<and>
           secs p' = drop (length out) (secs p) @ [parked ent sz] \<and>
           out = take (length out) (secs p) \<and> ios p' = ios p \<and> pool_inv ps p' \<and>
           (out = [] \<or> unat (pool_budget p) < pg_bytes ps (last out) + charged ps p')"
  using assms by (rule park_fits)

text \<open>C35: Taking from the pool.  Nothing is handed out while the firmware is quarantined; otherwise
  the oldest entry of the same page-aligned size is unlinked, and its charge, if it had one, leaves
  the counter with it.\<close>

theorem pool_take_first_match:
  assumes "pool_inv ps p" and "ane_t6021_pool_take ps p sz q = (r, p')"
  shows "pool_inv ps p' \<and>
     (case r of
        None \<Rightarrow> p' = p \<and> (q \<or> (\<forall>e \<in> set (pool_list p). PAGE_ALIGN ps (ent_size e) \<noteq> PAGE_ALIGN ps sz))
      | Some e' \<Rightarrow> \<not> q \<and> (\<exists>i < length (pool_list p). e' = unch (pool_list p ! i) \<and>
          PAGE_ALIGN ps (ent_size e') = PAGE_ALIGN ps sz \<and>
          (\<forall>j < i. PAGE_ALIGN ps (ent_size (pool_list p ! j)) \<noteq> PAGE_ALIGN ps sz) \<and>
          pool_list p' = del_at i (pool_list p) \<and>
          unat (sec_bytes p) = unat (sec_bytes p') +
            (if pooled_sec (pool_list p ! i) then unat (PAGE_ALIGN ps sz) else 0)))"
  using assms by (rule take_result)

text \<open>C36: The allocation retry returns for every attempt function, and when it gives up with
  \<open>ENOMEM\<close> or \<open>ENOSPC\<close> the pool holds no evictable entry any more: the pool is never the reason
  an allocation fails.\<close>

theorem pool_retry_exhausts_pool:
  assumes "ane_t6021_pool_alloc_retry ps attempt release p ctx = (ret, ctx', p')"
  shows "(ret = Some ENOMEM \<or> ret = Some ENOSPC \<longrightarrow> secs p' = []) \<and> ios p' = ios p \<and>
         (\<exists>out. secs p = out @ secs p')"
  using assms by (rule retry_result)

text \<open>C15: The budget under concurrency.  Whatever the interleaving of up to 4095 parking threads with
  takes, evictions and io parks, the bytes of the linked charged entries never exceed the budget,
  and the counter is exactly those bytes plus the charges of the parks still in flight.\<close>

theorem pool_budget_never_exceeded:
  assumes "pool_reach ps (pool_start mx mn n) s" and "n < 4096"
  shows "charged ps (cp s) \<le> unat mx * 2 ^ 20 \<and>
         unat (sec_bytes (cp s)) = charged ps (cp s) + pend_sum ps s + fit_sum ps s"
proof -
  let ?b = "pool_budget (ane_t6021_pool_init mx mn)"
  have b: "unat ?b = unat mx * 2 ^ 20" by (simp add: unat_pool_budget ane_t6021_pool_init_def)
  have "Suc n * unat ?b \<le> 4096 * unat ?b" using assms(2) by (intro mult_right_mono) auto
  also have "\<dots> < 2 ^ 64" using pool_budget_bound [of "ane_t6021_pool_init mx mn"] by simp
  finally have "cpool_inv ps ?b n s" by (rule pool_reach_inv [OF assms(1) pool_start_inv])
  then show ?thesis by (simp add: cpool_inv_def b)
qed


section \<open>Witnesses\<close>

definition wit_pool :: pool where
  "wit_pool = \<lparr>pool_list = [\<lparr>ent_addr = 1, ent_size = 0x80001, pooled_sec = True\<rparr>,
     \<lparr>ent_addr = 2, ent_size = 0x5000, pooled_sec = False\<rparr>],
     sec_bytes = 0x84000, max_mb = 1, min_kb = 64\<rparr>"

definition wit_ent :: pool_ent where
  "wit_ent = \<lparr>ent_addr = 3, ent_size = 0, pooled_sec = False\<rparr>"

lemmas pool_eval = wit_pool_def wit_ent_def pool_inv_def charged_def secs_def pg_bytes_def
  page_size_def PAGE_ALIGN_def pool_budget_def ane_t6021_pool_admits_def

lemma wit_pool_facts:
  "pool_inv 14 wit_pool" "max_mb wit_pool \<noteq> 0" "ane_t6021_pool_admits 14 wit_pool 0x90000"
  "PAGE_ALIGN 14 0x90000 \<le> pool_budget wit_pool"
  by (simp_all add: pool_eval)

theorem pool_park_outcome_witness:
  "case ane_t6021_pool_park 14 wit_pool wit_ent 0x90000 of (ret, ent', rs, p') \<Rightarrow>
     ret = None \<and> pool_inv 14 p' \<and> ios p' = ios wit_pool"
  using pool_park_outcome [OF wit_pool_facts(1), where ent = wit_ent and sz = "0x90000"] wit_pool_facts
  by (auto simp: not_less [symmetric])

theorem pool_park_evicts_oldest_witness:
  "\<exists>out p'. ane_t6021_pool_park 14 wit_pool wit_ent 0x90000 =
       (None, parked wit_ent 0x90000, map unch out, p') \<and>
     secs p' = drop (length out) (secs wit_pool) @ [parked wit_ent 0x90000] \<and>
     out = take (length out) (secs wit_pool) \<and> ios p' = ios wit_pool \<and> pool_inv 14 p' \<and>
     (out = [] \<or> unat (pool_budget wit_pool) < pg_bytes 14 (last out) + charged 14 p')"
  by (rule pool_park_evicts_oldest [OF wit_pool_facts])

theorem pool_take_first_match_witness:
  "\<exists>p'. ane_t6021_pool_take 14 wit_pool 0x84000 False =
       (Some \<lparr>ent_addr = 1, ent_size = 0x80001, pooled_sec = False\<rparr>, p') \<and> pool_inv 14 p'"
proof -
  obtain p' where t: "ane_t6021_pool_take 14 wit_pool 0x84000 False =
       (Some \<lparr>ent_addr = 1, ent_size = 0x80001, pooled_sec = False\<rparr>, p')"
    by (simp add: ane_t6021_pool_take_def pool_eval Let_def)
  then show ?thesis using pool_take_first_match [OF wit_pool_facts(1) t] by blast
qed

text \<open>An allocator that never succeeds: the whole charged part of the pool goes.\<close>

theorem pool_retry_exhausts_pool_witness:
  "\<exists>ctx' p'. ane_t6021_pool_alloc_retry 14 (\<lambda>p c. (Some ENOMEM, c)) (\<lambda>e c. e # c) wit_pool [] =
       (Some ENOMEM, ctx', p') \<and> secs p' = []"
proof -
  obtain ctx' p' where r: "ane_t6021_pool_alloc_retry 14 (\<lambda>p c. (Some ENOMEM, c)) (\<lambda>e c. e # c)
       wit_pool [] = (Some ENOMEM, ctx', p')"
    by (simp add: ane_t6021_pool_alloc_retry.simps ane_t6021_pool_evict_oldest_def wit_pool_def
        del_at_def Let_def)
  then show ?thesis using pool_retry_exhausts_pool [OF r] by blast
qed

lemma wit_pool_reach:
  "pool_reach 14 (pool_start 1 64 1)
     \<lparr>cp = \<lparr>pool_list = [], sec_bytes = 0x84000, max_mb = 1, min_kb = 64\<rparr>,
      thr = [PFits \<lparr>ent_addr = 1, ent_size = 0x80001, pooled_sec = False\<rparr>]\<rparr>"
  (is "pool_reach 14 ?s ?t")
proof -
  let ?e = "\<lparr>ent_addr = 1, ent_size = 0x80001, pooled_sec = False\<rparr>"
  have "pool_step 14 ?s (?s\<lparr>cp := (cp ?s)\<lparr>sec_bytes := 0x84000\<rparr>,
      thr := (thr ?s)[0 := if 0x84000 > pool_budget (cp ?s) then PLoop ?e else PFits ?e]\<rparr>)"
    by (rule pool_step.charge)
      (simp_all add: pool_start_def ane_t6021_pool_init_def pool_eval)
  also have "?s\<lparr>cp := (cp ?s)\<lparr>sec_bytes := 0x84000\<rparr>,
      thr := (thr ?s)[0 := if 0x84000 > pool_budget (cp ?s) then PLoop ?e else PFits ?e]\<rparr> = ?t"
    by (simp add: pool_start_def ane_t6021_pool_init_def pool_eval)
  finally show ?thesis using pool_reach.step [OF pool_reach.start] by blast
qed

theorem pool_budget_never_exceeded_witness:
  "\<exists>s. pool_reach 14 (pool_start 1 64 1) s \<and> charged 14 (cp s) \<le> unat (1 :: u32) * 2 ^ 20 \<and>
     unat (sec_bytes (cp s)) = charged 14 (cp s) + pend_sum 14 s + fit_sum 14 s \<and> fit_sum 14 s = 0x84000"
  using wit_pool_reach pool_budget_never_exceeded [OF wit_pool_reach]
  by (intro exI conjI) (assumption | simp add: fit_sum_def pool_eval)+

end
