(* ===== verification/Ane_Progtab.thy ===== *)
theory Ane_Progtab
  imports Ane_Prelude
begin

text \<open>
  The program table of the M2 driver (\<^verbatim>\<open>ane/t6021/ane_t6021_progtab.h\<close>) and the interface
  it shares with the table of firmware buffers: a table whose slots are reused below a high-water
  mark before it grows.

  A pointer into the table is the index of its slot.  The callbacks \<^verbatim>\<open>unload\<close> (the two
  firmware commands) and \<^verbatim>\<open>release\<close> (the section buffers go back) are parameters that
  thread a context.  The second half composes the operations the way the driver's entry points
  do (open, load, lookup, close) into a step relation over any number of files, for any firmware
  whose identifiers of loaded programs are distinct.
\<close>

section \<open>Tables with a high-water mark\<close>

locale slot_table =
  fixes slot_free :: "'e \<Rightarrow> bool"
    and cap :: nat
    and slot_pick :: "'e list \<Rightarrow> nat \<Rightarrow> nat option"
  assumes pick_reuse: "\<lbrakk>used \<le> cap; used \<le> length t; slot_pick t used = Some i; i \<noteq> used\<rbrakk>
      \<Longrightarrow> i < used \<and> slot_free (t ! i)"
    and pick_grow: "\<lbrakk>used \<le> cap; used \<le> length t; slot_pick t used = Some used\<rbrakk>
      \<Longrightarrow> used < cap \<and> (\<forall>j<used. \<not> slot_free (t ! j))"
    and pick_full: "\<lbrakk>used \<le> cap; used \<le> length t; slot_pick t used = None\<rbrakk>
      \<Longrightarrow> used = cap \<and> (\<forall>j<used. \<not> slot_free (t ! j))"
begin

definition occupied :: "'e list \<Rightarrow> nat \<Rightarrow> nat" where
  "occupied t used = card {j. j < used \<and> \<not> slot_free (t ! j)}"

lemma occupied_le: "occupied t used \<le> used"
proof -
  have "card {j. j < used \<and> \<not> slot_free (t ! j)} \<le> card {..<used}"
    by (rule card_mono) auto
  then show ?thesis by (simp add: occupied_def)
qed

lemma occupied_full:
  assumes "\<forall>j<used. \<not> slot_free (t ! j)"
  shows "occupied t used = used"
proof -
  have "{j. j < used \<and> \<not> slot_free (t ! j)} = {..<used}" using assms by auto
  then show ?thesis by (simp add: occupied_def)
qed

lemma pick_lt_cap:
  assumes "used \<le> cap" "used \<le> length t" "slot_pick t used = Some i"
  shows "i < cap"
  using assms pick_reuse [of used t i] pick_grow [of used t] by (cases "i = used") auto

lemma occupied_put_reuse:
  assumes "i < used" "used \<le> length t" "slot_free (t ! i)" "\<not> slot_free e"
  shows "occupied (t[i := e]) used = Suc (occupied t used)"
proof -
  have "{j. j < used \<and> \<not> slot_free (t[i := e] ! j)} =
        insert i {j. j < used \<and> \<not> slot_free (t ! j)}"
    using assms by (auto simp: nth_list_update)
  then show ?thesis using assms by (simp add: occupied_def)
qed

text \<open>Storing an element in the picked slot adds exactly one to the occupancy, and the mark
  moves only when every slot below it was occupied: the mark is the peak occupancy.\<close>

lemma put_picked:
  assumes "used \<le> cap" "used \<le> length t" "cap \<le> length t"
    and "slot_pick t used = Some i" "\<not> slot_free e"
  shows "occupied (t[i := e]) (max used (Suc i)) = Suc (occupied t used)"
    and "max used (Suc i) \<le> max used (Suc (occupied t used))"
proof -
  have both: "occupied (t[i := e]) (max used (Suc i)) = Suc (occupied t used) \<and>
      max used (Suc i) \<le> max used (Suc (occupied t used))"
  proof (cases "i = used")
    case True
    then have full: "used < cap" "\<forall>j<used. \<not> slot_free (t ! j)"
      using pick_grow [of used t] assms by auto
    have "\<forall>j<Suc used. \<not> slot_free (t[used := e] ! j)"
      using full assms by (auto simp: nth_list_update)
    from occupied_full [OF this] occupied_full [OF full(2)] show ?thesis
      using True by simp
  next
    case False
    then have "i < used" "slot_free (t ! i)" using pick_reuse [of used t i] assms by auto
    then show ?thesis using occupied_put_reuse assms by simp
  qed
  then show "occupied (t[i := e]) (max used (Suc i)) = Suc (occupied t used)"
    and "max used (Suc i) \<le> max used (Suc (occupied t used))" by auto
qed

text \<open>The table refuses only when all of its \<open>cap\<close> slots are occupied.\<close>

lemma pick_None_iff:
  assumes "used \<le> cap" "used \<le> length t"
  shows "slot_pick t used = None \<longleftrightarrow> occupied t used = cap"
proof
  assume "slot_pick t used = None"
  with pick_full assms have "used = cap" "\<forall>j<used. \<not> slot_free (t ! j)" by auto
  with occupied_full show "occupied t used = cap" by blast
next
  assume full: "occupied t used = cap"
  show "slot_pick t used = None"
  proof (rule ccontr)
    assume "slot_pick t used \<noteq> None"
    then obtain i where i: "slot_pick t used = Some i" by blast
    have "used = cap" using full occupied_le [of t used] assms by simp
    then have lt: "i < used" "slot_free (t ! i)"
      using i pick_reuse pick_grow assms by (metis less_irrefl)+
    then have "{j. j < used \<and> \<not> slot_free (t ! j)} \<subset> {..<used}" by auto
    then have "occupied t used < used"
      using psubset_card_mono [of "{..<used}"] by (simp add: occupied_def)
    then show False using full \<open>used = cap\<close> by simp
  qed
qed

end

section \<open>The table\<close>

definition ANE_T6021_MAX_PROGRAMS :: nat where "ANE_T6021_MAX_PROGRAMS = 250"
definition ANE_T6021_PROG_SECS :: nat where "ANE_T6021_PROG_SECS = 9"
definition ANE_T6021_PROG_NOPROC :: u32 where "ANE_T6021_PROG_NOPROC = 0xffffffff"

datatype prog_state = PROG_FREE | PROG_LIVE | PROG_HELD

record prog =
  digest :: "u8 list"
  prog_id :: u32
  proc_id :: u32
  users :: u32
  pstate :: prog_state
  sec :: "nat option list"     \<comment> \<open>the buffer of each section slot, None for NULL\<close>

record progtab =
  progs :: "prog list"
  hi :: nat

definition zero_prog :: prog where
  "zero_prog = \<lparr>digest = replicate 32 0, prog_id = 0, proc_id = 0, users = 0,
                pstate = PROG_FREE, sec = replicate ANE_T6021_PROG_SECS None\<rparr>"

definition progtab_init :: progtab where
  "progtab_init = \<lparr>progs = replicate ANE_T6021_MAX_PROGRAMS zero_prog, hi = 0\<rparr>"

definition ane_t6021_progtab_find :: "progtab \<Rightarrow> u8 list \<Rightarrow> nat option" where
  "ane_t6021_progtab_find t d =
     first_index (\<lambda>p. pstate p = PROG_LIVE \<and> digest p = d) (take (hi t) (progs t))"

definition ane_t6021_progtab_by_id :: "progtab \<Rightarrow> u32 \<Rightarrow> nat option" where
  "ane_t6021_progtab_by_id t pid =
     first_index (\<lambda>p. pstate p = PROG_LIVE \<and> prog_id p = pid) (take (hi t) (progs t))"

definition ane_t6021_progtab_has_room :: "progtab \<Rightarrow> bool" where
  "ane_t6021_progtab_has_room t \<longleftrightarrow>
     (if hi t < ANE_T6021_MAX_PROGRAMS then True
      else list_ex (\<lambda>p. pstate p = PROG_FREE) (take (hi t) (progs t)))"

text \<open>The slot a new program takes: the search loop and the growth branch of
  \<^verbatim>\<open>ane_t6021_progtab_add\<close>.\<close>

definition progtab_slot :: "prog list \<Rightarrow> nat \<Rightarrow> nat option" where
  "progtab_slot ps h =
     (case first_index (\<lambda>p. pstate p = PROG_FREE) (take h ps) of
        Some i \<Rightarrow> Some i
      | None \<Rightarrow> if h = ANE_T6021_MAX_PROGRAMS then None else Some h)"

definition ane_t6021_progtab_add :: "progtab \<Rightarrow> u8 list \<Rightarrow> u32 \<Rightarrow> (nat \<times> progtab) option" where
  "ane_t6021_progtab_add t d pid =
     (case progtab_slot (progs t) (hi t) of
        None \<Rightarrow> None
      | Some i \<Rightarrow>
          Some (i, t\<lparr>progs := (progs t)[i := zero_prog\<lparr>digest := d, prog_id := pid,
                                 proc_id := ANE_T6021_PROG_NOPROC, pstate := PROG_LIVE\<rparr>],
                     hi := (if i = hi t then hi t + 1 else hi t)\<rparr>))"

text \<open>The programs one file holds a reference on: the first \<^verbatim>\<open>n\<close> entries of
  \<^verbatim>\<open>ids\<close>.\<close>

type_synonym fdprogs = "u32 list"

definition ane_t6021_fdprogs_has :: "fdprogs \<Rightarrow> u32 \<Rightarrow> bool" where
  "ane_t6021_fdprogs_has f pid \<longleftrightarrow> list_ex (\<lambda>x. x = pid) f"

definition put_prog :: "progtab \<Rightarrow> nat \<Rightarrow> prog \<Rightarrow> progtab" where
  "put_prog t i p = t\<lparr>progs := (progs t)[i := p]\<rparr>"

definition ane_t6021_fdprogs_ref :: "fdprogs \<Rightarrow> progtab \<Rightarrow> nat \<Rightarrow> bool \<times> fdprogs \<times> progtab" where
  "ane_t6021_fdprogs_ref f t i =
     (let p = progs t ! i in
      if ane_t6021_fdprogs_has f (prog_id p) then (True, f, t)
      else if length f = ANE_T6021_MAX_PROGRAMS then (False, f, t)
      else (True, f @ [prog_id p], put_prog t i (p\<lparr>users := users p + 1\<rparr>)))"

record 'c progtab_ops =
  unload :: "'c \<Rightarrow> prog \<Rightarrow> errno option \<times> 'c"
  release :: "'c \<Rightarrow> prog \<Rightarrow> 'c"

fun fd_close_loop ::
  "bool \<Rightarrow> 'c progtab_ops \<Rightarrow> progtab \<Rightarrow> fdprogs \<Rightarrow> 'c \<Rightarrow> nat \<Rightarrow> progtab \<times> 'c \<times> nat" where
  "fd_close_loop uoc ops t [] c held = (t, c, held)"
| "fd_close_loop uoc ops t (pid # ids) c held =
     (case ane_t6021_progtab_by_id t pid of
        None \<Rightarrow> fd_close_loop uoc ops t ids c held
      | Some i \<Rightarrow>
          if users (progs t ! i) = 0 then fd_close_loop uoc ops t ids c held
          else let p = (progs t ! i)\<lparr>users := users (progs t ! i) - 1\<rparr> in
            if users p \<noteq> 0 \<or> \<not> uoc then fd_close_loop uoc ops (put_prog t i p) ids c held
            else (case unload ops c p of
                (Some e, c') \<Rightarrow>
                  fd_close_loop uoc ops (put_prog t i (p\<lparr>pstate := PROG_HELD\<rparr>)) ids c' (held + 1)
              | (None, c') \<Rightarrow>
                  fd_close_loop uoc ops (put_prog t i zero_prog) ids (release ops c' p) held))"

definition ane_t6021_progtab_fd_close ::
  "progtab \<Rightarrow> fdprogs \<Rightarrow> bool \<Rightarrow> 'c progtab_ops \<Rightarrow> 'c \<Rightarrow> nat \<times> progtab \<times> fdprogs \<times> 'c" where
  "ane_t6021_progtab_fd_close t f uoc ops c =
     (case fd_close_loop uoc ops t f c 0 of (t', c', held) \<Rightarrow> (held, t', [], c'))"

section \<open>Slot choice\<close>

interpretation prog_slots: slot_table "\<lambda>p. pstate p = PROG_FREE" ANE_T6021_MAX_PROGRAMS progtab_slot
proof
  fix used :: nat and t :: "prog list" and i
  assume le: "used \<le> ANE_T6021_MAX_PROGRAMS" "used \<le> length t"
  show "progtab_slot t used = Some i \<Longrightarrow> i \<noteq> used \<Longrightarrow> i < used \<and> pstate (t ! i) = PROG_FREE"
    using le by (auto simp: progtab_slot_def first_index_Some split: option.splits if_splits)
  show "progtab_slot t used = Some used \<Longrightarrow>
      used < ANE_T6021_MAX_PROGRAMS \<and> (\<forall>j<used. pstate (t ! j) \<noteq> PROG_FREE)"
    using le by (fastforce simp: progtab_slot_def first_index_Some first_index_None in_set_conv_nth
        split: option.splits if_splits)
  show "progtab_slot t used = None \<Longrightarrow>
      used = ANE_T6021_MAX_PROGRAMS \<and> (\<forall>j<used. pstate (t ! j) \<noteq> PROG_FREE)"
    using le by (fastforce simp: progtab_slot_def first_index_None in_set_conv_nth
        split: option.splits if_splits)
qed

text \<open>Well-formed tables: the array has its full length and every slot from the mark on is
  free.\<close>

definition progtab_wf :: "progtab \<Rightarrow> bool" where
  "progtab_wf t \<longleftrightarrow> length (progs t) = ANE_T6021_MAX_PROGRAMS \<and> hi t \<le> ANE_T6021_MAX_PROGRAMS \<and>
     (\<forall>i<length (progs t). hi t \<le> i \<longrightarrow> pstate (progs t ! i) = PROG_FREE)"

lemma progtab_wf_init: "progtab_wf progtab_init"
  by (simp add: progtab_wf_def progtab_init_def zero_prog_def)

lemma progtab_wf_put:
  "progtab_wf t \<Longrightarrow> i < hi t \<Longrightarrow> progtab_wf (put_prog t i p)"
  by (auto simp: progtab_wf_def put_prog_def nth_list_update)

lemma has_room_iff_slot:
  assumes "progtab_wf t"
  shows "ane_t6021_progtab_has_room t \<longleftrightarrow> progtab_slot (progs t) (hi t) \<noteq> None"
  using assms
  by (auto simp: progtab_wf_def ane_t6021_progtab_has_room_def progtab_slot_def first_index_None
      list_ex_iff first_index_Some split: option.splits if_splits)

text \<open>A live program of the table, by slot.\<close>

definition live :: "progtab \<Rightarrow> nat \<Rightarrow> bool" where
  "live t i \<longleftrightarrow> i < hi t \<and> pstate (progs t ! i) = PROG_LIVE"

lemma by_id_SomeD:
  assumes "ane_t6021_progtab_by_id t pid = Some i" "progtab_wf t"
  shows "live t i" "prog_id (progs t ! i) = pid"
  using assms by (auto simp: ane_t6021_progtab_by_id_def first_index_Some live_def progtab_wf_def)

lemma find_SomeD:
  assumes "ane_t6021_progtab_find t d = Some i" "progtab_wf t"
  shows "live t i" "digest (progs t ! i) = d"
  using assms by (auto simp: ane_t6021_progtab_find_def first_index_Some live_def progtab_wf_def)

lemma by_id_NoneD:
  assumes "ane_t6021_progtab_by_id t pid = None" "progtab_wf t" "live t i"
  shows "prog_id (progs t ! i) \<noteq> pid"
  using assms
  by (force simp: ane_t6021_progtab_by_id_def first_index_None live_def progtab_wf_def in_set_conv_nth)

lemma find_NoneD:
  assumes "ane_t6021_progtab_find t d = None" "progtab_wf t" "live t i"
  shows "digest (progs t ! i) \<noteq> d"
  using assms
  by (force simp: ane_t6021_progtab_find_def first_index_None live_def progtab_wf_def in_set_conv_nth)

lemma by_id_live:
  assumes "progtab_wf t" "live t i"
  shows "ane_t6021_progtab_by_id t (prog_id (progs t ! i)) \<noteq> None"
  using by_id_NoneD assms by blast

lemma add_SomeD:
  assumes "ane_t6021_progtab_add t d pid = Some (i, t')" "progtab_wf t"
  shows "progtab_wf t'" "i < hi t'" "pstate (progs t ! i) = PROG_FREE"
    and "progs t' = (progs t)[i := progs t' ! i]"
    and "progs t' ! i = zero_prog\<lparr>digest := d, prog_id := pid,
           proc_id := ANE_T6021_PROG_NOPROC, pstate := PROG_LIVE\<rparr>"
    and "hi t \<le> hi t'" "hi t' = (if i = hi t then Suc (hi t) else hi t)"
proof -
  have s: "progtab_slot (progs t) (hi t) = Some i"
    using assms(1) by (simp add: ane_t6021_progtab_add_def split: option.splits)
  have wf: "hi t \<le> ANE_T6021_MAX_PROGRAMS" "hi t \<le> length (progs t)"
    using assms(2) by (auto simp: progtab_wf_def)
  have lt: "i < length (progs t)"
    using prog_slots.pick_lt_cap [OF wf s] assms(2) by (simp add: progtab_wf_def)
  have le: "i \<le> hi t" using prog_slots.pick_reuse [OF wf s] by fastforce
  show "pstate (progs t ! i) = PROG_FREE"
    using prog_slots.pick_reuse [OF wf s] assms(2) lt by (cases "i = hi t") (auto simp: progtab_wf_def)
  have t': "t' = t\<lparr>progs := (progs t)[i := zero_prog\<lparr>digest := d, prog_id := pid,
      proc_id := ANE_T6021_PROG_NOPROC, pstate := PROG_LIVE\<rparr>],
      hi := (if i = hi t then hi t + 1 else hi t)\<rparr>"
    using assms(1) s by (simp add: ane_t6021_progtab_add_def)
  show "progtab_wf t'" using assms(2) lt le by (auto simp: t' progtab_wf_def nth_list_update)
  show "i < hi t'" "hi t \<le> hi t'" "hi t' = (if i = hi t then Suc (hi t) else hi t)"
    using le by (auto simp: t')
  show "progs t' = (progs t)[i := progs t' ! i]" using lt by (simp add: t')
  show "progs t' ! i = zero_prog\<lparr>digest := d, prog_id := pid,
           proc_id := ANE_T6021_PROG_NOPROC, pstate := PROG_LIVE\<rparr>" using lt by (simp add: t')
qed

lemma live_put:
  assumes "i < length (progs t)"
  shows "live (put_prog t i p) j \<longleftrightarrow> j < hi t \<and> (if j = i then pstate p = PROG_LIVE else live t j)"
  using assms by (auto simp: live_def put_prog_def)

lemma live_add:
  assumes "ane_t6021_progtab_add t d pid = Some (i, t')" "progtab_wf t"
  shows "live t' j \<longleftrightarrow> j = i \<or> live t j" "\<not> live t i"
    and "j \<noteq> i \<Longrightarrow> progs t' ! j = progs t ! j"
proof -
  note a = add_SomeD [OF assms]
  have lt: "i < length (progs t)" using a(1,2) a(4) by (metis length_list_update le_trans less_le_trans progtab_wf_def)
  show same: "j \<noteq> i \<Longrightarrow> progs t' ! j = progs t ! j"
    by (subst a(4)) simp
  show "\<not> live t i" using a(3) by (simp add: live_def)
  show "live t' j \<longleftrightarrow> j = i \<or> live t j"
  proof (cases "j = i")
    case True
    then show ?thesis using a(2,5) by (simp add: live_def zero_prog_def)
  next
    case False
    then show ?thesis using a(7) same by (auto simp: live_def split: if_splits)
  qed
qed

section \<open>Files and the table\<close>

text \<open>The number of open files that hold a reference on a program.\<close>

definition holders :: "fdprogs list \<Rightarrow> u32 \<Rightarrow> nat" where
  "holders fs pid = sum_list (map (\<lambda>f. of_bool (pid \<in> set f)) fs)"

definition prog_inv :: "progtab \<Rightarrow> fdprogs list \<Rightarrow> bool" where
  "prog_inv t fs \<longleftrightarrow> progtab_wf t \<and> length fs < 2 ^ 32 \<and>
     (\<forall>i j. live t i \<and> live t j \<and> prog_id (progs t ! i) = prog_id (progs t ! j) \<longrightarrow> i = j) \<and>
     (\<forall>i j. live t i \<and> live t j \<and> digest (progs t ! i) = digest (progs t ! j) \<longrightarrow> i = j) \<and>
     (\<forall>f\<in>set fs. distinct f \<and> (\<forall>pid\<in>set f. ane_t6021_progtab_by_id t pid \<noteq> None)) \<and>
     (\<forall>i. live t i \<longrightarrow> unat (users (progs t ! i)) = holders fs (prog_id (progs t ! i)))"

lemma prog_invD:
  assumes "prog_inv t fs"
  shows "progtab_wf t" "length fs < 2 ^ 32"
    and "\<And>i j. live t i \<Longrightarrow> live t j \<Longrightarrow> prog_id (progs t ! i) = prog_id (progs t ! j) \<Longrightarrow> i = j"
    and "\<And>i j. live t i \<Longrightarrow> live t j \<Longrightarrow> digest (progs t ! i) = digest (progs t ! j) \<Longrightarrow> i = j"
    and "\<And>f. f \<in> set fs \<Longrightarrow> distinct f"
    and "\<And>f pid. f \<in> set fs \<Longrightarrow> pid \<in> set f \<Longrightarrow> ane_t6021_progtab_by_id t pid \<noteq> None"
    and "\<And>i. live t i \<Longrightarrow> unat (users (progs t ! i)) = holders fs (prog_id (progs t ! i))"
  using assms unfolding prog_inv_def by blast+

lemma prog_invI:
  assumes "progtab_wf t" "length fs < 2 ^ 32"
    and "\<And>i j. live t i \<Longrightarrow> live t j \<Longrightarrow> prog_id (progs t ! i) = prog_id (progs t ! j) \<Longrightarrow> i = j"
    and "\<And>i j. live t i \<Longrightarrow> live t j \<Longrightarrow> digest (progs t ! i) = digest (progs t ! j) \<Longrightarrow> i = j"
    and "\<And>f. f \<in> set fs \<Longrightarrow> distinct f"
    and "\<And>f pid. f \<in> set fs \<Longrightarrow> pid \<in> set f \<Longrightarrow> \<exists>i. live t i \<and> prog_id (progs t ! i) = pid"
    and "\<And>i. live t i \<Longrightarrow> unat (users (progs t ! i)) = holders fs (prog_id (progs t ! i))"
  shows "prog_inv t fs"
  unfolding prog_inv_def using assms by_id_live [OF assms(1)] by blast

lemma held_live:
  assumes "prog_inv t fs" "f \<in> set fs" "pid \<in> set f"
  obtains i where "ane_t6021_progtab_by_id t pid = Some i" "live t i" "prog_id (progs t ! i) = pid"
  using prog_invD(1,6) [OF assms(1)] by_id_SomeD assms by blast

lemma held_live_ex:
  "prog_inv t fs \<Longrightarrow> f \<in> set fs \<Longrightarrow> pid \<in> set f \<Longrightarrow> \<exists>i. live t i \<and> prog_id (progs t ! i) = pid"
  by (metis held_live)

lemma holders_pos: "f \<in> set fs \<Longrightarrow> pid \<in> set f \<Longrightarrow> 0 < holders fs pid"
  using member_le_sum_list_nat [of f fs "\<lambda>f. of_bool (pid \<in> set f)"] by (simp add: holders_def)

lemma holders_le: "holders fs pid \<le> length fs"
  using sum_list_bound_nat [of fs "\<lambda>f. of_bool (pid \<in> set f)" 1] by (simp add: holders_def)

text \<open>A file never holds more than the table has live programs, so its list has room for any
  live program it does not hold yet.\<close>

lemma card_live_le:
  assumes "progtab_wf t"
  shows "finite {i. live t i}" "card {i. live t i} \<le> ANE_T6021_MAX_PROGRAMS"
proof -
  have sub: "{i. live t i} \<subseteq> {..<ANE_T6021_MAX_PROGRAMS}"
    using assms by (auto simp: live_def progtab_wf_def)
  show "finite {i. live t i}" using sub finite_subset by blast
  show "card {i. live t i} \<le> ANE_T6021_MAX_PROGRAMS" using card_mono [OF _ sub] by simp
qed

lemma file_has_room:
  assumes inv: "prog_inv t fs" and f: "f \<in> set fs"
    and i: "live t i" "prog_id (progs t ! i) \<notin> set f"
  shows "length f < ANE_T6021_MAX_PROGRAMS"
proof -
  let ?ids = "(\<lambda>i. prog_id (progs t ! i)) ` {i. live t i}"
  have "set f \<subseteq> ?ids - {prog_id (progs t ! i)}"
    using held_live [OF inv f] i by blast
  then have "card (set f) \<le> card (?ids - {prog_id (progs t ! i)})"
    using card_live_le(1) [OF prog_invD(1) [OF inv]] by (intro card_mono) auto
  also have "\<dots> < card ?ids"
    using i card_live_le(1) [OF prog_invD(1) [OF inv]] by (intro psubset_card_mono) auto
  also have "\<dots> \<le> ANE_T6021_MAX_PROGRAMS"
    using card_live_le [OF prog_invD(1) [OF inv]] card_image_le le_trans by blast
  finally show ?thesis using distinct_card prog_invD(5) [OF inv f] by metis
qed

lemma ref_outcome:
  assumes inv: "prog_inv t fs" and k: "k < length fs" and i: "live t i"
  obtains f' t' where "ane_t6021_fdprogs_ref (fs ! k) t i = (True, f', t')"
    and "prog_inv t' (fs[k := f'])" "prog_id (progs t ! i) \<in> set f'"
proof (cases "prog_id (progs t ! i) \<in> set (fs ! k)")
  case True
  then have "ane_t6021_fdprogs_ref (fs ! k) t i = (True, fs ! k, t)"
    by (simp add: ane_t6021_fdprogs_ref_def ane_t6021_fdprogs_has_def list_ex_iff)
  then show ?thesis using that [of "fs ! k" t] inv True by simp
next
  case False
  let ?id = "prog_id (progs t ! i)"
  let ?f' = "fs ! k @ [?id]"
  let ?t' = "put_prog t i ((progs t ! i)\<lparr>users := users (progs t ! i) + 1\<rparr>)"
  note D = prog_invD [OF inv]
  have kin: "fs ! k \<in> set fs" using k by simp
  have lt: "i < hi t" "i < length (progs t)" using i D(1) by (auto simp: live_def progtab_wf_def)
  have "ane_t6021_fdprogs_ref (fs ! k) t i = (True, ?f', ?t')"
    using False file_has_room [OF inv kin i False]
    by (simp add: ane_t6021_fdprogs_ref_def ane_t6021_fdprogs_has_def list_ex_iff Let_def)
  moreover have "prog_inv ?t' (fs[k := ?f'])"
  proof (rule prog_invI)
    have L: "live ?t' j = live t j" for j using live_put [OF lt(2)] i by (auto simp: live_def)
    have P: "prog_id (progs ?t' ! j) = prog_id (progs t ! j)"
      "digest (progs ?t' ! j) = digest (progs t ! j)" for j
      using lt by (auto simp: put_prog_def nth_list_update)
    have H: "holders (fs[k := ?f']) pid = holders fs pid + of_bool (pid = ?id)" for pid
      using sum_list_update_nat [OF k, of "\<lambda>f. of_bool (pid \<in> set f)" ?f'] False
      by (auto simp: holders_def)
    show "progtab_wf ?t'" using progtab_wf_put D(1) lt by blast
    show "length (fs[k := ?f']) < 2 ^ 32" using D(2) by simp
    show "\<And>a b. live ?t' a \<Longrightarrow> live ?t' b \<Longrightarrow> prog_id (progs ?t' ! a) = prog_id (progs ?t' ! b) \<Longrightarrow> a = b"
      using D(3) by (simp add: L P)
    show "\<And>a b. live ?t' a \<Longrightarrow> live ?t' b \<Longrightarrow> digest (progs ?t' ! a) = digest (progs ?t' ! b) \<Longrightarrow> a = b"
      using D(4) by (simp add: L P)
    show "distinct f" if "f \<in> set (fs[k := ?f'])" for f
      using that D(5) kin False k by (auto dest: set_update_subset_insert [THEN subsetD])
    show "\<exists>j. live ?t' j \<and> prog_id (progs ?t' ! j) = pid"
      if "f \<in> set (fs[k := ?f'])" "pid \<in> set f" for f pid
    proof -
      have "pid = ?id \<or> (\<exists>f\<in>set fs. pid \<in> set f)"
        using that kin by (auto dest!: set_update_subset_insert [THEN subsetD])
      then show ?thesis using held_live_ex [OF inv] i unfolding L P by blast
    qed
    show "unat (users (progs ?t' ! j)) = holders (fs[k := ?f']) (prog_id (progs ?t' ! j))"
      if "live ?t' j" for j
    proof (cases "j = i")
      case True
      have "Suc (holders fs ?id) \<le> length fs"
        using holders_le [of "fs[k := ?f']" ?id] by (simp add: H)
      then have "unat (users (progs t ! i) + 1) = Suc (holders fs ?id)"
        using D(2) D(7) [OF i] by (simp add: unat_word_ariths)
      then show ?thesis using True lt H by (simp add: put_prog_def)
    next
      case False
      then have "prog_id (progs t ! j) \<noteq> ?id" using D(3) that i by (auto simp: L)
      then show ?thesis using False D(7) that by (simp add: L P H) (simp add: put_prog_def)
    qed
  qed
  ultimately show ?thesis using that by simp
qed

text \<open>Taking away one program whose last holder is gone keeps the invariant.\<close>

lemma prog_inv_retire:
  assumes inv: "prog_inv t fs" and i: "live t i" and none: "holders fs (prog_id (progs t ! i)) = 0"
    and p: "pstate p \<noteq> PROG_LIVE"
  shows "prog_inv (put_prog t i p) fs"
proof (rule prog_invI)
  note D = prog_invD [OF inv]
  let ?t' = "put_prog t i p"
  have lt: "i < hi t" "i < length (progs t)" using i D(1) by (auto simp: live_def progtab_wf_def)
  have L: "live ?t' j \<longleftrightarrow> j \<noteq> i \<and> live t j" for j
    using live_put [OF lt(2)] p by (auto simp: live_def)
  have P: "j \<noteq> i \<Longrightarrow> progs ?t' ! j = progs t ! j" for j by (simp add: put_prog_def)
  show "progtab_wf ?t'" using progtab_wf_put D(1) lt by blast
  show "length fs < 2 ^ 32" by (rule D(2))
  show "\<And>a b. live ?t' a \<Longrightarrow> live ?t' b \<Longrightarrow> prog_id (progs ?t' ! a) = prog_id (progs ?t' ! b) \<Longrightarrow> a = b"
    using D(3) by (simp add: L P)
  show "\<And>a b. live ?t' a \<Longrightarrow> live ?t' b \<Longrightarrow> digest (progs ?t' ! a) = digest (progs ?t' ! b) \<Longrightarrow> a = b"
    using D(4) by (simp add: L P)
  show "\<And>f. f \<in> set fs \<Longrightarrow> distinct f" by (rule D(5))
  show "\<exists>j. live ?t' j \<and> prog_id (progs ?t' ! j) = pid" if "f \<in> set fs" "pid \<in> set f" for f pid
  proof -
    obtain j where j: "live t j" "prog_id (progs t ! j) = pid"
      using held_live_ex [OF inv] \<open>f \<in> set fs\<close> \<open>pid \<in> set f\<close> by blast
    moreover have "j \<noteq> i" using j none holders_pos [OF \<open>f \<in> set fs\<close> \<open>pid \<in> set f\<close>] by auto
    ultimately show ?thesis using L P by metis
  qed
  show "\<And>j. live ?t' j \<Longrightarrow> unat (users (progs ?t' ! j)) = holders fs (prog_id (progs ?t' ! j))"
    using D(7) by (simp add: L P)
qed

lemma prog_inv_drop:
  assumes inv: "prog_inv t ((pid # ids) # fs)" and i: "live t i" "prog_id (progs t ! i) = pid"
  shows "0 < unat (users (progs t ! i))"
    and "prog_inv (put_prog t i ((progs t ! i)\<lparr>users := users (progs t ! i) - 1\<rparr>)) (ids # fs)"
    and "unat (users (progs t ! i) - 1) = holders (ids # fs) pid"
proof -
  note D = prog_invD [OF inv]
  let ?t' = "put_prog t i ((progs t ! i)\<lparr>users := users (progs t ! i) - 1\<rparr>)"
  have lt: "i < hi t" "i < length (progs t)" using i D(1) by (auto simp: live_def progtab_wf_def)
  have notin: "pid \<notin> set ids" "distinct ids" using D(5) [of "pid # ids"] by auto
  have H: "holders ((pid # ids) # fs) x = of_bool (x = pid) + holders (ids # fs) x" for x
    using notin by (auto simp: holders_def)
  have u: "unat (users (progs t ! i)) = Suc (holders (ids # fs) pid)"
    using D(7) [OF i(1)] i(2) H [of pid] by simp
  show "0 < unat (users (progs t ! i))" using u by simp
  have "1 \<le> users (progs t ! i)" using u by (simp add: word_le_nat_alt)
  then show u': "unat (users (progs t ! i) - 1) = holders (ids # fs) pid"
    using u by (simp add: unat_sub_exact)
  have L: "live ?t' j = live t j" for j using live_put [OF lt(2)] i by (auto simp: live_def)
  have P: "prog_id (progs ?t' ! j) = prog_id (progs t ! j)"
    "digest (progs ?t' ! j) = digest (progs t ! j)" for j
    using lt by (auto simp: put_prog_def nth_list_update)
  show "prog_inv ?t' (ids # fs)"
  proof (rule prog_invI)
    show "progtab_wf ?t'" using progtab_wf_put D(1) lt by blast
    show "length (ids # fs) < 2 ^ 32" using D(2) by simp
    show "\<And>a b. live ?t' a \<Longrightarrow> live ?t' b \<Longrightarrow> prog_id (progs ?t' ! a) = prog_id (progs ?t' ! b) \<Longrightarrow> a = b"
      using D(3) by (simp add: L P)
    show "\<And>a b. live ?t' a \<Longrightarrow> live ?t' b \<Longrightarrow> digest (progs ?t' ! a) = digest (progs ?t' ! b) \<Longrightarrow> a = b"
      using D(4) by (simp add: L P)
    show "\<And>f. f \<in> set (ids # fs) \<Longrightarrow> distinct f" using D(5) notin by auto
    show "\<exists>j. live ?t' j \<and> prog_id (progs ?t' ! j) = x" if "f \<in> set (ids # fs)" "x \<in> set f" for f x
    proof -
      have "\<exists>f\<in>set ((pid # ids) # fs). x \<in> set f" using that by auto
      then show ?thesis using held_live_ex [OF inv] unfolding L P by blast
    qed
    show "unat (users (progs ?t' ! j)) = holders (ids # fs) (prog_id (progs ?t' ! j))" if "live ?t' j" for j
    proof (cases "j = i")
      case True
      then show ?thesis using u' i lt by (simp add: put_prog_def)
    next
      case False
      then have "prog_id (progs t ! j) \<noteq> pid" using D(3) that i by (auto simp: L)
      then show ?thesis using False D(7) [of j] that H by (simp add: L P) (simp add: put_prog_def)
    qed
  qed
qed

lemma fd_close_loop_inv:
  "prog_inv t (ids # fs) \<Longrightarrow> fd_close_loop uoc ops t ids c h = (t', c', h') \<Longrightarrow> prog_inv t' ([] # fs)"
proof (induction uoc ops t ids c h rule: fd_close_loop.induct)
  case (1 uoc ops t c held)
  then show ?case by simp
next
  case (2 uoc ops t pid ids c held)
  obtain i where i: "ane_t6021_progtab_by_id t pid = Some i" "live t i" "prog_id (progs t ! i) = pid"
    using held_live [OF "2.prems"(1), of "pid # ids" pid] by auto
  note drop = prog_inv_drop [OF "2.prems"(1) i(2,3)]
  let ?p = "(progs t ! i)\<lparr>users := users (progs t ! i) - 1\<rparr>"
  have lt: "i < length (progs t)" using i(2) prog_invD(1) [OF "2.prems"(1)] by (auto simp: live_def progtab_wf_def)
  have u: "users (progs t ! i) \<noteq> 0" using drop(1) by auto
  have put2: "put_prog t i q = put_prog (put_prog t i ?p) i q" for q by (simp add: put_prog_def)
  have retire: "prog_inv (put_prog t i q) (ids # fs)"
    if "users ?p = 0" "pstate q \<noteq> PROG_LIVE" for q
    unfolding put2 [of q]
  proof (rule prog_inv_retire [OF drop(2)])
    show "live (put_prog t i ?p) i" using i(2) live_put [OF lt] by (auto simp: live_def)
    show "holders (ids # fs) (prog_id (progs (put_prog t i ?p) ! i)) = 0"
      using drop(3) that lt i(3) by (simp add: put_prog_def)
  qed (use that in simp)
  show ?case
  proof (cases "users ?p \<noteq> 0 \<or> \<not> uoc")
    case True
    then show ?thesis using "2.IH"(3) [OF i(1) u] drop(2) "2.prems"(2) i(1) u by (auto simp: Let_def)
  next
    case False
    then have z: "users ?p = 0" and uoc: "uoc" by auto
    obtain r c1 where r: "unload ops c ?p = (r, c1)" by fastforce
    show ?thesis
    proof (cases r)
      case None
      then show ?thesis
        using "2.IH"(4) [OF i(1) u refl _ r [symmetric]] retire [OF z, of zero_prog] "2.prems"(2) i(1) u z uoc r
        by (auto simp: Let_def zero_prog_def)
    next
      case (Some e)
      then show ?thesis
        using "2.IH"(5) [OF i(1) u refl _ r [symmetric]] retire [OF z, of "?p\<lparr>pstate := PROG_HELD\<rparr>"]
          "2.prems"(2) i(1) u z uoc r
        by (auto simp: Let_def)
    qed
  qed
qed

lemma prog_inv_cong:
  assumes "\<And>pid. holders fs pid = holders fs' pid" "set fs = set fs'" "length fs = length fs'"
  shows "prog_inv t fs \<longleftrightarrow> prog_inv t fs'"
  using assms by (simp add: prog_inv_def)

lemma prog_inv_add:
  assumes inv: "prog_inv t fs" and add: "ane_t6021_progtab_add t d pid = Some (i, t')"
    and fresh: "ane_t6021_progtab_by_id t pid = None" "ane_t6021_progtab_find t d = None"
  shows "prog_inv t' fs" "live t' i" "prog_id (progs t' ! i) = pid"
proof -
  note D = prog_invD [OF inv]
  note a = add_SomeD [OF add D(1)] and l = live_add [OF add D(1)]
  show li: "live t' i" and idi: "prog_id (progs t' ! i) = pid" using l(1) a(5) by auto
  have old: "live t j" "progs t' ! j = progs t ! j" if "live t' j" "j \<noteq> i" for j
    using that l by auto
  have di: "digest (progs t' ! i) = d" using a(5) by simp
  have nid: "prog_id (progs t ! j) \<noteq> pid" "digest (progs t ! j) \<noteq> d" if "live t j" for j
    using by_id_NoneD [OF fresh(1) D(1) that] find_NoneD [OF fresh(2) D(1) that] by auto
  show "prog_inv t' fs"
  proof (rule prog_invI)
    show "a = b" if "live t' a" "live t' b" "prog_id (progs t' ! a) = prog_id (progs t' ! b)" for a b
      using that old nid D(3) idi by (metis (full_types))
    show "a = b" if "live t' a" "live t' b" "digest (progs t' ! a) = digest (progs t' ! b)" for a b
      using that old nid D(4) di by (metis (full_types))
    show "\<exists>j. live t' j \<and> prog_id (progs t' ! j) = x" if "f \<in> set fs" "x \<in> set f" for f x
      using held_live_ex [OF inv that] l by metis
    show "unat (users (progs t' ! j)) = holders fs (prog_id (progs t' ! j))" if "live t' j" for j
    proof (cases "j = i")
      case True
      have "pid \<notin> set f" if "f \<in> set fs" for f using D(6) [OF that] fresh(1) by blast
      then have "holders fs pid = 0" by (auto simp: holders_def)
      then show ?thesis using True a(5) by (simp add: zero_prog_def)
    next
      case False
      then show ?thesis using old [OF that] D(7) by simp
    qed
  qed (use a(1) D in auto)
qed

section \<open>The driver's use of the table\<close>

text \<open>Every entry point runs under the firmware lock, so the system is a sequence of steps on
  the table, the lists of the open files and the context of the callbacks.  A load that finds
  the digest shares the program; a load that does not adds the program the firmware loaded,
  under an identifier \<open>pid\<close> no live program has (the firmware identifies loaded programs by
  it).\<close>

record 'c progsys =
  tab :: progtab
  fds :: "fdprogs list"
  ctx :: 'c

inductive prog_step :: "'c progtab_ops \<Rightarrow> 'c progsys \<Rightarrow> 'c progsys \<Rightarrow> bool" for ops where
  open_file: "Suc (length (fds s)) < 2 ^ 32 \<Longrightarrow> prog_step ops s (s\<lparr>fds := fds s @ [[]]\<rparr>)"
| share: "\<lbrakk>k < length (fds s); ane_t6021_progtab_find (tab s) d = Some i;
     ane_t6021_fdprogs_ref (fds s ! k) (tab s) i = (ok, f, t)\<rbrakk>
   \<Longrightarrow> prog_step ops s (s\<lparr>tab := t, fds := (fds s)[k := f]\<rparr>)"
| load_new: "\<lbrakk>k < length (fds s); ane_t6021_progtab_find (tab s) d = None;
     ane_t6021_progtab_has_room (tab s); ane_t6021_progtab_by_id (tab s) pid = None;
     ane_t6021_progtab_add (tab s) d pid = Some (i, t);
     ane_t6021_fdprogs_ref (fds s ! k) (put_prog t i ((progs t ! i)\<lparr>sec := secs\<rparr>)) i = (ok, f, t')\<rbrakk>
   \<Longrightarrow> prog_step ops s (s\<lparr>tab := t', fds := (fds s)[k := f]\<rparr>)"
| close_file: "\<lbrakk>k < length (fds s);
     ane_t6021_progtab_fd_close (tab s) (fds s ! k) uoc ops (ctx s) = (held, t, f, c)\<rbrakk>
   \<Longrightarrow> prog_step ops s (s\<lparr>tab := t, fds := del_at k (fds s), ctx := c\<rparr>)"
| context_moves: "prog_step ops s (s\<lparr>ctx := c\<rparr>)"

inductive prog_reach :: "'c progtab_ops \<Rightarrow> 'c progsys \<Rightarrow> bool" for ops where
  start: "prog_reach ops \<lparr>tab = progtab_init, fds = [], ctx = c\<rparr>"
| step: "prog_reach ops s \<Longrightarrow> prog_step ops s s' \<Longrightarrow> prog_reach ops s'"

lemma prog_inv_init: "prog_inv progtab_init []"
  by (simp add: prog_inv_def progtab_wf_init live_def) (simp add: progtab_init_def)

lemma prog_inv_sec:
  assumes "prog_inv t fs" "live t i"
  shows "prog_inv (put_prog t i ((progs t ! i)\<lparr>sec := x\<rparr>)) fs"
    and "live (put_prog t i ((progs t ! i)\<lparr>sec := x\<rparr>)) i"
proof -
  note D = prog_invD [OF assms(1)]
  let ?t' = "put_prog t i ((progs t ! i)\<lparr>sec := x\<rparr>)"
  have lt: "i < hi t" "i < length (progs t)" using assms D(1) by (auto simp: live_def progtab_wf_def)
  have L: "live ?t' j = live t j" for j using live_put [OF lt(2)] assms(2) by (auto simp: live_def)
  have P: "prog_id (progs ?t' ! j) = prog_id (progs t ! j)" "users (progs ?t' ! j) = users (progs t ! j)"
    "digest (progs ?t' ! j) = digest (progs t ! j)" for j
    using lt by (auto simp: put_prog_def nth_list_update)
  show "live ?t' i" using L assms(2) by simp
  show "prog_inv ?t' fs"
    by (rule prog_invI) (use D held_live_ex [OF assms(1)] progtab_wf_put lt in \<open>auto simp: L P\<close>)
qed

lemma prog_step_inv:
  assumes "prog_step ops s s'" "prog_inv (tab s) (fds s)"
  shows "prog_inv (tab s') (fds s')"
  using assms
proof cases
  case open_file
  have "holders (fds s @ [[]]) pid = holders (fds s) pid" for pid by (simp add: holders_def)
  then show ?thesis using assms(2) open_file by (simp add: prog_inv_def)
next
  case (share k d i ok f t)
  then show ?thesis
    using find_SomeD(1) prog_invD(1) assms(2) ref_outcome [OF assms(2), of k i] by (auto simp del: fun_upd_apply)
next
  case (load_new k d pid i t secs ok f t')
  note a = prog_inv_add [OF assms(2) load_new(6,5,3)]
  note b = prog_inv_sec [OF a(1,2), of secs]
  show ?thesis using load_new ref_outcome [OF b(1) load_new(2) b(2)] by auto
next
  case (close_file k uoc held t f c)
  let ?o = "del_at k (fds s)"
  have perm: "prog_inv (tab s) (fds s ! k # ?o)"
  proof (subst prog_inv_cong [of _ "fds s"])
    show "holders (fds s ! k # ?o) pid = holders (fds s) pid" for pid
      using sum_list_split_at [OF close_file(2), of "\<lambda>f. of_bool (pid \<in> set f)"]
      by (simp add: holders_def)
    show "set (fds s ! k # ?o) = set (fds s)"
      using set_del_at [OF close_file(2)] by simp
    show "length (fds s ! k # ?o) = length (fds s)" using close_file(2) by (simp add: length_del_at)
  qed (rule assms(2))
  obtain c' h' where "fd_close_loop uoc ops (tab s) (fds s ! k) (ctx s) 0 = (t, c', h')"
    using close_file(3) by (auto simp: ane_t6021_progtab_fd_close_def split: prod.splits)
  from fd_close_loop_inv [OF perm this] have "prog_inv t ([] # ?o)" .
  moreover have "holders ([] # ?o) pid = holders ?o pid" for pid by (simp add: holders_def)
  ultimately show ?thesis using close_file(1) by (simp add: prog_inv_def)
next
  case (context_moves c)
  then show ?thesis using assms(2) by simp
qed

lemma prog_reach_inv: "prog_reach ops s \<Longrightarrow> prog_inv (tab s) (fds s)"
  by (induction rule: prog_reach.induct) (auto intro: prog_step_inv simp: prog_inv_init)

section \<open>What a close does\<close>

text \<open>A slot whose program is not live is not touched by a close.\<close>

lemma put_prog_sel [simp]:
  "hi (put_prog t i p) = hi t" "length (progs (put_prog t i p)) = length (progs t)"
  by (auto simp: put_prog_def)

lemma put_prog_nth: "j \<noteq> i \<Longrightarrow> progs (put_prog t i p) ! j = progs t ! j"
  by (simp add: put_prog_def)

lemma by_id_lt: "ane_t6021_progtab_by_id t pid = Some i \<Longrightarrow> i < length (progs t) \<and>
    pstate (progs t ! i) = PROG_LIVE \<and> prog_id (progs t ! i) = pid"
  by (auto simp: ane_t6021_progtab_by_id_def first_index_Some)

lemma fd_close_loop_other:
  "fd_close_loop uoc ops t ids c h = (t', c', h') \<Longrightarrow>
     pstate (progs t ! j) \<noteq> PROG_LIVE \<or> prog_id (progs t ! j) \<notin> set ids \<Longrightarrow>
     progs t' ! j = progs t ! j"
proof (induction uoc ops t ids c h rule: fd_close_loop.induct)
  case (1 uoc ops t c held)
  then show ?case by simp
next
  case (2 uoc ops t pid ids c held)
  have ne: "j \<noteq> i" if "ane_t6021_progtab_by_id t pid = Some i" for i
    using by_id_lt [OF that] "2.prems"(2) by auto
  note same = put_prog_nth [OF ne]
  show ?case
    using 2 same
    by (auto simp: Let_def split: option.splits if_splits prod.splits)
qed

text \<open>The callbacks, with a log of the calls made.\<close>

datatype prog_call = Unload prog "errno option" | Release prog

definition log_ops :: "'c progtab_ops \<Rightarrow> ('c \<times> prog_call list) progtab_ops" where
  "log_ops ops = \<lparr>unload = (\<lambda>(c, l) p. case unload ops c p of (r, c') \<Rightarrow> (r, c', l @ [Unload p r])),
                  release = (\<lambda>(c, l) p. (release ops c p, l @ [Release p]))\<rparr>"

fun unload_calls :: "prog \<times> errno option \<Rightarrow> prog_call list" where
  "unload_calls (p, None) = [Unload p None, Release p]"
| "unload_calls (p, Some e) = [Unload p (Some e)]"

fun unload_result :: "prog \<times> errno option \<Rightarrow> prog" where
  "unload_result (p, None) = zero_prog"
| "unload_result (p, Some e) = p\<lparr>pstate := PROG_HELD\<rparr>"

definition close_post ::
  "progtab \<Rightarrow> fdprogs list \<Rightarrow> fdprogs \<Rightarrow> progtab \<Rightarrow> (prog \<times> errno option) list \<Rightarrow> bool" where
  "close_post t fs f t' ps \<longleftrightarrow>
     map (prog_id \<circ> fst) ps = filter (\<lambda>pid. holders fs pid = 0) f \<and>
     (\<forall>x\<in>set ps. \<exists>i. live t i \<and> progs t ! i = (fst x)\<lparr>users := 1\<rparr> \<and>
        users (fst x) = 0 \<and> progs t' ! i = unload_result x)"

lemma fd_close_loop_log:
  "prog_inv t (ids # fs) \<Longrightarrow>
   fd_close_loop True (log_ops ops) t ids (c, l) h = (t', (c', l'), h') \<Longrightarrow>
   \<exists>ps. l' = l @ concat (map unload_calls ps) \<and> h' = h + length (filter (\<lambda>x. snd x \<noteq> None) ps) \<and>
        close_post t fs ids t' ps"
proof (induction ids arbitrary: t c l h)
  case Nil
  then show ?case by (auto simp: close_post_def)
next
  case (Cons pid ids)
  obtain i where i: "ane_t6021_progtab_by_id t pid = Some i" "live t i" "prog_id (progs t ! i) = pid"
    using held_live [OF Cons.prems(1), of "pid # ids" pid] by auto
  note drop = prog_inv_drop [OF Cons.prems(1) i(2,3)]
  note D = prog_invD [OF Cons.prems(1)]
  let ?p = "(progs t ! i)\<lparr>users := users (progs t ! i) - 1\<rparr>"
  have lt: "i < length (progs t)" using i(2) D(1) by (auto simp: live_def progtab_wf_def)
  have notin: "pid \<notin> set ids" using D(5) [of "pid # ids"] by auto
  have u: "users (progs t ! i) \<noteq> 0" using drop(1) by auto
  have hold: "holders (ids # fs) pid = holders fs pid" using notin by (simp add: holders_def)
  have keep: "close_post t fs ids t'' ps"
    if post: "close_post (put_prog t i q) fs ids t'' ps" and q: "pstate q \<noteq> PROG_LIVE \<or> prog_id q = pid"
    for q t'' ps
    unfolding close_post_def
  proof (intro conjI ballI)
    show ids: "map (prog_id \<circ> fst) ps = filter (\<lambda>pid. holders fs pid = 0) ids"
      using post by (simp add: close_post_def)
    fix x assume x: "x \<in> set ps"
    then obtain j where j: "live (put_prog t i q) j" "progs (put_prog t i q) ! j = (fst x)\<lparr>users := 1\<rparr>"
      "users (fst x) = 0" "progs t'' ! j = unload_result x"
      using post unfolding close_post_def by blast
    have "prog_id (fst x) \<in> set (map (prog_id \<circ> fst) ps)" using x by auto
    then have "prog_id (fst x) \<in> set ids" unfolding ids by simp
    then have "j \<noteq> i" using j(1,2) q notin lt by (auto simp: live_def put_prog_def)
    then show "\<exists>j. live t j \<and> progs t ! j = (fst x)\<lparr>users := 1\<rparr> \<and> users (fst x) = 0 \<and>
        progs t'' ! j = unload_result x"
      using j live_put [OF lt, of q j] by (auto simp: put_prog_nth)
  qed
  show ?case
  proof (cases "users ?p = 0")
    case False
    have "unat (users ?p) = holders fs pid" using drop(3) hold by simp
    with False have pos: "holders fs pid \<noteq> 0" by (metis unat_eq_zero)
    have "fd_close_loop True (log_ops ops) (put_prog t i ?p) ids (c, l) h = (t', (c', l'), h')"
      using Cons.prems(2) i(1) u False by simp
    from Cons.IH [OF drop(2) this] show ?thesis using keep [of ?p] pos i(3)
      by (fastforce simp: close_post_def)
  next
    case True
    then have zero: "holders fs pid = 0" using drop(3) hold by simp
    have one: "users (progs t ! i) = 1" using True by simp
    obtain r c1 where r: "unload ops c ?p = (r, c1)" by fastforce
    let ?q = "unload_result (?p, r)"
    have q: "pstate ?q \<noteq> PROG_LIVE" by (cases r) (auto simp: zero_prog_def)
    have live_i: "live (put_prog t i ?p) i" using i(2) lt by (simp add: live_def put_prog_def)
    have "put_prog (put_prog t i ?p) i ?q = put_prog t i ?q" by (simp add: put_prog_def)
    then have inv': "prog_inv (put_prog t i ?q) (ids # fs)"
      using prog_inv_retire [OF drop(2) live_i _ q] drop(3) zero hold lt i(3) by (simp add: put_prog_def)
    obtain c2 where run: "fd_close_loop True (log_ops ops) (put_prog t i ?q) ids
        (c2, l @ unload_calls (?p, r)) (h + of_bool (r \<noteq> None)) = (t', (c', l'), h')"
      using Cons.prems(2) i(1) u True r by (cases r) (auto simp: log_ops_def Let_def)
    obtain ps where ps: "l' = (l @ unload_calls (?p, r)) @ concat (map unload_calls ps)"
      "h' = h + of_bool (r \<noteq> None) + length (filter (\<lambda>x. snd x \<noteq> None) ps)"
      "close_post (put_prog t i ?q) fs ids t' ps"
      using Cons.IH [OF inv' run] by blast
    have "progs t' ! i = ?q"
      using fd_close_loop_other [OF run, of i] q lt by (simp add: put_prog_def)
    then have "close_post t fs (pid # ids) t' ((?p, r) # ps)"
      using keep [OF ps(3)] q zero i one by (auto simp: close_post_def intro!: exI [of _ i])
    then show ?thesis using ps(1,2) by (intro exI [of _ "(?p, r) # ps"]) auto
  qed
qed

section \<open>Properties\<close>



text \<open>C22: closing a file tells the firmware to unload exactly the programs whose last holder the
  file was, in the order of the file's list and each once; the section buffers of a program are
  given back only right after its unload was acknowledged, its slot is then free; a program
  whose unload failed is HELD with its section pointers kept and its buffers are not released;
  the result counts the latter.\<close>

theorem fd_close_protocol:
  assumes "prog_inv t (f # fs)"
    and "ane_t6021_progtab_fd_close t f True (log_ops ops) (c, []) = (held, t', f', (c', calls))"
  shows "f' = [] \<and> (\<exists>ps. calls = concat (map unload_calls ps) \<and>
           map (\<lambda>x. prog_id (fst x)) ps = filter (\<lambda>pid. holders fs pid = 0) f \<and>
           held = length (filter (\<lambda>x. snd x \<noteq> None) ps) \<and>
           (\<forall>(p, r)\<in>set ps. \<exists>i<hi t. progs t ! i = p\<lparr>users := 1\<rparr> \<and>
              progs t' ! i = (if r = None then zero_prog else p\<lparr>pstate := PROG_HELD\<rparr>)))"
proof -
  have f': "f' = []" and run: "fd_close_loop True (log_ops ops) t f (c, []) 0 = (t', (c', calls), held)"
    using assms(2) by (auto simp: ane_t6021_progtab_fd_close_def split: prod.splits)
  obtain ps where ps: "calls = concat (map unload_calls ps)"
    "held = length (filter (\<lambda>x. snd x \<noteq> None) ps)" "close_post t fs f t' ps"
    using fd_close_loop_log [OF assms(1) run] by auto
  have res: "unload_result (p, r) = (if r = None then zero_prog else p\<lparr>pstate := PROG_HELD\<rparr>)" for p r
    by (cases r) auto
  show ?thesis
    using ps f' by (intro conjI exI [of _ ps]) (fastforce simp: close_post_def live_def res comp_def)+
qed

lemma fdprogs_ref_other:
  assumes "ane_t6021_fdprogs_ref f t i = (ok, f', t')" "j \<noteq> i"
  shows "progs t' ! j = progs t ! j" "hi t' = hi t"
  using assms by (auto simp: ane_t6021_fdprogs_ref_def Let_def put_prog_nth split: if_splits)

lemma fd_close_loop_hi: "fd_close_loop uoc ops t ids c h = (t', c', h') \<Longrightarrow> hi t' = hi t"
  by (induction uoc ops t ids c h rule: fd_close_loop.induct)
     (auto simp: Let_def split: option.splits if_splits prod.splits)

lemma prog_step_held:
  assumes step: "prog_step ops s s'" and inv: "prog_inv (tab s) (fds s)"
    and i: "i < hi (tab s)" "pstate (progs (tab s) ! i) = PROG_HELD"
  shows "progs (tab s') ! i = progs (tab s) ! i \<and> i < hi (tab s')"
  using step
proof cases
  case (share k d i' ok f t)
  then have "i \<noteq> i'" using find_SomeD(1) prog_invD(1) [OF inv] i by (fastforce simp: live_def)
  then show ?thesis using fdprogs_ref_other share i by auto
next
  case (load_new k d pid i' t secs ok f t')
  note wf = prog_invD(1) [OF inv]
  have ne: "i \<noteq> i'" using add_SomeD(3) [OF load_new(6) wf] i by auto
  have "progs t' ! i = progs t ! i" "hi t' = hi t"
    using fdprogs_ref_other [OF load_new(7) ne] ne by (auto simp: put_prog_nth)
  then show ?thesis
    using live_add(3) [OF load_new(6) wf ne] add_SomeD(6) [OF load_new(6) wf] i load_new(1) by simp
next
  case (close_file k uoc held t f c)
  then obtain c' h' where run: "fd_close_loop uoc ops (tab s) (fds s ! k) (ctx s) 0 = (t, c', h')"
    by (auto simp: ane_t6021_progtab_fd_close_def split: prod.splits)
  show ?thesis using fd_close_loop_other [OF run, of i] fd_close_loop_hi [OF run] i close_file(1) by simp
qed (use i in simp_all)

text \<open>C23: a HELD program stays as it is for ever: no later step of the driver changes its slot, so
  its section pointers are never dropped and its slot is never handed to another program, and
  neither lookup returns it.\<close>

theorem prog_held_forever:
  assumes "prog_reach ops s" "prog_step ops s s'" "i < hi (tab s)" "pstate (progs (tab s) ! i) = PROG_HELD"
  shows "progs (tab s') ! i = progs (tab s) ! i \<and> i < hi (tab s') \<and>
         ane_t6021_progtab_find (tab s) d \<noteq> Some i \<and> ane_t6021_progtab_by_id (tab s) pid \<noteq> Some i"
proof -
  have inv: "prog_inv (tab s) (fds s)" using assms(1) by (rule prog_reach_inv)
  show ?thesis
    using prog_step_held [OF assms(2) inv assms(3,4)] by_id_SomeD(1) find_SomeD(1) prog_invD(1) [OF inv]
      assms(4) by (fastforce simp: live_def)
qed

section \<open>Concrete runs\<close>

definition ex_prog_ops :: "nat progtab_ops" where
  "ex_prog_ops = \<lparr>unload = (\<lambda>c p. (if prog_id p = 9 then Some ETIMEDOUT else None, c)),
                  release = (\<lambda>c p. c + 1)\<rparr>"

definition ex_prog :: "u32 \<Rightarrow> prog" where
  "ex_prog pid = zero_prog\<lparr>digest := replicate 32 1, prog_id := pid, proc_id := ANE_T6021_PROG_NOPROC,
                   pstate := PROG_LIVE, users := 1\<rparr>"

definition ex_tab :: "u32 \<Rightarrow> progtab" where
  "ex_tab pid = \<lparr>progs = (replicate ANE_T6021_MAX_PROGRAMS zero_prog)[0 := ex_prog pid], hi = 1\<rparr>"

definition ex_sys :: "u32 \<Rightarrow> nat progsys" where
  "ex_sys pid = \<lparr>tab = ex_tab pid, fds = [[pid]], ctx = 0\<rparr>"

lemmas ex_prog_eval = ane_t6021_progtab_find_def ane_t6021_progtab_by_id_def
  ane_t6021_progtab_has_room_def ane_t6021_progtab_add_def progtab_slot_def
  ane_t6021_fdprogs_ref_def ane_t6021_fdprogs_has_def put_prog_def progtab_init_def
  ANE_T6021_MAX_PROGRAMS_def ex_prog_def ex_tab_def ex_sys_def Let_def

lemma ex_tab_sel:
  "progs (ex_tab pid) ! 0 = ex_prog pid" "hi (ex_tab pid) = 1"
  "ane_t6021_progtab_by_id (ex_tab pid) pid = Some 0"
proof -
  have take: "take 1 (progs (ex_tab pid)) = [ex_prog pid]"
    by (simp add: ex_tab_def ANE_T6021_MAX_PROGRAMS_def take_Suc_conv_app_nth)
  show "hi (ex_tab pid) = 1" by (simp add: ex_tab_def)
  show "progs (ex_tab pid) ! 0 = ex_prog pid" by (simp add: ex_tab_def ANE_T6021_MAX_PROGRAMS_def)
  show "ane_t6021_progtab_by_id (ex_tab pid) pid = Some 0"
    using take by (simp add: ane_t6021_progtab_by_id_def \<open>hi (ex_tab pid) = 1\<close> ex_prog_def)
qed

lemma ex_sys_reach: "prog_reach ex_prog_ops (ex_sys pid)"
proof -
  let ?s0 = "\<lparr>tab = progtab_init, fds = [], ctx = (0 :: nat)\<rparr>"
  let ?s1 = "?s0\<lparr>fds := [[]]\<rparr>"
  let ?t = "\<lparr>progs = (replicate ANE_T6021_MAX_PROGRAMS zero_prog)[0 := (ex_prog pid)\<lparr>users := 0\<rparr>], hi = 1\<rparr>"
  have "prog_step ex_prog_ops ?s0 (?s0\<lparr>fds := fds ?s0 @ [[]]\<rparr>)" by (rule prog_step.open_file) simp
  then have s1: "prog_reach ex_prog_ops ?s1"
    using prog_reach.start [of ex_prog_ops 0] prog_reach.step by fastforce
  have "prog_step ex_prog_ops ?s1 (?s1\<lparr>tab := tab (ex_sys pid), fds := (fds ?s1)[0 := [pid]]\<rparr>)"
  proof (rule prog_step.load_new [where d = "replicate 32 1" and pid = pid and i = 0 and t = ?t
        and secs = "replicate ANE_T6021_PROG_SECS None" and ok = True])
    show "ane_t6021_fdprogs_ref (fds ?s1 ! 0)
        (put_prog ?t 0 ((progs ?t ! 0)\<lparr>sec := replicate ANE_T6021_PROG_SECS None\<rparr>)) 0 = (True, [pid], tab (ex_sys pid))"
      by (simp add: ex_prog_eval zero_prog_def)
  qed (simp_all add: ex_prog_eval zero_prog_def)
  moreover have "?s1\<lparr>tab := tab (ex_sys pid), fds := (fds ?s1)[0 := [pid]]\<rparr> = ex_sys pid"
    by (simp add: ex_sys_def)
  ultimately show ?thesis using prog_reach.step [OF s1] by simp
qed

lemma ex_close:
  "ane_t6021_progtab_fd_close (ex_tab 9) [9] True ex_prog_ops c =
     (1, put_prog (ex_tab 9) 0 ((ex_prog 9)\<lparr>users := 0, pstate := PROG_HELD\<rparr>), [], c)"
  "ane_t6021_progtab_fd_close (ex_tab 7) [7] True (log_ops ex_prog_ops) (0, []) =
     (0, put_prog (ex_tab 7) 0 zero_prog, [], 1,
      [Unload ((ex_prog 7)\<lparr>users := 0\<rparr>) None, Release ((ex_prog 7)\<lparr>users := 0\<rparr>)])"
  by (simp_all add: ane_t6021_progtab_fd_close_def ex_tab_sel log_ops_def ex_prog_ops_def Let_def)
     (simp_all add: ex_prog_def)



theorem fd_close_protocol_witness:
  "\<exists>ps. map (\<lambda>x. prog_id (fst x)) ps = [7 :: u32] \<and> concat (map unload_calls ps) =
     [Unload ((ex_prog 7)\<lparr>users := 0\<rparr>) None, Release ((ex_prog 7)\<lparr>users := 0\<rparr>)]"
proof -
  have "prog_inv (ex_tab 7) [[7]]" using prog_reach_inv [OF ex_sys_reach [of 7]] by (simp add: ex_sys_def)
  from fd_close_protocol [OF this ex_close(2)] show ?thesis
    by (elim conjE exE) (intro exI conjI, assumption?, auto simp: holders_def)
qed

theorem prog_held_forever_witness:
  "\<exists>s s'. prog_step ex_prog_ops s s' \<and> pstate (progs (tab s) ! 0) = PROG_HELD \<and>
     progs (tab s') ! 0 = progs (tab s) ! 0 \<and> 0 < hi (tab s')"
proof -
  let ?s = "\<lparr>tab = put_prog (ex_tab 9) 0 ((ex_prog 9)\<lparr>users := 0, pstate := PROG_HELD\<rparr>), fds = [], ctx = 0\<rparr>"
  have "prog_step ex_prog_ops (ex_sys 9) ((ex_sys 9)\<lparr>tab := tab ?s, fds := del_at 0 (fds (ex_sys 9)), ctx := 0\<rparr>)"
    by (rule prog_step.close_file [where uoc = True]) (simp_all add: ex_sys_def ex_close)
  then have r: "prog_reach ex_prog_ops ?s"
    using prog_reach.step [OF ex_sys_reach [of 9]] by (fastforce simp: ex_sys_def del_at_def)
  have st: "prog_step ex_prog_ops ?s (?s\<lparr>fds := fds ?s @ [[]]\<rparr>)"
    using prog_step.open_file [of ?s] by simp
  have held: "0 < hi (tab ?s)" "pstate (progs (tab ?s) ! 0) = PROG_HELD"
    by (simp_all add: ex_tab_sel) (simp add: put_prog_def ex_tab_def ANE_T6021_MAX_PROGRAMS_def)
  from prog_held_forever [OF r st held] st held(2) show ?thesis by blast
qed

end
