(* ===== verification/Ane_Machine.thy ===== *)
theory Ane_Machine
  imports Ane_Prelude "HOL-Library.State_Monad"
begin

text \<open>
  The machine below the drivers.  Driver code that talks to registers, to shared memory or to
  the DMA allocator is written in the state monad over a record that carries a trace: the list
  of every access made so far, oldest first.  What an access returns is chosen by the
  environment, an arbitrary function of the whole trace, so a statement proved for every
  environment holds for every behaviour of the hardware and of the firmware on the other side.

  A deadline of the C code (\<^verbatim>\<open>jiffies\<close>) is the number of polls the environment lets
  through before it expires; it too may depend on the trace.

  Statements about such code are weakest preconditions: \<open>wp m Q s\<close> says that running \<open>m\<close> in
  \<open>s\<close> gives a result and a state that satisfy \<open>Q\<close>.  The rules of the collection \<open>wp\<close> push it
  through the code.
\<close>

datatype loc =
    Eng nat          \<comment> \<open>engine register, by offset\<close>
  | Pmgr nat         \<comment> \<open>power-manager register\<close>
  | Ps nat           \<comment> \<open>power-state word of an island\<close>
  | SetReg nat       \<comment> \<open>register of the SET window\<close>
  | Dart nat nat     \<comment> \<open>IOMMU instance and register\<close>
  | Ipc nat          \<comment> \<open>byte offset in the IPC surface\<close>
  | Cmd nat          \<comment> \<open>byte offset in the command buffer\<close>
  | Mem u64          \<comment> \<open>memory the firmware addresses, by CPU address\<close>

datatype ev =
    Read loc u64
  | Write loc u64
  | Barrier
  | Alloc u64 "(u64 \<times> u64) option"   \<comment> \<open>DMA allocation: size, CPU and DMA address\<close>
  | Free u64 u64                       \<comment> \<open>DMA free: size, DMA address\<close>
  | Sleep
  | Phase string

type_synonym trace = "ev list"

record env =
  rd :: "trace \<Rightarrow> loc \<Rightarrow> u64"
  dmalloc :: "trace \<Rightarrow> u64 \<Rightarrow> (u64 \<times> u64) option"
  polls :: "trace \<Rightarrow> nat"

record mach =
  trace :: trace

abbreviation ret :: "'a \<Rightarrow> ('s, 'a) state" where
  "ret \<equiv> State_Monad.return"

abbreviation get_st :: "('s, 's) state" where
  "get_st \<equiv> State_Monad.get"

abbreviation modify :: "('s \<Rightarrow> 's) \<Rightarrow> ('s, unit) state" where
  "modify \<equiv> State_Monad.update"

definition emit :: "ev \<Rightarrow> ('m mach_scheme, unit) state" where
  "emit e = modify (\<lambda>s. s\<lparr>trace := trace s @ [e]\<rparr>)"

definition rdl :: "'e env_scheme \<Rightarrow> loc \<Rightarrow> ('m mach_scheme, u64) state" where
  "rdl E l = do { s \<leftarrow> get_st; emit (Read l (rd E (trace s) l)); ret (rd E (trace s) l) }"

definition wrl :: "loc \<Rightarrow> u64 \<Rightarrow> ('m mach_scheme, unit) state" where
  "wrl l v = emit (Write l v)"

text \<open>A CPU address of 0 is a failed allocation.\<close>

definition dma_result :: "'e env_scheme \<Rightarrow> trace \<Rightarrow> u64 \<Rightarrow> (u64 \<times> u64) option" where
  "dma_result E tr sz = (case dmalloc E tr sz of
     None \<Rightarrow> None | Some (cpu, dma) \<Rightarrow> if cpu = 0 then None else Some (cpu, dma))"

definition dma_alloc_coherent :: "'e env_scheme \<Rightarrow> u64 \<Rightarrow> ('m mach_scheme, (u64 \<times> u64) option) state" where
  "dma_alloc_coherent E sz =
     do { s \<leftarrow> get_st; emit (Alloc sz (dma_result E (trace s) sz)); ret (dma_result E (trace s) sz) }"

definition dma_free_coherent :: "u64 \<Rightarrow> u64 \<Rightarrow> ('m mach_scheme, unit) state" where
  "dma_free_coherent sz dma = emit (Free sz dma)"

text \<open>Conditional and sequential composition of the C code.\<close>

definition guarded :: "bool \<Rightarrow> ('s, unit) state \<Rightarrow> ('s, unit) state" where
  "guarded b m = (if b then m else ret ())"

primrec seq_all :: "('s, unit) state list \<Rightarrow> ('s, unit) state" where
  "seq_all [] = ret ()"
| "seq_all (m # ms) = do { m; seq_all ms }"

section \<open>Weakest preconditions\<close>

definition wp :: "('s, 'a) state \<Rightarrow> ('a \<Rightarrow> 's \<Rightarrow> bool) \<Rightarrow> 's \<Rightarrow> bool" where
  "wp m Q s = (case run_state m s of (a, s') \<Rightarrow> Q a s')"

named_theorems wp \<open>weakest preconditions of the monadic primitives\<close>

lemma wp_ret [wp]: "wp (ret x) Q s = Q x s"
  by (simp add: wp_def)

lemma wp_bind [wp]: "wp (State_Monad.bind m f) Q s = wp m (\<lambda>a. wp (f a) Q) s"
  by (simp add: wp_def split: prod.splits)

lemma wp_get [wp]: "wp get_st Q s = Q s s"
  by (simp add: wp_def)

lemma wp_modify [wp]: "wp (modify f) Q s = Q () (f s)"
  by (simp add: wp_def State_Monad.update_def)

lemma wp_if [wp]: "wp (if b then m else n) Q s = (if b then wp m Q s else wp n Q s)"
  by simp

lemma wp_Let [wp]: "wp (Let x f) Q s = (let y = x in wp (f y) Q s)"
  by simp

lemma wp_option [wp]:
  "wp (case x of None \<Rightarrow> m | Some y \<Rightarrow> f y) Q s = (case x of None \<Rightarrow> wp m Q s | Some y \<Rightarrow> wp (f y) Q s)"
  by (simp split: option.splits)

lemma wp_sum [wp]:
  "wp (case x of Inl a \<Rightarrow> f a | Inr b \<Rightarrow> g b) Q s =
     (case x of Inl a \<Rightarrow> wp (f a) Q s | Inr b \<Rightarrow> wp (g b) Q s)"
  by (simp split: sum.splits)

lemma wp_prod [wp]:
  "wp (case x of (a, b) \<Rightarrow> f a b) Q s = (case x of (a, b) \<Rightarrow> wp (f a b) Q s)"
  by (simp split: prod.splits)

lemma wp_emit [wp]: "wp (emit e) Q s = Q () (s\<lparr>trace := trace s @ [e]\<rparr>)"
  by (simp add: emit_def wp)

lemma wp_rdl [wp]:
  "wp (rdl E l) Q s =
     Q (rd E (trace s) l) (s\<lparr>trace := trace s @ [Read l (rd E (trace s) l)]\<rparr>)"
  by (simp add: rdl_def wp)

lemma wp_wrl [wp]: "wp (wrl l v) Q s = Q () (s\<lparr>trace := trace s @ [Write l v]\<rparr>)"
  by (simp add: wrl_def wp)

lemma wp_alloc [wp]:
  "wp (dma_alloc_coherent E sz) Q s =
     Q (dma_result E (trace s) sz) (s\<lparr>trace := trace s @ [Alloc sz (dma_result E (trace s) sz)]\<rparr>)"
  by (simp add: dma_alloc_coherent_def wp)

lemma dma_result_nonnull: "dma_result E tr sz = Some (cpu, dma) \<Longrightarrow> cpu \<noteq> 0"
  by (auto simp: dma_result_def split: option.splits if_splits)

lemma wp_free [wp]:
  "wp (dma_free_coherent sz dma) Q s = Q () (s\<lparr>trace := trace s @ [Free sz dma]\<rparr>)"
  by (simp add: dma_free_coherent_def wp)

lemma wp_guarded [wp]: "wp (guarded b m) Q s = (if b then wp m Q s else Q () s)"
  by (simp add: guarded_def wp)

text \<open>The same rules as equations between predicates, for uses under a binder.\<close>

lemma wp_fun [wp]:
  "wp (ret x) Q1 = Q1 x"
  "wp (State_Monad.bind m f) Q2 = wp m (\<lambda>a. wp (f a) Q2)"
  "wp (modify g) Q3 = (\<lambda>s. Q3 () (g s))"
  "wp get_st Q4 = (\<lambda>s. Q4 s s)"
  by (simp_all add: fun_eq_iff wp)

lemma wp_mono: "wp m R s \<Longrightarrow> (\<And>a s'. R a s' \<Longrightarrow> Q a s') \<Longrightarrow> wp m Q s"
  by (simp add: wp_def split: prod.splits)

lemma wp_conj: "wp m Q s \<Longrightarrow> wp m R s \<Longrightarrow> wp m (\<lambda>a s'. Q a s' \<and> R a s') s"
  by (simp add: wp_def split: prod.splits)

lemma wp_run: "wp m Q s \<longleftrightarrow> (\<forall>a s'. run_state m s = (a, s') \<longrightarrow> Q a s')"
  by (simp add: wp_def split: prod.splits)

lemma wp_trivial: "wp m (\<lambda>_ _. True) s"
  by (simp add: wp_def split: prod.splits)

section \<open>Traces\<close>

text \<open>The code only ever appends to the trace; \<open>extends A m\<close> says that what \<open>m\<close> appends, in any
  state, consists of events from \<open>A\<close>.\<close>

definition extends :: "(ev \<Rightarrow> bool) \<Rightarrow> ('m mach_scheme, 'a) state \<Rightarrow> bool" where
  "extends A m \<longleftrightarrow>
     (\<forall>s. wp m (\<lambda>_ s'. \<exists>es. trace s' = trace s @ es \<and> list_all A es) s)"

named_theorems exts \<open>introduction rules for extends\<close>

lemma extendsD:
  "extends A m \<Longrightarrow> run_state m s = (a, s') \<Longrightarrow> \<exists>es. trace s' = trace s @ es \<and> list_all A es"
  by (auto simp: extends_def wp_run)

lemma extends_ret [exts]: "extends A (ret x)"
  by (simp add: extends_def wp)

lemma extends_get [exts]: "extends A get_st"
  by (simp add: extends_def wp)

lemma extends_bind [exts]:
  assumes "extends A m" "\<And>a. extends A (f a)"
  shows "extends A (State_Monad.bind m f)"
  unfolding extends_def
proof
  fix s
  obtain a t where m: "run_state m s = (a, t)" by fastforce
  obtain b u where f: "run_state (f a) t = (b, u)" by fastforce
  have "\<exists>es. trace u = trace s @ es \<and> list_all A es"
    using extendsD [OF assms(1) m] extendsD [OF assms(2) f] by (metis append.assoc list_all_append)
  then show "wp (State_Monad.bind m f) (\<lambda>_ s'. \<exists>es. trace s' = trace s @ es \<and> list_all A es) s"
    by (simp add: wp_def m f)
qed

lemma extends_modify [exts]: "(\<And>s. trace (f s) = trace s) \<Longrightarrow> extends A (modify f)"
  by (simp add: extends_def wp)

lemma extends_emit [exts]: "A e \<Longrightarrow> extends A (emit e)"
  by (simp add: extends_def wp)

lemma extends_rdl [exts]: "(\<And>v. A (Read l v)) \<Longrightarrow> extends A (rdl E l)"
  by (simp add: extends_def wp)

lemma extends_wrl [exts]: "A (Write l v) \<Longrightarrow> extends A (wrl l v)"
  by (simp add: extends_def wp)

lemma extends_alloc [exts]: "(\<And>r. A (Alloc sz r)) \<Longrightarrow> extends A (dma_alloc_coherent E sz)"
  by (simp add: extends_def wp)

lemma extends_free [exts]: "A (Free sz dma) \<Longrightarrow> extends A (dma_free_coherent sz dma)"
  by (simp add: extends_def wp)

lemma extends_guarded [exts]: "(b \<Longrightarrow> extends A m) \<Longrightarrow> extends A (guarded b m)"
  by (cases b) (simp_all add: guarded_def exts)

lemma extends_if [exts]: "(b \<Longrightarrow> extends A m) \<Longrightarrow> (\<not> b \<Longrightarrow> extends A n) \<Longrightarrow> extends A (if b then m else n)"
  by simp

lemma extends_Let [exts]: "(\<And>y. y = x \<Longrightarrow> extends A (f y)) \<Longrightarrow> extends A (Let x f)"
  by simp

lemma extends_option [exts]:
  "(x = None \<Longrightarrow> extends A m) \<Longrightarrow> (\<And>y. x = Some y \<Longrightarrow> extends A (f y)) \<Longrightarrow>
   extends A (case x of None \<Rightarrow> m | Some y \<Rightarrow> f y)"
  by (simp split: option.splits)

lemma extends_sum [exts]:
  "(\<And>a. x = Inl a \<Longrightarrow> extends A (f a)) \<Longrightarrow> (\<And>b. x = Inr b \<Longrightarrow> extends A (g b)) \<Longrightarrow>
   extends A (case x of Inl a \<Rightarrow> f a | Inr b \<Rightarrow> g b)"
  by (simp split: sum.splits)

lemma extends_prod [exts]:
  "(\<And>a b. x = (a, b) \<Longrightarrow> extends A (f a b)) \<Longrightarrow> extends A (case x of (a, b) \<Rightarrow> f a b)"
  by (simp split: prod.splits)

lemma extends_mono: "extends A m \<Longrightarrow> (\<And>e. A e \<Longrightarrow> B e) \<Longrightarrow> extends B m"
  unfolding extends_def by (elim all_forward, erule wp_mono) (auto simp: list_all_iff)

lemma extends_seq_all [exts]: "(\<And>m. m \<in> set ms \<Longrightarrow> extends A m) \<Longrightarrow> extends A (seq_all ms)"
  by (induction ms) (auto intro!: exts)

text \<open>Invariants of the driver state: \<open>keeps I m\<close> says that \<open>m\<close> preserves \<open>I\<close>.\<close>

definition keeps :: "('s \<Rightarrow> bool) \<Rightarrow> ('s, 'a) state \<Rightarrow> bool" where
  "keeps I m \<longleftrightarrow> (\<forall>s. I s \<longrightarrow> wp m (\<lambda>_. I) s)"

named_theorems keep \<open>introduction rules for keeps\<close>

lemma keepsD: "keeps I m \<Longrightarrow> I s \<Longrightarrow> wp m (\<lambda>_. I) s"
  by (simp add: keeps_def)

lemma keeps_ret [keep]: "keeps I (ret x)"
  by (simp add: keeps_def wp)

lemma keeps_get [keep]: "keeps I get_st"
  by (simp add: keeps_def wp)

lemma keeps_bind [keep]: "keeps I m \<Longrightarrow> (\<And>a. keeps I (f a)) \<Longrightarrow> keeps I (State_Monad.bind m f)"
  unfolding keeps_def by (metis (no_types, lifting) wp_bind wp_mono)

lemma keeps_modify [keep]: "(\<And>s. I s \<Longrightarrow> I (f s)) \<Longrightarrow> keeps I (modify f)"
  by (simp add: keeps_def wp)

lemma keeps_guarded [keep]: "(b \<Longrightarrow> keeps I m) \<Longrightarrow> keeps I (guarded b m)"
  by (cases b) (simp_all add: guarded_def keep)

lemma keeps_if [keep]: "(b \<Longrightarrow> keeps I m) \<Longrightarrow> (\<not> b \<Longrightarrow> keeps I n) \<Longrightarrow> keeps I (if b then m else n)"
  by simp

lemma keeps_Let [keep]: "(\<And>y. y = x \<Longrightarrow> keeps I (f y)) \<Longrightarrow> keeps I (Let x f)"
  by simp

lemma keeps_option [keep]:
  "(x = None \<Longrightarrow> keeps I m) \<Longrightarrow> (\<And>y. x = Some y \<Longrightarrow> keeps I (f y)) \<Longrightarrow>
   keeps I (case x of None \<Rightarrow> m | Some y \<Rightarrow> f y)"
  by (simp split: option.splits)

lemma keeps_sum [keep]:
  "(\<And>a. x = Inl a \<Longrightarrow> keeps I (f a)) \<Longrightarrow> (\<And>b. x = Inr b \<Longrightarrow> keeps I (g b)) \<Longrightarrow>
   keeps I (case x of Inl a \<Rightarrow> f a | Inr b \<Rightarrow> g b)"
  by (simp split: sum.splits)

lemma keeps_prod [keep]:
  "(\<And>a b. x = (a, b) \<Longrightarrow> keeps I (f a b)) \<Longrightarrow> keeps I (case x of (a, b) \<Rightarrow> f a b)"
  by (simp split: prod.splits)

text \<open>The same with a promise about the result: \<open>gives I m V\<close>.\<close>

definition gives :: "('s \<Rightarrow> bool) \<Rightarrow> ('s, 'a) state \<Rightarrow> ('a \<Rightarrow> bool) \<Rightarrow> bool" where
  "gives I m V \<longleftrightarrow> (\<forall>s. I s \<longrightarrow> wp m (\<lambda>a s'. I s' \<and> V a) s)"

named_theorems give \<open>introduction rules for gives\<close>

lemma givesD: "gives I m V \<Longrightarrow> I s \<Longrightarrow> wp m (\<lambda>a s'. I s' \<and> V a) s"
  by (simp add: gives_def)

lemma gives_keeps: "gives I m V \<Longrightarrow> keeps I m"
  unfolding gives_def keeps_def by (blast intro: wp_mono)

lemma keeps_gives: "keeps I m \<Longrightarrow> gives I m (\<lambda>_. True)"
  by (simp add: gives_def keeps_def)

lemma gives_ret [give]: "V x \<Longrightarrow> gives I (ret x) V"
  by (simp add: gives_def wp)

lemma gives_bind:
  "gives I m V \<Longrightarrow> (\<And>a. V a \<Longrightarrow> gives I (f a) W) \<Longrightarrow> gives I (State_Monad.bind m f) W"
  unfolding gives_def wp_bind by (blast intro: wp_mono)

lemma gives_keep_bind [give]:
  "keeps I m \<Longrightarrow> (\<And>a. gives I (f a) W) \<Longrightarrow> gives I (State_Monad.bind m f) W"
  by (rule gives_bind [OF keeps_gives])

lemma gives_if [give]:
  "(b \<Longrightarrow> gives I m V) \<Longrightarrow> (\<not> b \<Longrightarrow> gives I n V) \<Longrightarrow> gives I (if b then m else n) V"
  by simp

lemma gives_Let [give]: "(\<And>y. y = x \<Longrightarrow> gives I (f y) V) \<Longrightarrow> gives I (Let x f) V"
  by simp

lemma gives_option [give]:
  "(x = None \<Longrightarrow> gives I m V) \<Longrightarrow> (\<And>y. x = Some y \<Longrightarrow> gives I (f y) V) \<Longrightarrow>
   gives I (case x of None \<Rightarrow> m | Some y \<Rightarrow> f y) V"
  by (simp split: option.splits)

lemma gives_sum [give]:
  "(\<And>a. x = Inl a \<Longrightarrow> gives I (f a) V) \<Longrightarrow> (\<And>b. x = Inr b \<Longrightarrow> gives I (g b) V) \<Longrightarrow>
   gives I (case x of Inl a \<Rightarrow> f a | Inr b \<Rightarrow> g b) V"
  by (simp split: sum.splits)

lemma gives_prod [give]:
  "(\<And>a b. x = (a, b) \<Longrightarrow> gives I (f a b) V) \<Longrightarrow> gives I (case x of (a, b) \<Rightarrow> f a b) V"
  by (simp split: prod.splits)

text \<open>Growth of the trace from \<open>tr\<close> by events of \<open>A\<close> is such an invariant.\<close>

definition grown :: "trace \<Rightarrow> (ev \<Rightarrow> bool) \<Rightarrow> 'm mach_scheme \<Rightarrow> bool" where
  "grown tr A s \<longleftrightarrow> (\<exists>es. trace s = tr @ es \<and> list_all A es)"

lemma grown_refl [simp]: "grown (trace s) A s"
  by (simp add: grown_def)

lemma grown_snoc: "grown tr A s \<Longrightarrow> trace s' = trace s @ [e] \<Longrightarrow> A e \<Longrightarrow> grown tr A s'"
  by (auto simp: grown_def)

lemma grown_trans: "grown tr A s \<Longrightarrow> grown (trace s) A s' \<Longrightarrow> grown tr A s'"
  by (auto simp: grown_def)

lemma extends_grown: "extends A m \<Longrightarrow> keeps (grown tr A) m"
  unfolding keeps_def
proof (intro allI impI)
  fix s :: "'a mach_scheme"
  assume e: "extends A m" and g: "grown tr A s"
  from e have "wp m (\<lambda>_ s'. \<exists>es. trace s' = trace s @ es \<and> list_all A es) s"
    by (simp add: extends_def)
  then show "wp m (\<lambda>_. grown tr A) s"
    by (rule wp_mono) (use g grown_trans in \<open>auto simp: grown_def\<close>)
qed

lemma keeps_grown [keep]:
  "A e \<Longrightarrow> keeps (grown tr A) (emit e)"
  "(\<And>v. A (Read l v)) \<Longrightarrow> keeps (grown tr A) (rdl E l)"
  "A (Write l v) \<Longrightarrow> keeps (grown tr A) (wrl l v)"
  "(\<And>r. A (Alloc sz r)) \<Longrightarrow> keeps (grown tr A) (dma_alloc_coherent E sz)"
  "A (Free sz d) \<Longrightarrow> keeps (grown tr A) (dma_free_coherent sz d)"
  by (auto intro!: extends_grown exts)

lemma keeps_grown_modify [keep]:
  "(\<And>s. trace (f s) = trace s) \<Longrightarrow> keeps (grown tr A) (modify f)"
  by (auto intro!: extends_grown exts)


section \<open>Trace grammars\<close>

text \<open>
  A predicate on traces that holds of the empty trace and is closed under concatenation describes
  what a piece of code may append.  \<open>follows I L m\<close>: from a state with \<open>I\<close>, \<open>m\<close> appends a trace
  in \<open>L\<close> and keeps \<open>I\<close>.
\<close>

definition follows :: "('m mach_scheme \<Rightarrow> bool) \<Rightarrow> (trace \<Rightarrow> bool) \<Rightarrow> ('m mach_scheme, 'a) state \<Rightarrow> bool" where
  "follows I L m \<longleftrightarrow>
     (\<forall>s. I s \<longrightarrow> wp m (\<lambda>_ s'. I s' \<and> (\<exists>es. trace s' = trace s @ es \<and> L es)) s)"

lemma followsD:
  "follows I L m \<Longrightarrow> I s \<Longrightarrow> wp m (\<lambda>_ s'. I s' \<and> (\<exists>es. trace s' = trace s @ es \<and> L es)) s"
  by (simp add: follows_def)

named_theorems foll \<open>introduction rules for follows\<close>

lemma follows_if [foll]:
  "(b \<Longrightarrow> follows I L m) \<Longrightarrow> (\<not> b \<Longrightarrow> follows I L n) \<Longrightarrow> follows I L (if b then m else n)"
  by simp

lemma follows_Let [foll]: "(\<And>y. y = x \<Longrightarrow> follows I L (f y)) \<Longrightarrow> follows I L (Let x f)"
  by simp

lemma follows_option [foll]:
  "(x = None \<Longrightarrow> follows I L m) \<Longrightarrow> (\<And>y. x = Some y \<Longrightarrow> follows I L (f y)) \<Longrightarrow>
   follows I L (case x of None \<Rightarrow> m | Some y \<Rightarrow> f y)"
  by (simp split: option.splits)

lemma follows_prod [foll]:
  "(\<And>a b. x = (a, b) \<Longrightarrow> follows I L (f a b)) \<Longrightarrow> follows I L (case x of (a, b) \<Rightarrow> f a b)"
  by (simp split: prod.splits)

locale trace_grammar =
  fixes L :: "trace \<Rightarrow> bool"
  assumes nil: "L []"
    and app: "L xs \<Longrightarrow> L ys \<Longrightarrow> L (xs @ ys)"
begin

lemma ret: "follows I L (ret x)"
  by (simp add: follows_def wp nil)

lemma get_bind: "(\<And>t. I t \<Longrightarrow> follows I L (f t)) \<Longrightarrow> follows I L (State_Monad.bind get_st f)"
  by (auto simp: follows_def wp)

lemma bind:
  assumes m: "follows I L m" and f: "\<And>a. follows I L (f a)"
  shows "follows I L (State_Monad.bind m f)"
  unfolding follows_def wp_bind
proof (intro allI impI)
  fix s assume "I s"
  then show "wp m (\<lambda>a. wp (f a) (\<lambda>_ s'. I s' \<and> (\<exists>es. trace s' = trace s @ es \<and> L es))) s"
  proof (rule wp_mono [OF followsD [OF m]])
    fix a s' assume h: "I s' \<and> (\<exists>es. trace s' = trace s @ es \<and> L es)"
    then show "wp (f a) (\<lambda>_ s''. I s'' \<and> (\<exists>es. trace s'' = trace s @ es \<and> L es)) s'"
      using app by (auto intro!: wp_mono [OF followsD [OF f]])
  qed
qed

lemma modify: "(\<And>s. I s \<Longrightarrow> I (f s)) \<Longrightarrow> (\<And>s. trace (f s) = trace s) \<Longrightarrow> follows I L (modify f)"
  by (auto simp: follows_def wp nil)

lemma guarded: "(b \<Longrightarrow> follows I L m) \<Longrightarrow> follows I L (guarded b m)"
  by (simp add: guarded_def ret)

lemma event:
  assumes "\<And>s tr. I s \<Longrightarrow> I (s\<lparr>trace := tr\<rparr>)"
  shows "L [e] \<Longrightarrow> follows I L (emit e)"
    and "L [Write l v] \<Longrightarrow> follows I L (wrl l v)"
    and "(\<And>v. L [Read l v]) \<Longrightarrow> follows I L (rdl E l)"
  using assms by (auto simp: follows_def wp)

lemma from_extends:
  assumes "extends A m" "keeps I m" "\<And>es. list_all A es \<Longrightarrow> L es"
  shows "follows I L m"
  unfolding follows_def
proof (intro allI impI)
  fix s assume "I s"
  have "wp m (\<lambda>_ s'. \<exists>es. trace s' = trace s @ es \<and> list_all A es) s"
    using assms(1) by (simp add: extends_def)
  from wp_conj [OF keepsD [OF assms(2) \<open>I s\<close>] this]
  show "wp m (\<lambda>_ s'. I s' \<and> (\<exists>es. trace s' = trace s @ es \<and> L es)) s"
    by (rule wp_mono) (use assms(3) in blast)
qed

end


end
