(* ===== verification/Ane_Legacy.thy ===== *)
theory Ane_Legacy
  imports Ane_Machine Ane_Progtab
begin

text \<open>
  The firmware transport of the M2 driver: the table of buffers the firmware asked for
  (\<^verbatim>\<open>ane_t6021_legtab.h\<close>), the classification of its allocation requests
  (\<^verbatim>\<open>ane_t6021_mring.h\<close>), the channel-table check of \<^verbatim>\<open>ane_t6021_boot.h\<close>,
  and from \<^verbatim>\<open>ane_t6021_rtclient_main.c\<close> the allocation service, the command exchange,
  the drain of the firmware-to-host rings and the completion wait.

  The IPC surface is memory the firmware writes at any time: every read of it is answered by the
  environment.  A pointer into the buffer table is the index of its entry; a NULL CPU pointer is
  address 0.
\<close>

section \<open>The buffer table\<close>

record legacy_buffer =
  bcpu :: u64
  bdma :: u64
  bsize :: u64

definition zero_buffer :: legacy_buffer where
  "zero_buffer = \<lparr>bcpu = 0, bdma = 0, bsize = 0\<rparr>"

definition ane_legtab_pick :: "nat \<Rightarrow> legacy_buffer list \<Rightarrow> nat \<Rightarrow> nat option" where
  "ane_legtab_pick cap t used =
     (case first_index (\<lambda>b. bcpu b = 0) (take used t) of
        Some i \<Rightarrow> Some i
      | None \<Rightarrow> if used < cap then Some used else None)"

text \<open>\<open>keep\<close> is the entry a free must never match, \<open>None\<close> for a NULL pointer.\<close>

fun legtab_find_from :: "nat \<Rightarrow> legacy_buffer list \<Rightarrow> u64 \<Rightarrow> nat option \<Rightarrow> nat option" where
  "legtab_find_from i [] d keep = None"
| "legtab_find_from i (b # bs) d keep =
     (if bcpu b \<noteq> 0 \<and> bdma b = d \<and> Some i \<noteq> keep then Some i
      else legtab_find_from (Suc i) bs d keep)"

definition ane_legtab_find :: "legacy_buffer list \<Rightarrow> nat \<Rightarrow> u64 \<Rightarrow> nat option \<Rightarrow> nat option" where
  "ane_legtab_find t used d keep = legtab_find_from 0 (take used t) d keep"

interpretation leg_slots: slot_table "\<lambda>b. bcpu b = 0" cap "ane_legtab_pick cap" for cap
proof
  fix used :: nat and t :: "legacy_buffer list" and i
  assume le: "used \<le> cap" "used \<le> length t"
  show "ane_legtab_pick cap t used = Some i \<Longrightarrow> i \<noteq> used \<Longrightarrow> i < used \<and> bcpu (t ! i) = 0"
    using le by (auto simp: ane_legtab_pick_def first_index_Some split: option.splits if_splits)
  show "ane_legtab_pick cap t used = Some used \<Longrightarrow> used < cap \<and> (\<forall>j<used. bcpu (t ! j) \<noteq> 0)"
    using le by (fastforce simp: ane_legtab_pick_def first_index_Some first_index_None in_set_conv_nth
        split: option.splits if_splits)
  show "ane_legtab_pick cap t used = None \<Longrightarrow> used = cap \<and> (\<forall>j<used. bcpu (t ! j) \<noteq> 0)"
    using le by (fastforce simp: ane_legtab_pick_def first_index_None in_set_conv_nth
        split: option.splits if_splits)
qed

lemma legtab_find_from_Some:
  "legtab_find_from n bs d keep = Some i \<Longrightarrow>
     n \<le> i \<and> i < n + length bs \<and> bcpu (bs ! (i - n)) \<noteq> 0 \<and> bdma (bs ! (i - n)) = d \<and> Some i \<noteq> keep"
  by (induction n bs d keep rule: legtab_find_from.induct)
     (auto simp: nth_Cons' Suc_diff_le split: if_splits)

lemma legtab_find_Some:
  assumes "ane_legtab_find t used d keep = Some i"
  shows "i < used" "i < length t" "bcpu (t ! i) \<noteq> 0" "bdma (t ! i) = d" "keep \<noteq> Some i"
  using legtab_find_from_Some assms by (fastforce simp: ane_legtab_find_def)+

section \<open>Requests of the firmware\<close>

datatype mring_kind = MRING_IDLE | MRING_MALLOC | MRING_FREE | MRING_ANSWERED | MRING_BAD

definition ane_t6021_mring_classify :: "u64 \<Rightarrow> u64 \<Rightarrow> u64 \<Rightarrow> mring_kind" where
  "ane_t6021_mring_classify hdr sz mode =
     (if hdr AND 1 \<noteq> 0 then MRING_ANSWERED
      else if hdr = 0 then
        if sz = 0 then MRING_IDLE
        else if mode > 0xffffffff then MRING_BAD else MRING_MALLOC
      else if sz \<noteq> 0 \<or> mode \<noteq> 0 then MRING_BAD else MRING_FREE)"

section \<open>The channel table\<close>

record chman_desc =
  cd_name :: "u8 list"     \<comment> \<open>the 64 bytes of the name field\<close>
  cd_type :: u32
  cd_bit :: u32
  cd_size :: u64
  cd_ring :: u64

record chman_static =
  cs_name :: string
  cs_type :: u32
  cs_bit :: nat
  cs_size :: nat
  cs_off :: nat

definition ANE_T6021_CHMAN_COUNT :: nat where "ANE_T6021_CHMAN_COUNT = 8"
definition ANE_T6021_CHMAN_TOTAL :: u64 where "ANE_T6021_CHMAN_TOTAL = 0x10440"
definition ANE_T6021_CHMAN_NAME_LEN :: nat where "ANE_T6021_CHMAN_NAME_LEN = 64"

definition chman_static_of :: "string \<Rightarrow> u32 \<Rightarrow> nat \<Rightarrow> nat \<Rightarrow> nat \<Rightarrow> chman_static" where
  "chman_static_of n t b z f = \<lparr>cs_name = n, cs_type = t, cs_bit = b, cs_size = z, cs_off = f\<rparr>"

definition ane_t6021_chman_layout :: "chman_static list" where
  "ane_t6021_chman_layout =
    [chman_static_of ''TERMINAL'' 2 0 0x300 0x0800,
     chman_static_of ''IO'' 0 1 0x010 0xc800,
     chman_static_of ''DEBUG'' 0 2 0x008 0xcc00,
     chman_static_of ''BUF_H2T'' 0 3 0x040 0xce00,
     chman_static_of ''BUF_T2H'' 1 4 0x040 0xde00,
     chman_static_of ''SHAREDMALLOC'' 1 5 0x008 0xee00,
     chman_static_of ''IO_T2H'' 1 6 0x040 0xf000,
     chman_static_of ''DATA_CHAIN_H2T'' 0 7 0x010 0x10000]"

text \<open>\<^verbatim>\<open>!strncmp(a, s, n)\<close>: equal up to the first NUL or to \<^verbatim>\<open>n\<close> bytes.
  The second string is a literal, with its terminating NUL.\<close>

fun strncmp_eq :: "u8 list \<Rightarrow> u8 list \<Rightarrow> nat \<Rightarrow> bool" where
  "strncmp_eq [] b n = (n = 0)"
| "strncmp_eq (x # a) b n =
     (n = 0 \<or> (case b of [] \<Rightarrow> False | y # b' \<Rightarrow> x = y \<and> (x = 0 \<or> strncmp_eq a b' (n - 1))))"

definition c_string :: "string \<Rightarrow> u8 list" where
  "c_string s = map (\<lambda>c. of_nat (of_char c)) s @ [0]"

definition ane_t6021_chman_entry_ok :: "chman_desc \<Rightarrow> nat \<Rightarrow> u64 \<Rightarrow> bool" where
  "ane_t6021_chman_entry_ok d i dva =
     (let s = ane_t6021_chman_layout ! i in
      strncmp_eq (cd_name d) (c_string (cs_name s)) ANE_T6021_CHMAN_NAME_LEN \<and>
      cd_type d = cs_type s \<and> cd_bit d = of_nat (cs_bit s) \<and> cd_size d = of_nat (cs_size s) \<and>
      cd_ring d = dva + of_nat (cs_off s))"

text \<open>The bitmask of mismatching entries.\<close>

definition ane_t6021_chman_check :: "chman_desc list \<Rightarrow> u64 \<Rightarrow> u32" where
  "ane_t6021_chman_check t dva =
     foldl (\<lambda>bad i. if ane_t6021_chman_entry_ok (t ! i) i dva then bad else bad OR push_bit i 1) 0
       [0..<ANE_T6021_CHMAN_COUNT]"

section \<open>Driver state\<close>

definition ANE_LEGACY_ALLOCS :: nat where "ANE_LEGACY_ALLOCS = 8192"
definition ANE_LEGACY_BYTES :: u64 where "ANE_LEGACY_BYTES = 0x20000000"
definition ANE_IPI_OFF :: nat where "ANE_IPI_OFF = 0x1844000"

record fw_env = env +
  chman_table :: "trace \<Rightarrow> chman_desc list"   \<comment> \<open>the table the firmware published\<close>

record rtc = mach +
  legacy_buffers :: "legacy_buffer list"
  legacy_last :: nat
  legacy_allocated :: nat
  legacy_bytes :: u64
  legacy_malloc_cursor :: nat
  legacy_cmd_cursor :: "nat list"
  cmd_buf :: "nat option"
  held :: bool
  chman_ok :: bool
  fw_present :: bool            \<comment> \<open>\<^verbatim>\<open>ane->fw\<close> is set\<close>
  boot_ipc :: bool              \<comment> \<open>the IPC surface exists\<close>
  boot_ipc_cpu :: u64
  boot_ipc_iova :: u64
  boot_ipc_size :: u64
  fw_alias_iova :: u64
  fw_size :: u32
  quarantined :: bool

text \<open>The check every DMA allocation site applies to its range.\<close>

definition ane_t6021_fw_alias_iova_ok :: "'m rtc_scheme \<Rightarrow> u64 \<Rightarrow> u64 \<Rightarrow> bool" where
  "ane_t6021_fw_alias_iova_ok a iova sz =
     (if fw_alias_iova a = 0 then True
      else iova + sz \<le> fw_alias_iova a \<or> iova \<ge> fw_alias_iova a + ucast (fw_size a))"

definition is_aligned_16k :: "u64 \<Rightarrow> bool" where
  "is_aligned_16k v \<longleftrightarrow> v AND 0x3fff = 0"

definition ane_rtclient_legacy_alloc ::
  "'e fw_env_scheme \<Rightarrow> u64 \<Rightarrow> ('m rtc_scheme, errno option) state" where
  "ane_rtclient_legacy_alloc E sz = do {
     ane \<leftarrow> get_st;
     if sz = 0 \<or> \<not> is_aligned_16k sz \<or> sz > 0x200000 \<or> sz > ANE_LEGACY_BYTES - legacy_bytes ane
     then ret (Some E2BIG)
     else (case ane_legtab_pick ANE_LEGACY_ALLOCS (legacy_buffers ane) (legacy_allocated ane) of
         None \<Rightarrow> ret (Some E2BIG)
       | Some slot \<Rightarrow> do {
           r \<leftarrow> dma_alloc_coherent E sz;
           case r of
             None \<Rightarrow> do {
               modify (\<lambda>ane. ane\<lparr>legacy_buffers :=
                 (legacy_buffers ane)[slot := (legacy_buffers ane ! slot)\<lparr>bcpu := 0\<rparr>]\<rparr>);
               ret (Some ENOMEM) }
           | Some (cpu, dma) \<Rightarrow>
               if \<not> is_aligned_16k dma \<or>
                  (fw_present ane \<and> \<not> ane_t6021_fw_alias_iova_ok ane dma sz)
               then do {
                 dma_free_coherent sz dma;
                 modify (\<lambda>ane. ane\<lparr>legacy_buffers :=
                   (legacy_buffers ane)[slot := (legacy_buffers ane ! slot)\<lparr>bcpu := 0, bdma := dma\<rparr>]\<rparr>);
                 ret (Some ERANGE) }
               else do {
                 modify (\<lambda>ane. ane\<lparr>
                   legacy_buffers := (legacy_buffers ane)[slot := \<lparr>bcpu = cpu, bdma = dma, bsize = sz\<rparr>],
                   legacy_bytes := legacy_bytes ane + sz,
                   legacy_allocated := (if slot = legacy_allocated ane
                                        then legacy_allocated ane + 1 else legacy_allocated ane),
                   legacy_last := slot\<rparr>);
                 ret None }
         })
   }"

text \<open>Address of word \<open>k\<close> of slot \<open>i\<close> on channel \<open>ch\<close>.\<close>

definition slot_word :: "nat \<Rightarrow> nat \<Rightarrow> nat \<Rightarrow> loc" where
  "slot_word ch i k = Ipc (cs_off (ane_t6021_chman_layout ! ch) + i * 64 + k * 8)"

definition doorbell :: "nat \<Rightarrow> ('m mach_scheme, unit) state" where
  "doorbell b = wrl (Eng ANE_IPI_OFF) (push_bit b 1)"

definition next_slot :: "nat \<Rightarrow> nat \<Rightarrow> nat" where
  "next_slot ch i = (i + 1) mod cs_size (ane_t6021_chman_layout ! ch)"

text \<open>The answer to a request: both body words, a barrier, the header, a barrier, the doorbell.\<close>

definition service_answer :: "nat \<Rightarrow> u64 \<Rightarrow> u64 \<Rightarrow> ('m mach_scheme, unit) state" where
  "service_answer cursor tag hdr = do {
     wrl (slot_word 5 cursor 1) 0;
     wrl (slot_word 5 cursor 2) tag;
     emit Barrier;
     wrl (slot_word 5 cursor 0) hdr;
     emit Barrier;
     doorbell 5 }"

text \<open>The release of the buffer the firmware gave back, in the FREE case.\<close>

definition legacy_give_back :: "u64 \<Rightarrow> ('m rtc_scheme, unit) state" where
  "legacy_give_back hdr = do {
     ane \<leftarrow> get_st;
     case ane_legtab_find (legacy_buffers ane) (legacy_allocated ane) hdr (cmd_buf ane) of
       None \<Rightarrow> ret ()
     | Some i \<Rightarrow> do {
         let fb = legacy_buffers ane ! i;
         dma_free_coherent (bsize fb) (bdma fb);
         modify (\<lambda>ane. ane\<lparr>legacy_bytes := legacy_bytes ane - bsize fb,
                           legacy_buffers := (legacy_buffers ane)[i := zero_buffer]\<rparr>) } }"

text \<open>The two kinds of request the service answers.\<close>

definition service_malloc ::
  "'e fw_env_scheme \<Rightarrow> u64 \<Rightarrow> nat \<Rightarrow> ('m rtc_scheme, (errno + bool) \<times> nat) state" where
  "service_malloc E sz cursor = do {
     r \<leftarrow> ane_rtclient_legacy_alloc E sz;
     case r of
       Some e \<Rightarrow> ret (Inl ENOMEM, cursor)
     | None \<Rightarrow> do {
         ane \<leftarrow> get_st;
         service_answer cursor (of_nat (legacy_last ane) + 1)
           (bdma (legacy_buffers ane ! legacy_last ane) OR 1);
         ret (Inr True, next_slot 5 cursor) } }"

definition service_free :: "u64 \<Rightarrow> nat \<Rightarrow> ('m rtc_scheme, (errno + bool) \<times> nat) state" where
  "service_free hdr cursor = do {
     service_answer cursor 0 1;
     legacy_give_back hdr;
     ret (Inr True, next_slot 5 cursor) }"

text \<open>The service returns whether a request was answered, or an errno, and the cursor.\<close>

definition ane_rtclient_malloc_service ::
  "'e fw_env_scheme \<Rightarrow> nat \<Rightarrow> ('m rtc_scheme, (errno + bool) \<times> nat) state" where
  "ane_rtclient_malloc_service E cursor = do {
     hdr \<leftarrow> rdl E (slot_word 5 cursor 0);
     if hdr AND 1 \<noteq> 0 then ret (Inr False, cursor)
     else do {
       emit Barrier;
       sz \<leftarrow> rdl E (slot_word 5 cursor 1);
       mode \<leftarrow> rdl E (slot_word 5 cursor 2);
       case ane_t6021_mring_classify hdr sz mode of
         MRING_MALLOC \<Rightarrow> service_malloc E sz cursor
       | MRING_FREE \<Rightarrow> service_free hdr cursor
       | MRING_IDLE \<Rightarrow> ret (Inr False, cursor)
       | MRING_ANSWERED \<Rightarrow> ret (Inr False, cursor)
       | MRING_BAD \<Rightarrow> ret (Inl EOPNOTSUPP, cursor)
     }
   }"

text \<open>\<^verbatim>\<open>ane_rtclient_malloc_settle\<close>: polls until the ring answered or stayed quiet for the
  window, which every answer restarts; more than 64 answers are \<^verbatim>\<open>-EBUSY\<close>.\<close>

primrec settle_window ::
  "'e fw_env_scheme \<Rightarrow> nat \<Rightarrow> nat \<Rightarrow> ('m rtc_scheme, (errno + bool) \<times> nat) state" where
  "settle_window E 0 cursor = ret (Inr False, cursor)"
| "settle_window E (Suc n) cursor = do {
     (r, cursor') \<leftarrow> ane_rtclient_malloc_service E cursor;
     case r of
       Inl e \<Rightarrow> ret (Inl e, cursor')
     | Inr served \<Rightarrow>
         if served then ret (Inr True, cursor')
         else do { emit Sleep; settle_window E n cursor' } }"

primrec settle_loop ::
  "'e fw_env_scheme \<Rightarrow> nat \<Rightarrow> nat \<Rightarrow> ('m rtc_scheme, errno option \<times> nat) state" where
  "settle_loop E 0 cursor = do {
     ane \<leftarrow> get_st;
     (r, cursor') \<leftarrow> settle_window E (polls E (trace ane)) cursor;
     case r of Inl e \<Rightarrow> ret (Some e, cursor')
     | Inr served \<Rightarrow> ret (if served then Some EBUSY else None, cursor') }"
| "settle_loop E (Suc left) cursor = do {
     ane \<leftarrow> get_st;
     (r, cursor') \<leftarrow> settle_window E (polls E (trace ane)) cursor;
     case r of Inl e \<Rightarrow> ret (Some e, cursor')
     | Inr served \<Rightarrow> if served then settle_loop E left cursor' else ret (None, cursor') }"

definition ane_rtclient_malloc_settle :: "'e fw_env_scheme \<Rightarrow> ('m rtc_scheme, errno option) state" where
  "ane_rtclient_malloc_settle E = do {
     ane \<leftarrow> get_st;
     (r, cursor) \<leftarrow> settle_loop E 64 (legacy_malloc_cursor ane);
     modify (\<lambda>ane. ane\<lparr>legacy_malloc_cursor := cursor\<rparr>);
     ret r }"

section \<open>Command exchange\<close>

primrec serve_pending ::
  "'e fw_env_scheme \<Rightarrow> nat \<Rightarrow> nat \<Rightarrow> ('m rtc_scheme, errno option \<times> nat) state" where
  "serve_pending E 0 cursor = ret (None, cursor)"
| "serve_pending E (Suc n) cursor = do {
     (r, cursor') \<leftarrow> ane_rtclient_malloc_service E cursor;
     case r of
       Inl e \<Rightarrow> ret (Some e, cursor')
     | Inr served \<Rightarrow> if served then serve_pending E n cursor' else ret (None, cursor') }"

text \<open>One turn of the completion poll: the doorbells of the firmware are acknowledged, its
  allocation ring is served while the slot is still the firmware's, and the slot is read again.
  \<open>Inl\<close> is an error, \<open>Inr h\<close> the header seen last.\<close>

definition exchange_turn ::
  "'e fw_env_scheme \<Rightarrow> nat \<Rightarrow> nat \<Rightarrow> nat \<Rightarrow> ('m rtc_scheme, (errno + u64) \<times> nat) state" where
  "exchange_turn E ch io cursor = do {
     pending \<leftarrow> rdl E (Eng (ANE_IPI_OFF + 0x8000));
     guarded (pending \<noteq> 0) (do { wrl (Eng (ANE_IPI_OFF + 0xc000)) pending; emit Barrier });
     header \<leftarrow> rdl E (slot_word ch io 0);
     (r, cursor') \<leftarrow> (if header AND 1 = 0 then ane_rtclient_malloc_service E cursor
                      else ret (Inr False, cursor));
     case r of
       Inl e \<Rightarrow> ret (Inl e, cursor')
     | Inr _ \<Rightarrow> do { header \<leftarrow> rdl E (slot_word ch io 0); ret (Inr header, cursor') } }"

primrec exchange_poll ::
  "'e fw_env_scheme \<Rightarrow> u64 \<Rightarrow> u64 \<Rightarrow> u16 \<Rightarrow> nat \<Rightarrow> nat \<Rightarrow> nat \<Rightarrow> nat \<Rightarrow>
     ('m rtc_scheme, errno option \<times> nat) state" where
  "exchange_poll E dma len opcode ch io 0 cursor = do {
     _ \<leftarrow> rdl E (slot_word ch io 0);
     ret (Some ETIMEDOUT, cursor) }"
| "exchange_poll E dma len opcode ch io (Suc n) cursor = do {
     (r, cursor') \<leftarrow> exchange_turn E ch io cursor;
     case r of
       Inl e \<Rightarrow> ret (Some e, cursor')
     | Inr header \<Rightarrow>
         if header AND 1 \<noteq> 0 then do {
           emit Barrier;
           l1 \<leftarrow> rdl E (slot_word ch io 1);
           l2 \<leftarrow> rdl E (slot_word ch io 2);
           op \<leftarrow> rdl E (Cmd 4);
           st \<leftarrow> rdl E (Cmd 6);
           modify (\<lambda>ane. ane\<lparr>legacy_cmd_cursor := (legacy_cmd_cursor ane)[ch := next_slot ch io]\<rparr>);
           ret (if header = dma OR 1 \<and> l1 = len \<and> l2 = 0 \<and> op = ucast opcode \<and> st = 0
                then None else Some EPROTO, cursor') }
         else do { emit Sleep; exchange_poll E dma len opcode ch io n cursor' } }"

text \<open>Publication of the command at DMA address \<open>dma\<close> in slot \<open>io\<close>, and the wait.\<close>

definition exchange_send ::
  "'e fw_env_scheme \<Rightarrow> u64 \<Rightarrow> u64 \<Rightarrow> u16 \<Rightarrow> nat \<Rightarrow> nat \<Rightarrow> nat \<Rightarrow>
     ('m rtc_scheme, errno option \<times> nat) state" where
  "exchange_send E dma len opcode ch io cursor = do {
     wrl (Cmd 4) (ucast opcode);
     wrl (slot_word ch io 1) len;
     wrl (slot_word ch io 2) len;
     emit Barrier;
     wrl (slot_word ch io 0) dma;
     emit Barrier;
     doorbell (cs_bit (ane_t6021_chman_layout ! ch));
     ane \<leftarrow> get_st;
     exchange_poll E dma len opcode ch io (polls E (trace ane)) cursor }"

definition exchange_io ::
  "'e fw_env_scheme \<Rightarrow> legacy_buffer \<Rightarrow> u64 \<Rightarrow> u16 \<Rightarrow> nat \<Rightarrow> nat \<Rightarrow> nat \<Rightarrow>
     ('m rtc_scheme, errno option \<times> nat) state" where
  "exchange_io E buf len opcode ch io cursor =
     (if len < 8 \<or> len > bsize buf \<or> ch \<ge> ANE_T6021_CHMAN_COUNT then ret (Some EINVAL, cursor)
      else do {
        h \<leftarrow> rdl E (slot_word ch io 0);
        if h AND 1 = 0 then ret (Some EBUSY, cursor)
        else do {
          (r, cursor') \<leftarrow> serve_pending E (cs_size (ane_t6021_chman_layout ! 5)) cursor;
          case r of
            Some e \<Rightarrow> ret (Some e, cursor')
          | None \<Rightarrow> exchange_send E (bdma buf) len opcode ch io cursor' } })"

text \<open>\<open>command\<close> is the entry of the buffer table that holds the command.\<close>

definition ane_rtclient_legacy_exchange ::
  "'e fw_env_scheme \<Rightarrow> nat \<Rightarrow> u64 \<Rightarrow> u16 \<Rightarrow> nat \<Rightarrow> ('m rtc_scheme, errno option) state" where
  "ane_rtclient_legacy_exchange E command len opcode ch = do {
     ane \<leftarrow> get_st;
     if \<not> held ane \<or> \<not> chman_ok ane \<or>
        ane_t6021_chman_check (chman_table E (trace ane)) (boot_ipc_iova ane) \<noteq> 0
     then ret (Some EPROTO)
     else do {
       (r, cursor) \<leftarrow> exchange_io E (legacy_buffers ane ! command) len opcode ch
                        (legacy_cmd_cursor ane ! ch) (legacy_malloc_cursor ane);
       modify (\<lambda>ane. ane\<lparr>legacy_malloc_cursor := cursor\<rparr>);
       ret r } }"

section \<open>The byte budget\<close>

definition buf_bytes :: "legacy_buffer \<Rightarrow> nat" where
  "buf_bytes b = (if bcpu b = 0 then 0 else unat (bsize b))"

definition leg_ok :: "legacy_buffer list \<Rightarrow> nat \<Rightarrow> u64 \<Rightarrow> nat option \<Rightarrow> bool" where
  "leg_ok t used bytes cmd \<longleftrightarrow>
     length t = ANE_LEGACY_ALLOCS \<and> used \<le> ANE_LEGACY_ALLOCS \<and>
     (\<forall>i<ANE_LEGACY_ALLOCS. used \<le> i \<longrightarrow> bcpu (t ! i) = 0) \<and>
     unat bytes = sum_list (map buf_bytes t) \<and> bytes \<le> ANE_LEGACY_BYTES \<and>
     (\<forall>k. cmd = Some k \<longrightarrow> k < ANE_LEGACY_ALLOCS \<and> bcpu (t ! k) \<noteq> 0)"

definition leg_inv :: "'m rtc_scheme \<Rightarrow> bool" where
  "leg_inv s \<longleftrightarrow> leg_ok (legacy_buffers s) (legacy_allocated s) (legacy_bytes s) (cmd_buf s)"

lemma leg_ok_free_slot:
  assumes "leg_ok t used bytes cmd" "i < ANE_LEGACY_ALLOCS" "bcpu (t ! i) = 0" "bcpu b = 0"
  shows "leg_ok (t[i := b]) used bytes cmd"
  using assms sum_list_update_nat [of i t buf_bytes b]
  by (auto simp: leg_ok_def nth_list_update buf_bytes_def)

lemma pick_slot:
  assumes "leg_ok t used bytes cmd" "ane_legtab_pick ANE_LEGACY_ALLOCS t used = Some i"
  shows "i < ANE_LEGACY_ALLOCS" "bcpu (t ! i) = 0" "i \<le> used"
proof -
  have le: "used \<le> ANE_LEGACY_ALLOCS" "used \<le> length t" using assms(1) by (auto simp: leg_ok_def)
  show lt: "i < ANE_LEGACY_ALLOCS" using leg_slots.pick_lt_cap [OF le assms(2)] .
  show "bcpu (t ! i) = 0" "i \<le> used"
    using leg_slots.pick_reuse [OF le assms(2)] assms(1) lt
    by (cases "i = used"; auto simp: leg_ok_def)+
qed

lemma leg_ok_store:
  assumes inv: "leg_ok t used bytes cmd" and i: "ane_legtab_pick ANE_LEGACY_ALLOCS t used = Some i"
    and fit: "bsize b \<le> ANE_LEGACY_BYTES - bytes" and cpu: "bcpu b \<noteq> 0"
  shows "leg_ok (t[i := b]) (if i = used then Suc used else used) (bytes + bsize b) cmd"
proof -
  note p = pick_slot [OF inv i]
  have le: "bytes \<le> ANE_LEGACY_BYTES" using inv by (simp add: leg_ok_def)
  then have u: "unat (bsize b) + unat bytes \<le> unat ANE_LEGACY_BYTES"
    using fit by (simp add: word_le_nat_alt unat_sub_exact)
  have add: "unat (bytes + bsize b) = unat bytes + unat (bsize b)"
    by (rule unat_add_exact) (use u in \<open>simp add: ANE_LEGACY_BYTES_def\<close>)
  have "sum_list (map buf_bytes (t[i := b])) = sum_list (map buf_bytes t) + unat (bsize b)"
    using sum_list_update_nat [of i t buf_bytes b] p inv cpu by (simp add: leg_ok_def buf_bytes_def)
  then show ?thesis
    using inv p cpu u by (auto simp: leg_ok_def add nth_list_update word_le_nat_alt)
qed

lemma leg_ok_release:
  assumes inv: "leg_ok t used bytes cmd" and i: "ane_legtab_find t used d cmd = Some i"
  shows "leg_ok (t[i := zero_buffer]) used (bytes - bsize (t ! i)) cmd"
proof -
  note f = legtab_find_Some [OF i]
  have sum: "sum_list (map buf_bytes (t[i := zero_buffer])) + unat (bsize (t ! i)) = sum_list (map buf_bytes t)"
    using sum_list_update_nat [OF f(2), of buf_bytes zero_buffer] f(3)
    by (simp add: buf_bytes_def zero_buffer_def)
  then have le: "bsize (t ! i) \<le> bytes" using inv by (simp add: leg_ok_def word_le_nat_alt)
  have bytes: "unat (bytes - bsize (t ! i)) = sum_list (map buf_bytes (t[i := zero_buffer]))"
    using sum inv by (simp add: leg_ok_def unat_sub_exact [OF le])
  moreover have "unat (bytes - bsize (t ! i)) \<le> unat ANE_LEGACY_BYTES"
    using inv sum unfolding bytes leg_ok_def word_le_nat_alt by linarith
  ultimately show ?thesis
    using inv f by (auto simp: leg_ok_def nth_list_update zero_buffer_def word_le_nat_alt)
qed

lemma keeps_machine [keep]:
  "keeps leg_inv (emit e)" "keeps leg_inv (rdl E l)" "keeps leg_inv (wrl l v)"
  "keeps leg_inv (dma_free_coherent sz d)" "keeps leg_inv (doorbell b)"
  by (simp_all add: keeps_def wp doorbell_def leg_inv_def)

lemma legacy_alloc_inv [keep]: "keeps leg_inv (ane_rtclient_legacy_alloc E sz)"
  unfolding keeps_def
proof (intro allI impI)
  fix s :: "'a rtc_scheme"
  assume "leg_inv s"
  then have inv: "leg_ok (legacy_buffers s) (legacy_allocated s) (legacy_bytes s) (cmd_buf s)"
    by (simp add: leg_inv_def)
  note p = pick_slot [OF inv] and fr = leg_ok_free_slot [OF inv]
  have st: "leg_ok ((legacy_buffers s)[i := \<lparr>bcpu = c, bdma = d, bsize = sz\<rparr>])
      (if i = legacy_allocated s then Suc (legacy_allocated s) else legacy_allocated s)
      (legacy_bytes s + sz) (cmd_buf s)"
    if "ane_legtab_pick ANE_LEGACY_ALLOCS (legacy_buffers s) (legacy_allocated s) = Some i"
      "sz \<le> ANE_LEGACY_BYTES - legacy_bytes s" "c \<noteq> 0" for i c d
    using leg_ok_store [OF inv that(1), of "\<lparr>bcpu = c, bdma = d, bsize = sz\<rparr>"] that by simp
  show "wp (ane_rtclient_legacy_alloc E sz) (\<lambda>_. leg_inv) s"
    using inv p fr st dma_result_nonnull [of E "trace s" sz]
    by (auto simp: ane_rtclient_legacy_alloc_def wp not_less leg_inv_def split: option.splits)
qed

lemma give_back_inv [keep]: "keeps leg_inv (legacy_give_back hdr)"
  unfolding keeps_def
proof (intro allI impI)
  fix s :: "'a rtc_scheme"
  assume "leg_inv s"
  then have inv: "leg_ok (legacy_buffers s) (legacy_allocated s) (legacy_bytes s) (cmd_buf s)"
    by (simp add: leg_inv_def)
  show "wp (legacy_give_back hdr) (\<lambda>_. leg_inv) s"
    using inv leg_ok_release [OF inv]
    by (simp add: legacy_give_back_def wp leg_inv_def split: option.splits)
qed

lemma keeps_modify_inv [keep]:
  "keeps leg_inv (modify (\<lambda>s. s\<lparr>legacy_malloc_cursor := c\<rparr>))"
  "keeps leg_inv (modify (\<lambda>s. s\<lparr>legacy_cmd_cursor := f s\<rparr>))"
  by (auto intro!: keeps_modify simp: leg_inv_def)

lemma service_inv [keep]: "keeps leg_inv (ane_rtclient_malloc_service E cursor)"
  unfolding ane_rtclient_malloc_service_def service_malloc_def service_free_def service_answer_def
  by (intro keep) (auto split: mring_kind.splits intro!: keep)

lemma settle_window_inv [keep]: "keeps leg_inv (settle_window E n cursor)"
  by (induction n arbitrary: cursor) (auto intro!: keep)

lemma settle_loop_inv [keep]: "keeps leg_inv (settle_loop E n cursor)"
  by (induction n arbitrary: cursor) (auto intro!: keep)

lemma settle_inv [keep]: "keeps leg_inv (ane_rtclient_malloc_settle E)"
  unfolding ane_rtclient_malloc_settle_def by (intro keep)

lemma serve_pending_inv [keep]: "keeps leg_inv (serve_pending E n cursor)"
  by (induction n arbitrary: cursor) (auto intro!: keep)

lemma exchange_turn_inv [keep]: "keeps leg_inv (exchange_turn E ch io cursor)"
  unfolding exchange_turn_def by (intro keep)

lemma exchange_poll_inv [keep]: "keeps leg_inv (exchange_poll E dma len opcode ch io n cursor)"
  by (induction n arbitrary: cursor) (auto intro!: keep)

lemma exchange_inv [keep]: "keeps leg_inv (ane_rtclient_legacy_exchange E command len opcode ch)"
  unfolding ane_rtclient_legacy_exchange_def exchange_io_def exchange_send_def by (intro keep)


section \<open>What the transport writes\<close>

text \<open>Events of the allocation service and of the doorbell acknowledgement: writes go to the
  SHAREDMALLOC ring, to the doorbell and to its acknowledgement only.\<close>

fun svc_ev :: "ev \<Rightarrow> bool" where
  "svc_ev (Write (Ipc a) v) = (0xee00 \<le> a \<and> a < 0xf000)"
| "svc_ev (Write (Eng a) v) = (a = ANE_IPI_OFF \<or> a = ANE_IPI_OFF + 0xc000)"
| "svc_ev (Write _ v) = False"
| "svc_ev _ = True"

definition quiet :: "trace \<Rightarrow> nat list \<Rightarrow> 'm rtc_scheme \<Rightarrow> bool" where
  "quiet tr cs s \<longleftrightarrow> grown tr svc_ev s \<and> legacy_cmd_cursor s = cs"

lemma keeps_quiet [keep]:
  "svc_ev e \<Longrightarrow> keeps (quiet tr cs) (emit e)"
  "keeps (quiet tr cs) (rdl E l)"
  "svc_ev (Write l v) \<Longrightarrow> keeps (quiet tr cs) (wrl l v)"
  "keeps (quiet tr cs) (dma_alloc_coherent E sz)"
  "keeps (quiet tr cs) (dma_free_coherent sz d)"
  "keeps (quiet tr cs) (doorbell b)"
  "(\<And>s. trace (f s) = trace s) \<Longrightarrow> (\<And>s. legacy_cmd_cursor (f s) = legacy_cmd_cursor s) \<Longrightarrow>
     keeps (quiet tr cs) (modify f)"
  by (auto simp: keeps_def wp quiet_def doorbell_def grown_def)

lemma layout5: "cs_off (ane_t6021_chman_layout ! 5) = 0xee00" "cs_size (ane_t6021_chman_layout ! 5) = 8"
  by (simp_all add: ane_t6021_chman_layout_def chman_static_of_def)

lemma next_slot5: "next_slot 5 c < 8"
  by (simp add: next_slot_def layout5)

lemma svc_slot: "c < 8 \<Longrightarrow> k < 3 \<Longrightarrow> svc_ev (Write (slot_word 5 c k) v)"
  by (simp add: slot_word_def layout5)

lemma alloc_quiet [keep]: "keeps (quiet tr cs) (ane_rtclient_legacy_alloc E sz)"
  unfolding ane_rtclient_legacy_alloc_def by (intro keep) simp_all

lemma give_back_quiet [keep]: "keeps (quiet tr cs) (legacy_give_back hdr)"
  unfolding legacy_give_back_def by (intro keep) simp_all

lemma service_quiet:
  "c < 8 \<Longrightarrow> gives (quiet tr cs) (ane_rtclient_malloc_service E c) (\<lambda>(r, c'). c' < 8 \<and> r \<noteq> Inl ETIMEDOUT)"
  unfolding ane_rtclient_malloc_service_def service_malloc_def service_free_def service_answer_def
  by (intro give keep) (auto split: mring_kind.splits intro!: give keep svc_slot simp: next_slot5)

lemma serve_pending_quiet:
  "c < 8 \<Longrightarrow> gives (quiet tr cs) (serve_pending E n c) (\<lambda>(r, c'). c' < 8 \<and> r \<noteq> Some ETIMEDOUT)"
proof (induction n arbitrary: c)
  case 0
  then show ?case by (auto intro!: give)
next
  case (Suc n)
  show ?case unfolding serve_pending.simps
    by (rule gives_bind [OF service_quiet [OF Suc.prems]]) (auto intro!: give Suc.IH)
qed

text \<open>A value the environment returns for a location at some point after \<open>tr\<close>.\<close>

definition answered :: "'e env_scheme \<Rightarrow> trace \<Rightarrow> loc \<Rightarrow> u64 \<Rightarrow> bool" where
  "answered E tr l v \<longleftrightarrow> (\<exists>es. rd E (tr @ es) l = v)"

lemma rdl_answered: "gives (quiet tr cs) (rdl E l) (answered E tr l)"
  by (auto simp: gives_def wp quiet_def answered_def grown_def)

lemma turn_quiet:
  assumes "c < 8"
  shows "gives (quiet tr cs) (exchange_turn E ch io c)
      (\<lambda>(r, c'). c' < 8 \<and> r \<noteq> Inl ETIMEDOUT \<and> (\<forall>h. r = Inr h \<longrightarrow> answered E tr (slot_word ch io 0) h))"
  unfolding exchange_turn_def
  apply (rule gives_keep_bind [OF keeps_quiet(2)])
  apply (rule gives_keep_bind)
   apply (auto intro!: keep) [1]
  apply (rule gives_keep_bind [OF keeps_quiet(2)])
  apply (rule gives_bind [where V = "\<lambda>(r, c'). c' < 8 \<and> r \<noteq> Inl ETIMEDOUT"])
  using assms by (auto intro!: give service_quiet gives_bind [OF rdl_answered])

text \<open>What a completed command looks like: the slot came back with the command's address and
  bit 0 set, the length echoed, a zero status word, and the command's own opcode and a zero
  status in the buffer.\<close>

definition completed :: "'e env_scheme \<Rightarrow> trace \<Rightarrow> u64 \<Rightarrow> u64 \<Rightarrow> u16 \<Rightarrow> nat \<Rightarrow> nat \<Rightarrow> bool" where
  "completed E tr dma len opcode ch io \<longleftrightarrow>
     answered E tr (slot_word ch io 0) (dma OR 1) \<and> answered E tr (slot_word ch io 1) len \<and>
     answered E tr (slot_word ch io 2) 0 \<and> answered E tr (Cmd 4) (ucast opcode) \<and>
     answered E tr (Cmd 6) 0"

definition poll_post ::
  "'e env_scheme \<Rightarrow> trace \<Rightarrow> nat list \<Rightarrow> u64 \<Rightarrow> u64 \<Rightarrow> u16 \<Rightarrow> nat \<Rightarrow> nat \<Rightarrow>
     errno option \<times> nat \<Rightarrow> 'm rtc_scheme \<Rightarrow> bool" where
  "poll_post E tr cs dma len opcode ch io rc s \<longleftrightarrow>
     grown tr svc_ev s \<and> snd rc < 8 \<and>
     (legacy_cmd_cursor s = cs \<and> fst rc \<noteq> None \<or>
      legacy_cmd_cursor s = cs[ch := next_slot ch io] \<and>
        (fst rc = Some EPROTO \<or> fst rc = None \<and> completed E tr dma len opcode ch io))"

lemma poll_step:
  assumes "quiet tr cs s" "answered E tr (slot_word ch io 0) header"
  shows "wp (do {
           emit Barrier;
           l1 \<leftarrow> rdl E (slot_word ch io 1);
           l2 \<leftarrow> rdl E (slot_word ch io 2);
           op \<leftarrow> rdl E (Cmd 4);
           st \<leftarrow> rdl E (Cmd 6);
           modify (\<lambda>ane. ane\<lparr>legacy_cmd_cursor := (legacy_cmd_cursor ane)[ch := next_slot ch io]\<rparr>);
           ret (if header = dma OR 1 \<and> l1 = len \<and> l2 = 0 \<and> op = ucast opcode \<and> st = 0
                then None else Some EPROTO, c :: nat) })
      (\<lambda>rc s. grown tr svc_ev s \<and> snd rc = c \<and> legacy_cmd_cursor s = cs[ch := next_slot ch io] \<and>
        (fst rc = Some EPROTO \<or> fst rc = None \<and> completed E tr dma len opcode ch io)) s"
proof -
  obtain es where es: "trace s = tr @ es" "list_all svc_ev es" "legacy_cmd_cursor s = cs"
    using assms(1) by (auto simp: quiet_def grown_def)
  have ans: "answered E tr l (rd E (tr @ es') l)" for es' l by (auto simp: answered_def)
  show ?thesis
    using assms(2) es ans by (simp add: wp completed_def grown_def es(1) append_assoc) metis
qed

lemma poll_wp:
  "quiet tr cs s \<Longrightarrow> c < 8 \<Longrightarrow>
   wp (exchange_poll E dma len opcode ch io n c) (poll_post E tr cs dma len opcode ch io) s"
proof (induction n arbitrary: c s)
  case 0
  then show ?case by (auto simp: wp poll_post_def quiet_def grown_def)
next
  case (Suc n)
  have step: "wp (case r of Inl e \<Rightarrow> ret (Some e, c')
       | Inr header \<Rightarrow>
         if header AND 1 \<noteq> 0 then do {
           emit Barrier;
           l1 \<leftarrow> rdl E (slot_word ch io 1);
           l2 \<leftarrow> rdl E (slot_word ch io 2);
           op \<leftarrow> rdl E (Cmd 4);
           st \<leftarrow> rdl E (Cmd 6);
           modify (\<lambda>ane. ane\<lparr>legacy_cmd_cursor := (legacy_cmd_cursor ane)[ch := next_slot ch io]\<rparr>);
           ret (if header = dma OR 1 \<and> l1 = len \<and> l2 = 0 \<and> op = ucast opcode \<and> st = 0
                then None else Some EPROTO, c') }
         else do { emit Sleep; exchange_poll E dma len opcode ch io n c' })
      (poll_post E tr cs dma len opcode ch io) s'"
    if q: "quiet tr cs s'" and c': "c' < 8" and ne: "r \<noteq> Inl ETIMEDOUT"
      and h: "\<forall>h. r = Inr h \<longrightarrow> answered E tr (slot_word ch io 0) h" for r c' and s' :: "'a rtc_scheme"
  proof (cases r)
    case (Inl e)
    then show ?thesis using q c' by (auto simp: wp poll_post_def quiet_def)
  next
    case (Inr header)
    have q2: "quiet tr cs (s'\<lparr>trace := trace s' @ [Sleep]\<rparr>)"
      using q by (auto simp: quiet_def grown_def)
    have "wp (exchange_poll E dma len opcode ch io n c') (poll_post E tr cs dma len opcode ch io)
        (s'\<lparr>trace := trace s' @ [Sleep]\<rparr>)" by (rule Suc.IH [OF q2 c'])
    moreover note poll_step [OF q, of E ch io header dma len opcode c']
    ultimately show ?thesis
      using Inr h c' by (auto simp: wp_bind wp_emit elim!: wp_mono simp: poll_post_def)
  qed
  show ?case unfolding exchange_poll.simps wp_bind
    by (rule wp_mono [OF givesD [OF turn_quiet [OF Suc.prems(2)] Suc.prems(1)]])
       (use step in \<open>auto simp: wp_prod\<close>)
qed

lemma slot_word_service:
  assumes "ch < 8" "ch \<noteq> 5" "io < cs_size (ane_t6021_chman_layout ! ch)"
  shows "\<not> svc_ev (Write (slot_word ch io 0) v)" "slot_word ch io 1 \<noteq> slot_word ch io 0"
    "slot_word ch io 2 \<noteq> slot_word ch io 0"
proof -
  have "ch \<in> {0, 1, 2, 3, 4, 6, 7}" using assms(1,2) by auto
  then show "\<not> svc_ev (Write (slot_word ch io 0) v)"
    using assms(3) by (auto simp: slot_word_def ane_t6021_chman_layout_def chman_static_of_def)
qed (simp_all add: slot_word_def)

definition publishes :: "nat \<Rightarrow> nat \<Rightarrow> ev \<Rightarrow> bool" where
  "publishes ch io e \<longleftrightarrow> (\<exists>v. e = Write (slot_word ch io 0) v)"

lemma svc_no_publish:
  assumes "ch < 8" "ch \<noteq> 5" "io < cs_size (ane_t6021_chman_layout ! ch)" "list_all svc_ev es"
  shows "filter (publishes ch io) es = []"
  using assms(4) slot_word_service(1) [OF assms(1-3)]
  by (auto simp: filter_empty_conv publishes_def list_all_iff)


text \<open>The result of an exchange, its channel cursor and the commands it published.\<close>

definition exchange_post ::
  "'e fw_env_scheme \<Rightarrow> 'm rtc_scheme \<Rightarrow> u64 \<Rightarrow> u64 \<Rightarrow> u16 \<Rightarrow> nat \<Rightarrow> nat \<Rightarrow> errno option \<Rightarrow> 'm rtc_scheme \<Rightarrow> bool" where
  "exchange_post E s dma len opcode ch io r s' \<longleftrightarrow>
     (\<exists>es. trace s' = trace s @ es \<and>
       (filter (publishes ch io) es = [] \<and> r \<noteq> None \<and> r \<noteq> Some ETIMEDOUT \<and>
          legacy_cmd_cursor s' = legacy_cmd_cursor s \<or>
        filter (publishes ch io) es = [Write (slot_word ch io 0) dma] \<and>
          held s \<and> chman_ok s \<and> rd E (trace s) (slot_word ch io 0) AND 1 \<noteq> 0 \<and>
          (legacy_cmd_cursor s' = legacy_cmd_cursor s \<and> r \<noteq> None \<or>
           legacy_cmd_cursor s' = (legacy_cmd_cursor s)[ch := next_slot ch io] \<and>
             (r = Some EPROTO \<or> r = None \<and>
               (\<exists>pub. completed E (trace s @ pub) dma len opcode ch io \<and>
                  filter (publishes ch io) pub = [Write (slot_word ch io 0) dma])))))"

lemma exchange_wp:
  assumes ch: "ch < 8" "ch \<noteq> 5" "io < cs_size (ane_t6021_chman_layout ! ch)"
    and st: "io = legacy_cmd_cursor s ! ch" "legacy_malloc_cursor s < 8"
  shows "wp (ane_rtclient_legacy_exchange E c len opcode ch)
      (exchange_post E s (bdma (legacy_buffers s ! c)) len opcode ch io) s"
proof -
  let ?w = "slot_word ch io" and ?dma = "bdma (legacy_buffers s ! c)"
  let ?h = "rd E (trace s) (?w 0)"
  let ?s1 = "s\<lparr>trace := trace s @ [Read (?w 0) ?h]\<rparr>"
  let ?pub = "[Write (Cmd 4) (ucast opcode), Write (?w 1) len, Write (?w 2) len, Barrier,
      Write (?w 0) ?dma, Barrier, Write (Eng ANE_IPI_OFF) (push_bit (cs_bit (ane_t6021_chman_layout ! ch)) 1)]"
  note nopub = svc_no_publish [OF ch] and w = slot_word_service [OF ch]
  have fpub: "filter (publishes ch io) ?pub = [Write (?w 0) ?dma]"
    using w by (auto simp: publishes_def) (simp_all add: slot_word_def)
  have q1: "quiet (trace s) (legacy_cmd_cursor s) ?s1" by (auto simp: quiet_def grown_def)
  have served: "wp (serve_pending E n (legacy_malloc_cursor s))
      (\<lambda>(r, c') s'. quiet (trace s) (legacy_cmd_cursor s) s' \<and> c' < 8 \<and> r \<noteq> Some ETIMEDOUT) ?s1" for n
    by (rule wp_mono [OF givesD [OF serve_pending_quiet [OF st(2)] q1]]) auto
  have publish: "wp (exchange_send E ?dma len opcode ch io c')
      (\<lambda>rc s'. exchange_post E s ?dma len opcode ch io (fst rc) (s'\<lparr>legacy_malloc_cursor := snd rc\<rparr>)) s'"
    if q: "quiet (trace s) (legacy_cmd_cursor s) s'" and c': "c' < 8" and own: "?h AND 1 \<noteq> 0"
      and ok: "held s" "chman_ok s" for c' and s' :: "'a rtc_scheme"
  proof -
    obtain es where es: "trace s' = trace s @ es" "list_all svc_ev es" using q by (auto simp: quiet_def grown_def)
    let ?tr = "trace s @ es @ ?pub"
    have q2: "quiet ?tr (legacy_cmd_cursor s) (s'\<lparr>trace := trace s' @ ?pub\<rparr>)"
      using q es by (auto simp: quiet_def grown_def)
    have "wp (exchange_poll E ?dma len opcode ch io n c')
      (\<lambda>rc s'. exchange_post E s ?dma len opcode ch io (fst rc) (s'\<lparr>legacy_malloc_cursor := snd rc\<rparr>))
      (s'\<lparr>trace := trace s' @ ?pub\<rparr>)" for n
    proof (rule wp_mono [OF poll_wp [OF q2 c']])
      fix rc and u :: "'a rtc_scheme"
      assume post: "poll_post E ?tr (legacy_cmd_cursor s) ?dma len opcode ch io rc u"
      then obtain es2 where es2: "trace u = ?tr @ es2" "list_all svc_ev es2"
        by (auto simp: poll_post_def grown_def)
      have f: "filter (publishes ch io) (es @ ?pub) = [Write (?w 0) ?dma]"
        unfolding filter_append nopub [OF es(2)] fpub by simp
      then have f2: "filter (publishes ch io) (es @ ?pub @ es2) = [Write (?w 0) ?dma]"
        using nopub [OF es2(2)] by (metis append.assoc append.right_neutral filter_append)
      have upd: "legacy_cmd_cursor (u\<lparr>legacy_malloc_cursor := snd rc\<rparr>) = legacy_cmd_cursor u" by simp
      have tr: "trace (u\<lparr>legacy_malloc_cursor := snd rc\<rparr>) = trace s @ es @ ?pub @ es2" using es2 by simp
      show "exchange_post E s ?dma len opcode ch io (fst rc) (u\<lparr>legacy_malloc_cursor := snd rc\<rparr>)"
        unfolding exchange_post_def upd
        by (rule exI [of _ "es @ ?pub @ es2"], rule conjI [OF tr], rule disjI2)
           (use f2 f own ok post [unfolded poll_post_def] in blast)
    qed
    then show ?thesis by (simp add: exchange_send_def doorbell_def wp)
  qed
  have unpub: "exchange_post E s ?dma len opcode ch io r s'"
    if "grown (trace s) svc_ev s'" "legacy_cmd_cursor s' = legacy_cmd_cursor s" "r \<noteq> None" "r \<noteq> Some ETIMEDOUT"
    for r and s' :: "'a rtc_scheme"
    using that nopub unfolding exchange_post_def grown_def by blast
  have "wp (exchange_io E (legacy_buffers s ! c) len opcode ch io (legacy_malloc_cursor s))
      (\<lambda>rc s'. exchange_post E s ?dma len opcode ch io (fst rc) (s'\<lparr>legacy_malloc_cursor := snd rc\<rparr>)) s"
    if "held s" "chman_ok s"
  proof -
    have "wp (case rc of (r, c') \<Rightarrow> case r of Some e \<Rightarrow> ret (Some e, c')
            | None \<Rightarrow> exchange_send E ?dma len opcode ch io c')
      (\<lambda>rc s'. exchange_post E s ?dma len opcode ch io (fst rc) (s'\<lparr>legacy_malloc_cursor := snd rc\<rparr>)) s'"
      if "case rc of (r, c') \<Rightarrow> quiet (trace s) (legacy_cmd_cursor s) s' \<and> c' < 8 \<and> r \<noteq> Some ETIMEDOUT"
        "?h AND 1 \<noteq> 0" for rc and s' :: "'a rtc_scheme"
      using that publish [OF _ _ _ \<open>held s\<close> \<open>chman_ok s\<close>]
      by (auto simp: wp quiet_def grown_def intro!: unpub split: option.splits)
    then show ?thesis
      unfolding exchange_io_def
      by (auto simp: wp_if wp_bind wp_rdl wp_ret grown_def intro!: unpub wp_mono [OF served])
  qed
  moreover have "exchange_post E s ?dma len opcode ch io (Some EPROTO) s" by (rule unpub) simp_all
  ultimately show ?thesis
    unfolding ane_rtclient_legacy_exchange_def
    by (auto simp: wp st(1) split_def)
qed

section \<open>Properties of the transport\<close>

text \<open>The buffer the driver sends its commands in is never handed to the firmware's allocator and
  never given back, whatever addresses the firmware names.\<close>

definition cmd_kept :: "nat \<Rightarrow> legacy_buffer \<Rightarrow> 'm rtc_scheme \<Rightarrow> bool" where
  "cmd_kept k b s \<longleftrightarrow> leg_inv s \<and> cmd_buf s = Some k \<and> legacy_buffers s ! k = b"

lemma keeps_cmd_kept [keep]:
  "keeps (cmd_kept k b) (emit e)" "keeps (cmd_kept k b) (rdl E l)" "keeps (cmd_kept k b) (wrl l v)"
  "keeps (cmd_kept k b) (doorbell n)"
  "keeps (cmd_kept k b) (modify (\<lambda>s. s\<lparr>legacy_malloc_cursor := c\<rparr>))"
  "keeps (cmd_kept k b) (modify (\<lambda>s. s\<lparr>legacy_cmd_cursor := f s\<rparr>))"
  by (auto simp: keeps_def wp cmd_kept_def doorbell_def leg_inv_def)

lemma alloc_cmd_kept [keep]: "keeps (cmd_kept k b) (ane_rtclient_legacy_alloc E sz)"
  unfolding keeps_def
proof (intro allI impI)
  fix s :: "'a rtc_scheme"
  assume k: "cmd_kept k b s"
  then have inv: "leg_inv s" and ok: "leg_ok (legacy_buffers s) (legacy_allocated s) (legacy_bytes s) (cmd_buf s)"
    and b: "cmd_buf s = Some k" "legacy_buffers s ! k = b" by (auto simp: cmd_kept_def leg_inv_def)
  have "bcpu b \<noteq> 0" using ok b by (auto simp: leg_ok_def)
  then have ne: "i \<noteq> k" if "ane_legtab_pick ANE_LEGACY_ALLOCS (legacy_buffers s) (legacy_allocated s) = Some i" for i
    using pick_slot(2) [OF ok that] b by auto
  have "wp (ane_rtclient_legacy_alloc E sz) (\<lambda>_ s'. cmd_buf s' = Some k \<and> legacy_buffers s' ! k = b) s"
    using ne b by (auto simp: ane_rtclient_legacy_alloc_def wp split: option.splits)
  from wp_conj [OF this keepsD [OF legacy_alloc_inv inv]]
  show "wp (ane_rtclient_legacy_alloc E sz) (\<lambda>_. cmd_kept k b) s"
    by (rule wp_mono) (auto simp: cmd_kept_def)
qed

lemma give_back_cmd_kept [keep]: "keeps (cmd_kept k b) (legacy_give_back hdr)"
  unfolding keeps_def
proof (intro allI impI)
  fix s :: "'a rtc_scheme"
  assume k: "cmd_kept k b s"
  have ne: "i \<noteq> k" if "ane_legtab_find (legacy_buffers s) (legacy_allocated s) hdr (Some k) = Some i" for i
    using legtab_find_Some(5) [OF that] by auto
  have "wp (legacy_give_back hdr) (\<lambda>_ s'. cmd_buf s' = Some k \<and> legacy_buffers s' ! k = b) s"
    using k ne by (auto simp: cmd_kept_def legacy_give_back_def wp split: option.splits)
  from wp_conj [OF this keepsD [OF give_back_inv]] k
  show "wp (legacy_give_back hdr) (\<lambda>_. cmd_kept k b) s"
    by (auto simp: cmd_kept_def elim!: wp_mono)
qed

lemma service_cmd_kept [keep]: "keeps (cmd_kept k b) (ane_rtclient_malloc_service E cursor)"
  unfolding ane_rtclient_malloc_service_def service_malloc_def service_free_def service_answer_def
  by (intro keep) (auto split: mring_kind.splits intro!: keep)

lemma serve_pending_cmd_kept [keep]: "keeps (cmd_kept k b) (serve_pending E n cursor)"
  by (induction n arbitrary: cursor) (auto intro!: keep)

lemma turn_cmd_kept [keep]: "keeps (cmd_kept k b) (exchange_turn E ch io cursor)"
  unfolding exchange_turn_def by (intro keep)

lemma poll_cmd_kept [keep]: "keeps (cmd_kept k b) (exchange_poll E dma len opcode ch io n cursor)"
  by (induction n arbitrary: cursor) (auto intro!: keep)

lemma exchange_cmd_kept [keep]: "keeps (cmd_kept k b) (ane_rtclient_legacy_exchange E command len opcode ch)"
  unfolding ane_rtclient_legacy_exchange_def exchange_io_def exchange_send_def by (intro keep)

text \<open>C13: whatever the firmware does during a command exchange, including any sequence of
  allocation and free requests on its ring, the byte count of the buffers handed out is the exact
  sum of the sizes of the table's occupied entries and stays within the 512 MiB budget, entries at
  or above the high-water mark are free, and the command buffer's entry is untouched.\<close>

theorem exchange_keeps_budget_and_command_buffer:
  assumes "leg_inv s" "cmd_buf s = Some k"
    and "run_state (ane_rtclient_legacy_exchange E command len opcode ch) s = (r, s')"
  shows "leg_inv s' \<and> cmd_buf s' = Some k \<and> legacy_buffers s' ! k = legacy_buffers s ! k \<and>
         unat (legacy_bytes s') = sum_list (map buf_bytes (legacy_buffers s')) \<and>
         legacy_bytes s' \<le> ANE_LEGACY_BYTES"
proof -
  have "cmd_kept k (legacy_buffers s ! k) s" using assms(1,2) by (simp add: cmd_kept_def)
  from keepsD [OF exchange_cmd_kept [of k _ E command len opcode ch] this] have "cmd_kept k (legacy_buffers s ! k) s'"
    using assms(3) by (simp add: wp_def)
  then show ?thesis by (auto simp: cmd_kept_def leg_inv_def leg_ok_def)
qed



fun silent :: "ev \<Rightarrow> bool" where
  "silent (Write _ _) = False"
| "silent (Free _ _) = False"
| "silent _ = True"

definition no_write :: "ev \<Rightarrow> bool" where
  "no_write e \<longleftrightarrow> (\<forall>l v. e \<noteq> Write l v)"

definition answer :: "nat \<Rightarrow> u64 \<Rightarrow> u64 \<Rightarrow> trace" where
  "answer c tag hdr =
     [Write (slot_word 5 c 1) 0, Write (slot_word 5 c 2) tag, Barrier, Write (slot_word 5 c 0) hdr,
      Barrier, Write (Eng ANE_IPI_OFF) 0x20]"

lemma or_one_odd: "(x OR 1) AND (1 :: u64) = 1"
  by (rule bit_word_eqI) (auto simp: bit_and_iff bit_or_iff)

lemma alloc_trace:
  "wp (ane_rtclient_legacy_alloc E sz)
     (\<lambda>r s'. \<exists>es. trace s' = trace s @ es \<and> list_all no_write es \<and> (r = None \<longrightarrow> list_all silent es)) s"
  by (auto simp: ane_rtclient_legacy_alloc_def wp no_write_def split: option.splits)

definition service_post ::
  "'e fw_env_scheme \<Rightarrow> nat \<Rightarrow> 'm rtc_scheme \<Rightarrow> errno + bool \<Rightarrow> nat \<Rightarrow> 'm rtc_scheme \<Rightarrow> bool" where
  "service_post E c s r c' s' \<longleftrightarrow>
     (\<exists>es. trace s' = trace s @ es \<and>
       (if r = Inr True then
          c' = next_slot 5 c \<and>
          (\<exists>pre tag hdr rest. es = pre @ answer c tag hdr @ rest \<and> list_all silent pre \<and> hdr AND 1 = 1 \<and>
             (rest = [] \<or> (\<exists>b. rest = [Free (bsize b) (bdma b)] \<and> b \<in> set (legacy_buffers s) \<and>
                              bdma b = rd E (trace s) (slot_word 5 c 0))))
        else c' = c \<and> list_all no_write es))"

lemma wp_answer: "wp (service_answer c tag hdr) Q s = Q () (s\<lparr>trace := trace s @ answer c tag hdr\<rparr>)"
  by (simp add: service_answer_def answer_def doorbell_def wp)

lemma give_back_trace:
  "wp (legacy_give_back h) (\<lambda>_ s'. \<exists>rest. trace s' = trace s @ rest \<and>
     (rest = [] \<or> (\<exists>b. rest = [Free (bsize b) (bdma b)] \<and> b \<in> set (legacy_buffers s) \<and> bdma b = h))) s"
  using legtab_find_Some [of "legacy_buffers s" "legacy_allocated s" h "cmd_buf s"]
  by (auto simp: legacy_give_back_def wp split: option.splits)

lemma wp_mring [wp]:
  "wp (case k of MRING_IDLE \<Rightarrow> a | MRING_MALLOC \<Rightarrow> b | MRING_FREE \<Rightarrow> c | MRING_ANSWERED \<Rightarrow> d | MRING_BAD \<Rightarrow> e) Q s =
   (case k of MRING_IDLE \<Rightarrow> wp a Q s | MRING_MALLOC \<Rightarrow> wp b Q s | MRING_FREE \<Rightarrow> wp c Q s
    | MRING_ANSWERED \<Rightarrow> wp d Q s | MRING_BAD \<Rightarrow> wp e Q s)"
  by (simp split: mring_kind.splits)

text \<open>States reached before the answer: only reads and barriers so far.\<close>

definition before :: "'m rtc_scheme \<Rightarrow> 'm rtc_scheme \<Rightarrow> bool" where
  "before s s' \<longleftrightarrow> (\<exists>pre. trace s' = trace s @ pre \<and> list_all silent pre) \<and>
                  legacy_buffers s' = legacy_buffers s"

lemma silent_no_write: "list_all silent es \<Longrightarrow> list_all no_write es"
  by (auto simp: list_all_iff no_write_def)

lemma service_stop: "before s s' \<Longrightarrow> r \<noteq> Inr True \<Longrightarrow> service_post E c s r c s'"
  by (auto simp: before_def service_post_def dest: silent_no_write)

lemma service_answered:
  assumes "trace s' = trace s @ pre @ answer c t h" "list_all silent pre" "h AND 1 = 1"
  shows "service_post E c s (Inr True) (next_slot 5 c) s'"
proof -
  have "pre @ answer c t h = pre @ answer c t h @ []" by simp
  with assms(2,3) have ex: "\<exists>pre' tag hdr rest. pre @ answer c t h = pre' @ answer c tag hdr @ rest \<and>
      list_all silent pre' \<and> hdr AND 1 = 1 \<and>
      (rest = [] \<or> (\<exists>b. rest = [Free (bsize b) (bdma b)] \<and> b \<in> set (legacy_buffers s) \<and>
                       bdma b = rd E (trace s) (slot_word 5 c 0)))" by blast
  show ?thesis
    unfolding service_post_def using assms(1) ex by (intro exI [of _ "pre @ answer c t h"]) simp
qed

lemma service_free_wp:
  assumes "before s s'"
  shows "wp (service_free (rd E (trace s) (slot_word 5 c 0)) c) (\<lambda>(r, c'). service_post E c s r c') s'"
proof -
  obtain pre where pre: "trace s' = trace s @ pre" "list_all silent pre" "legacy_buffers s' = legacy_buffers s"
    using assms by (auto simp: before_def)
  show ?thesis
    unfolding service_free_def
    by (simp add: wp wp_answer, rule wp_mono [OF give_back_trace])
       (use pre in \<open>fastforce simp: service_post_def\<close>)
qed

lemma service_malloc_wp:
  assumes "before s s'"
  shows "wp (service_malloc E sz c) (\<lambda>(r, c'). service_post E c s r c') s'"
  unfolding service_malloc_def wp_bind
proof (rule wp_mono [OF alloc_trace])
  fix r and u :: "'a rtc_scheme"
  assume "\<exists>es. trace u = trace s' @ es \<and> list_all no_write es \<and> (r = None \<longrightarrow> list_all silent es)"
  then obtain es where u: "trace u = trace s' @ es" "list_all no_write es" "r = None \<longrightarrow> list_all silent es"
    by blast
  obtain pre where pre: "trace s' = trace s @ pre" "list_all silent pre"
    using assms by (auto simp: before_def)
  have ok: "service_post E c s (Inr True) (next_slot 5 c) (u\<lparr>trace := trace u @ answer c t (h OR 1)\<rparr>)"
    if "r = None" for t h
    by (rule service_answered [OF _ _ or_one_odd, where pre = "pre @ es"]) (use that u pre in simp_all)
  have bad: "service_post E c s (Inl e) c u" for e
    unfolding service_post_def
    by (rule exI [of _ "pre @ es"]) (use u pre silent_no_write in auto)
  show "wp (case r of
             Some e \<Rightarrow> ret (Inl ENOMEM, c)
           | None \<Rightarrow> do {
               ane \<leftarrow> get_st;
               service_answer c (of_nat (legacy_last ane) + 1) (bdma (legacy_buffers ane ! legacy_last ane) OR 1);
               ret (Inr True, next_slot 5 c) }) (\<lambda>(r, c'). service_post E c s r c') u"
    using ok bad by (simp add: wp wp_answer split: option.splits)
qed

lemma service_wp: "wp (ane_rtclient_malloc_service E c) (\<lambda>(r, c'). service_post E c s r c') s"
proof -
  have b: "before s (s\<lparr>trace := trace s @ [Read l v]\<rparr>)" "before s (s\<lparr>trace := trace s @ [Read l v, Barrier, Read l' v', Read l'' v'']\<rparr>)"
    for l v l' v' l'' v'' by (simp_all add: before_def)
  note m = service_malloc_wp [OF b(2)] and f = service_free_wp [OF b(2)] and st = service_stop [OF b(1)] service_stop [OF b(2)]
  show ?thesis
    unfolding ane_rtclient_malloc_service_def
    by (simp add: wp m f st split: mring_kind.splits)
qed

text \<open>C24: the service answers a request of the firmware exactly once.  When it reports an answer,
  it has written both body words, then behind a barrier a header with bit 0 set, then behind a
  barrier the doorbell, the cursor has moved to the next slot of the ring, and memory is given
  back to the kernel only after all of this, namely an entry of the table whose DMA address is
  the one the firmware named.  When it reports none, it has written nothing and the cursor
  stands.\<close>

theorem malloc_service_protocol:
  assumes "run_state (ane_rtclient_malloc_service E c) s = ((r, c'), s')"
  shows "\<exists>es. trace s' = trace s @ es \<and>
     (if r = Inr True then
        c' = next_slot 5 c \<and>
        (\<exists>pre tag hdr rest. es = pre @ answer c tag hdr @ rest \<and> list_all silent pre \<and> hdr AND 1 = 1 \<and>
           (rest = [] \<or> (\<exists>b. rest = [Free (bsize b) (bdma b)] \<and> b \<in> set (legacy_buffers s) \<and>
                            bdma b = rd E (trace s) (slot_word 5 c 0))))
      else c' = c \<and> list_all no_write es)"
  using service_wp [of E c s] assms by (simp add: wp_def service_post_def)

end
