(* ===== verification/Ane_Stats.thy ===== *)
theory Ane_Stats
  imports Ane_Prelude
begin

text \<open>
  The statistics producer shared by both kernel drivers (\<^verbatim>\<open>ane/include/ane_stats.h\<close>) and
  its timeline reader (\<^verbatim>\<open>ane/ane_stats_show.c\<close>).

  The operations are given first as one caller runs them.  A begin or complete that would
  dereference a missing slot array, or spin on the transition sentinel with nobody else running,
  is \<open>None\<close>.  The second half takes them apart into their atomic accesses to the counters and
  interleaves any number of submissions; there the busy time is shown to be the measure of the
  union of the recorded intervals.
\<close>

definition ANE_STATS_INFLIGHT_TRANS :: u32 where "ANE_STATS_INFLIGHT_TRANS = 0xffffffff"
definition ANE_STATS_RING_ORDER_DEFAULT :: nat where "ANE_STATS_RING_ORDER_DEFAULT = 8"

record stats_counters =
  busy_ns :: u64
  jobs :: u64
  last_busy_end :: u64
  max_end :: u64
  inflight :: u32

record ring_entry =
  seq :: u64
  submit_ns :: u64
  start_ns :: u64
  end_ns :: u64
  e_tasks :: u32
  e_rc :: u32
  e_tmst :: u64

record stats_ring =
  head :: u64
  rn :: u32
  mask :: u32
  slots :: "ring_entry list option"    \<comment> \<open>\<open>None\<close> is the NULL pointer\<close>

definition zero_entry :: ring_entry where
  "zero_entry = \<lparr>seq = 0, submit_ns = 0, start_ns = 0, end_ns = 0, e_tasks = 0, e_rc = 0, e_tmst = 0\<rparr>"

definition ane_stats_counters_init :: "nat \<Rightarrow> stats_counters \<times> stats_ring" where
  "ane_stats_counters_init n_shift =
     (\<lparr>busy_ns = 0, jobs = 0, last_busy_end = 0, max_end = 0, inflight = 0\<rparr>,
      \<lparr>head = 0, rn = push_bit n_shift 1, mask = push_bit n_shift 1 - 1, slots = None\<rparr>)"

text \<open>The slot of a ticket.\<close>

definition slot_of :: "stats_ring \<Rightarrow> u64 \<Rightarrow> nat" where
  "slot_of r ticket = unat ((ticket - 1) AND ucast (mask r))"

definition put_slot :: "stats_ring \<Rightarrow> u64 \<Rightarrow> (ring_entry \<Rightarrow> ring_entry) \<Rightarrow> stats_ring option" where
  "put_slot r ticket f =
     (case slots r of
        None \<Rightarrow> None
      | Some sl \<Rightarrow> if slot_of r ticket < length sl
                  then Some (r\<lparr>slots := Some (sl[slot_of r ticket := f (sl ! slot_of r ticket)])\<rparr>)
                  else None)"

text \<open>The counter side of a begin, run alone.\<close>

definition begin_counters :: "stats_counters \<Rightarrow> u64 \<Rightarrow> stats_counters option" where
  "begin_counters c submit =
     (if inflight c = ANE_STATS_INFLIGHT_TRANS then None
      else if inflight c = 0 then
        Some (c\<lparr>last_busy_end := (if submit > max_end c then submit else max_end c), inflight := 1\<rparr>)
      else Some (c\<lparr>inflight := inflight c + 1\<rparr>))"

definition ane_stats_begin ::
  "stats_counters \<Rightarrow> stats_ring \<Rightarrow> u64 \<Rightarrow> u32 \<Rightarrow> (u64 \<times> stats_counters \<times> stats_ring) option" where
  "ane_stats_begin c r submit tasks =
     (let ticket = head r + 1; r1 = r\<lparr>head := ticket\<rparr> in
      case begin_counters c submit of
        None \<Rightarrow> None
      | Some c1 \<Rightarrow>
          (case put_slot r1 ticket (\<lambda>e. \<lparr>seq = 2 * ticket - 1, submit_ns = submit,
                   start_ns = last_busy_end c1, end_ns = submit, e_tasks = tasks,
                   e_rc = 0xffffffff, e_tmst = 0\<rparr>) of
             None \<Rightarrow> None
           | Some r2 \<Rightarrow> Some (ticket, c1, r2)))"

text \<open>The counter side of a complete, run alone, with the end the slot records.\<close>

definition complete_counters :: "stats_counters \<Rightarrow> u64 \<Rightarrow> (stats_counters \<times> u64) option" where
  "complete_counters c e =
     (let c1 = c\<lparr>max_end := (if e > max_end c then e else max_end c)\<rparr> in
      if inflight c1 = ANE_STATS_INFLIGHT_TRANS then None
      else if inflight c1 > 1 then Some (c1\<lparr>inflight := inflight c1 - 1\<rparr>, e)
      else if inflight c1 = 0 then Some (c1, e)
      else let fold_end = (if max_end c1 < e then e else max_end c1);
               busy = (if fold_end > last_busy_end c1
                       then busy_ns c1 + (fold_end - last_busy_end c1) else busy_ns c1)
           in Some (c1\<lparr>busy_ns := busy, inflight := 0\<rparr>, if fold_end = 0 then e else fold_end))"

definition ane_stats_complete ::
  "stats_counters \<Rightarrow> stats_ring \<Rightarrow> u64 \<Rightarrow> u64 \<Rightarrow> u32 \<Rightarrow> u64 \<Rightarrow> (stats_counters \<times> stats_ring) option" where
  "ane_stats_complete c r ticket e rc tmst =
     (case complete_counters c e of
        None \<Rightarrow> None
      | Some (c1, en) \<Rightarrow>
          (case put_slot r ticket (\<lambda>en0. en0\<lparr>end_ns := en, e_rc := rc, e_tmst := tmst, seq := 2 * ticket\<rparr>) of
             None \<Rightarrow> None
           | Some r1 \<Rightarrow> Some (c1\<lparr>jobs := jobs c1 + 1\<rparr>, r1)))"

text \<open>The value a reader reports at time \<open>now\<close> when nothing changes under it.\<close>

definition ane_stats_snapshot :: "stats_counters \<Rightarrow> u64 \<Rightarrow> u64 option" where
  "ane_stats_snapshot c now =
     (if inflight c = ANE_STATS_INFLIGHT_TRANS then None
      else if inflight c \<noteq> 0 \<and> now > last_busy_end c
      then Some (busy_ns c + (now - last_busy_end c))
      else Some (busy_ns c))"

text \<open>The timeline: the committed submissions, newest first, as ticket and slot.\<close>

definition timeline_line :: "stats_ring \<Rightarrow> ring_entry list \<Rightarrow> u64 \<Rightarrow> (u64 \<times> ring_entry) list" where
  "timeline_line r sl ticket =
     (let e = sl ! slot_of r ticket in if seq e = 2 * ticket then [(2 * ticket, e)] else [])"

definition ane_timeline_show :: "stats_ring \<Rightarrow> (u64 \<times> ring_entry) list option" where
  "ane_timeline_show r =
     (case slots r of
        None \<Rightarrow> if head r = 0 then Some [] else None
      | Some sl \<Rightarrow>
          let live = (if head r < ucast (mask r) + 1 then head r else ucast (mask r) + 1) in
          Some (concat (map (\<lambda>i. timeline_line r sl (head r - of_nat i)) [0..<unat live])))"


subsection \<open>Submissions interleaved\<close>

text \<open>
  One submission's position in \<^verbatim>\<open>ane_stats_begin\<close> and \<^verbatim>\<open>ane_stats_complete\<close>, with the
  locals it carries: \<open>x\<close> the submit sample, \<open>cur\<close> the value of \<^verbatim>\<open>inflight\<close> it last read, \<open>st\<close> the
  start its slot records, \<open>e\<close> its end sample, \<open>fe\<close> the consumed fold end.
\<close>

datatype spc =
    BRead (px: u64) (pcur: u32)          \<comment> \<open>in the retry loop of begin\<close>
  | BOpen u64                            \<comment> \<open>won the compare-and-exchange 0 to TRANS\<close>
  | BGot u64                             \<comment> \<open>the latch is computed\<close>
  | BLatched                             \<comment> \<open>the latch is stored\<close>
  | BIn                                  \<comment> \<open>counted in inflight, the slot not yet written\<close>
  | Run u64                              \<comment> \<open>begin returned\<close>
  | CRead u64 u64 u32                    \<comment> \<open>complete entered: end sample and first read of inflight\<close>
  | CFed u64 u64 u32                     \<comment> \<open>the end sample is in max_end\<close>
  | CClose u64 u64                       \<comment> \<open>won the compare-and-exchange 1 to TRANS\<close>
  | CSpan u64 u64 u64                    \<comment> \<open>period start and fold end are read\<close>
  | CFolded u64 u64                      \<comment> \<open>the span is added to busy_ns\<close>
  | CLeft u64 u64                        \<comment> \<open>out of inflight\<close>
  | CDone u64 u64                        \<comment> \<open>job counted, slot committed\<close>

text \<open>
  The next atomic access of a submission; \<open>e\<close> is the end sample its caller passes to complete.  A
  compare-and-exchange that fails re-reads \<^verbatim>\<open>inflight\<close>.
\<close>

fun advance :: "u64 \<Rightarrow> stats_counters \<Rightarrow> spc \<Rightarrow> stats_counters \<times> spc" where
  "advance e c (BRead x cur) =
     (if cur = ANE_STATS_INFLIGHT_TRANS then (c, BRead x (inflight c))
      else if cur = 0 then
        (if inflight c = 0 then (c\<lparr>inflight := ANE_STATS_INFLIGHT_TRANS\<rparr>, BOpen x)
         else (c, BRead x (inflight c)))
      else if inflight c = cur then (c\<lparr>inflight := cur + 1\<rparr>, BIn)
      else (c, BRead x (inflight c)))"
| "advance e c (BOpen x) = (c, BGot (if x > max_end c then x else max_end c))"
| "advance e c (BGot latch) = (c\<lparr>last_busy_end := latch\<rparr>, BLatched)"
| "advance e c BLatched = (c\<lparr>inflight := 1\<rparr>, BIn)"
| "advance e c BIn = (c, Run (last_busy_end c))"
| "advance e c (Run st) = (c, CRead st e (inflight c))"
| "advance e c (CRead st e' cur) =
     (c\<lparr>max_end := (if e' > max_end c then e' else max_end c)\<rparr>, CFed st e' cur)"
| "advance e c (CFed st e' cur) =
     (if cur = ANE_STATS_INFLIGHT_TRANS then (c, CFed st e' (inflight c))
      else if cur > 1 then
        (if inflight c = cur then (c\<lparr>inflight := cur - 1\<rparr>, CLeft st e')
         else (c, CFed st e' (inflight c)))
      else if cur = 0 then (c, CLeft st e')
      else if inflight c = 1 then (c\<lparr>inflight := ANE_STATS_INFLIGHT_TRANS\<rparr>, CClose st e')
      else (c, CFed st e' (inflight c)))"
| "advance e c (CClose st e') =
     (c, CSpan st (last_busy_end c) (if max_end c < e' then e' else max_end c))"
| "advance e c (CSpan st s fe) =
     (if fe > s then c\<lparr>busy_ns := busy_ns c + (fe - s)\<rparr> else c, CFolded st fe)"
| "advance e c (CFolded st fe) = (c\<lparr>inflight := 0\<rparr>, CLeft st fe)"
| "advance e c (CLeft st en) = (c\<lparr>jobs := jobs c + 1\<rparr>, CDone st en)"
| "advance e c (CDone st en) = (c, CDone st en)"

text \<open>
  Any number of submissions below the sentinel; each step starts one or advances one.
\<close>

inductive stat_step :: "stats_counters \<times> spc list \<Rightarrow> stats_counters \<times> spc list \<Rightarrow> bool" where
  spawn: "Suc (length ths) < unat ANE_STATS_INFLIGHT_TRANS \<Longrightarrow>
            stat_step (c, ths) (c, ths @ [BRead x (inflight c)])"
| advances: "i < length ths \<Longrightarrow> advance e c (ths ! i) = (c', p) \<Longrightarrow>
            stat_step (c, ths) (c', ths[i := p])"

inductive_cases stat_stepE: "stat_step (c, ths) s"

definition stat_reach :: "stats_counters \<times> spc list \<Rightarrow> bool" where
  "stat_reach = stat_step\<^sup>*\<^sup>* (fst (ane_stats_counters_init ANE_STATS_RING_ORDER_DEFAULT), [])"

text \<open>The interval a submission that left has recorded, and the union of them.\<close>

fun ival :: "spc \<Rightarrow> nat set" where
  "ival (CFolded st en) = {unat st..<unat en}"
| "ival (CLeft st en) = {unat st..<unat en}"
| "ival (CDone st en) = {unat st..<unat en}"
| "ival _ = {}"

definition recorded :: "spc list \<Rightarrow> nat set" where
  "recorded ths = (\<Union>p\<in>set ths. ival p)"

definition cnt :: "('a \<Rightarrow> bool) \<Rightarrow> 'a list \<Rightarrow> nat" where
  "cnt P xs = length (filter P xs)"

fun in_flight :: "spc \<Rightarrow> bool" where
  "in_flight BIn = True" | "in_flight (Run _) = True"
| "in_flight (CRead _ _ _) = True" | "in_flight (CFed _ _ _) = True" | "in_flight _ = False"

text \<open>The holder of the sentinel, with the period's latch valid or not.\<close>

fun holds_open :: "spc \<Rightarrow> bool" where
  "holds_open BLatched = True" | "holds_open (CClose _ _) = True"
| "holds_open (CSpan _ _ _) = True" | "holds_open _ = False"

fun holds_shut :: "spc \<Rightarrow> bool" where
  "holds_shut (BOpen _) = True" | "holds_shut (BGot _) = True"
| "holds_shut (CFolded _ _) = True" | "holds_shut _ = False"

fun loc_ok :: "u64 \<Rightarrow> u64 \<Rightarrow> spc \<Rightarrow> bool" where
  "loc_ok l m (BGot x) = (m \<le> x)"
| "loc_ok l m (Run st) = (st = l)"
| "loc_ok l m (CRead st e cur) = (st = l \<and> cur \<noteq> 0)"
| "loc_ok l m (CFed st e cur) = (st = l \<and> cur \<noteq> 0 \<and> e \<le> m)"
| "loc_ok l m (CClose st e) = (st = l \<and> e \<le> m)"
| "loc_ok l m (CSpan st s fe) = (st = l \<and> s = l \<and> fe = m)"
| "loc_ok l m (CFolded st fe) = (fe = m)"
| "loc_ok l m (CLeft st en) = (en \<le> m)"
| "loc_ok l m (CDone st en) = (en \<le> m)"
| "loc_ok l m _ = True"

definition stat_inv :: "stats_counters \<Rightarrow> spc list \<Rightarrow> bool" where
  "stat_inv c ths \<longleftrightarrow>
     length ths < unat ANE_STATS_INFLIGHT_TRANS \<and>
     cnt holds_open ths + cnt holds_shut ths \<le> 1 \<and>
     (0 < cnt in_flight ths \<longrightarrow> cnt holds_open ths + cnt holds_shut ths = 0) \<and>
     inflight c = (if cnt holds_open ths + cnt holds_shut ths = 0
                   then of_nat (cnt in_flight ths) else ANE_STATS_INFLIGHT_TRANS) \<and>
     (\<forall>i<length ths. loc_ok (last_busy_end c) (max_end c) (ths ! i)) \<and>
     unat (busy_ns c) =
       card (if 0 < cnt in_flight ths + cnt holds_open ths
             then recorded ths \<inter> {..<unat (last_busy_end c)} else recorded ths) \<and>
     jobs c = of_nat (cnt (\<lambda>p. \<exists>st en. p = CDone st en) ths)"

lemma cnt_append [simp]: "cnt P (xs @ ys) = cnt P xs + cnt P ys"
  and cnt_Nil [simp]: "cnt P [] = 0"
  and cnt_Cons [simp]: "cnt P (x # xs) = (if P x then 1 else 0) + cnt P xs"
  by (simp_all add: cnt_def)

lemma cnt_le: "cnt P xs \<le> length xs"
  by (simp add: cnt_def)

lemma cnt_pos: "i < length xs \<Longrightarrow> P (xs ! i) \<Longrightarrow> 0 < cnt P xs"
  by (auto simp: cnt_def filter_empty_conv)

lemma cnt_upd: "i < length xs \<Longrightarrow>
   cnt P (xs[i := y]) = cnt P xs - (if P (xs ! i) then 1 else 0) + (if P y then 1 else 0)"
proof (induction xs arbitrary: i)
  case (Cons a xs)
  then show ?case using cnt_pos [of "i - 1" xs P] by (cases i) auto
qed simp

lemma cnt_0: "cnt P xs = 0 \<Longrightarrow> i < length xs \<Longrightarrow> \<not> P (xs ! i)"
  using cnt_pos [of i xs P] by auto

lemma cnt_1: "cnt P xs = 1 \<Longrightarrow> i < length xs \<Longrightarrow> P (xs ! i) \<Longrightarrow> j < length xs \<Longrightarrow> j \<noteq> i \<Longrightarrow> \<not> P (xs ! j)"
proof
  assume a: "cnt P xs = 1" "i < length xs" "P (xs ! i)" "j < length xs" "j \<noteq> i" "P (xs ! j)"
  then have "i \<in> {k. k < length xs \<and> P (xs ! k)}" "j \<in> {k. k < length xs \<and> P (xs ! k)}"
    by auto
  moreover have "card {k. k < length xs \<and> P (xs ! k)} = 1"
    using a(1) by (simp add: cnt_def length_filter_conv_card)
  then obtain k where "{k. k < length xs \<and> P (xs ! k)} = {k}" by (rule card_1_singletonE)
  ultimately show False using a(5) by (metis singletonD)
qed

lemma cnt_mono_len: "(\<And>x. P x \<Longrightarrow> \<not> Q x) \<Longrightarrow> cnt P xs + cnt Q xs \<le> length xs"
  by (induction xs) auto

lemma recorded_nth: "recorded ths = (\<Union>j<length ths. ival (ths ! j))"
  by (auto simp: recorded_def set_conv_nth)

lemma recorded_upd:
  assumes "i < length ths" "ival (ths ! i) \<subseteq> ival p"
  shows "recorded (ths[i := p]) = recorded ths \<union> ival p"
proof
  show "recorded (ths[i := p]) \<subseteq> recorded ths \<union> ival p"
    using set_update_subset_insert [of ths i p] by (auto simp: recorded_def)
  have "ival (ths ! j) \<subseteq> ival (ths[i := p] ! j)" if "j < length ths" for j
    using assms that by (auto simp: nth_list_update)
  then have "recorded ths \<subseteq> recorded (ths[i := p])"
    unfolding recorded_nth length_list_update by blast
  moreover have "ival p \<subseteq> recorded (ths[i := p])"
    using assms(1) set_update_memI [of i ths p] by (auto simp: recorded_def)
  ultimately show "recorded ths \<union> ival p \<subseteq> recorded (ths[i := p])" by simp
qed

lemma recorded_append [simp]: "recorded (xs @ ys) = recorded xs \<union> recorded ys"
  by (auto simp: recorded_def)


lemma trans_val: "unat ANE_STATS_INFLIGHT_TRANS = 4294967295"
  by (simp add: ANE_STATS_INFLIGHT_TRANS_def)

lemma inv_free:
  assumes "stat_inv c ths" "cnt holds_open ths + cnt holds_shut ths = 0"
  shows "unat (inflight c) = cnt in_flight ths" "inflight c \<noteq> ANE_STATS_INFLIGHT_TRANS"
proof -
  have l: "cnt in_flight ths < 4294967295"
    using assms(1) cnt_le [of in_flight ths] by (simp add: stat_inv_def trans_val)
  then show u: "unat (inflight c) = cnt in_flight ths"
    using assms by (simp add: stat_inv_def unat_of_nat)
  show "inflight c \<noteq> ANE_STATS_INFLIGHT_TRANS" using u l trans_val by auto
qed

lemma inv_not_trans:
  assumes "stat_inv c ths" "inflight c \<noteq> ANE_STATS_INFLIGHT_TRANS"
  shows "cnt holds_open ths + cnt holds_shut ths = 0"
  using assms by (auto simp: stat_inv_def split: if_splits)

lemma inv_active:
  assumes "stat_inv c ths" "i < length ths" "in_flight (ths ! i)"
  shows "cnt holds_open ths + cnt holds_shut ths = 0" "0 < cnt in_flight ths"
  using assms cnt_pos [of i ths in_flight] by (simp_all add: stat_inv_def)

lemma inv_holder:
  assumes "stat_inv c ths" "i < length ths" "holds_open (ths ! i) \<or> holds_shut (ths ! i)"
  shows "cnt in_flight ths = 0"
    "cnt holds_open ths = (if holds_open (ths ! i) then 1 else 0)"
    "cnt holds_shut ths = (if holds_open (ths ! i) then 0 else 1)"
  using assms cnt_pos [of i ths holds_open] cnt_pos [of i ths holds_shut]
  by (auto simp: stat_inv_def)

lemma inv_holder_only:
  assumes "stat_inv c ths" "i < length ths" "holds_open (ths ! i) \<or> holds_shut (ths ! i)"
    "j < length ths" "j \<noteq> i"
  shows "\<not> in_flight (ths ! j) \<and> \<not> holds_open (ths ! j) \<and> \<not> holds_shut (ths ! j)"
  using inv_holder [OF assms(1-3)] cnt_0 [of in_flight ths j]
    cnt_0 [of holds_open ths j] cnt_0 [of holds_shut ths j]
    cnt_1 [of holds_open ths i j] cnt_1 [of holds_shut ths i j] assms
  by (auto split: if_splits)

lemma recorded_bound:
  assumes "\<forall>i<length ths. loc_ok l m (ths ! i)"
  shows "recorded ths \<subseteq> {..<unat m}"
proof -
  have "ival p \<subseteq> {..<unat m}" if "loc_ok l m p" for p
    using that by (cases p) (auto simp: word_le_nat_alt)
  then show ?thesis using assms by (fastforce simp: recorded_nth)
qed

lemma loc_ok_upd:
  assumes "\<And>j. j < length ths \<Longrightarrow> j \<noteq> i \<Longrightarrow> loc_ok l m (ths ! j)" "loc_ok l m p"
  shows "\<forall>j<length (ths[i := p]). loc_ok l m (ths[i := p] ! j)"
  using assms by (metis length_list_update nth_list_update_eq nth_list_update_neq)

lemma loc_ok_feed:
  assumes "loc_ok l m q" "\<not> holds_open q" "\<not> holds_shut q" "m \<le> m'"
  shows "loc_ok l m' q"
  using assms by (cases q) auto

lemma loc_ok_latch:
  assumes "loc_ok l m q" "\<not> holds_open q" "\<not> holds_shut q" "\<not> in_flight q"
  shows "loc_ok l' m q"
  using assms by (cases q) auto

lemma stat_inv_spawn:
  "stat_inv c ths \<Longrightarrow> Suc (length ths) < unat ANE_STATS_INFLIGHT_TRANS \<Longrightarrow>
     stat_inv c (ths @ [BRead x cur])"
  by (auto simp: stat_inv_def nth_append recorded_def less_Suc_eq)

text \<open>The step keeps the counters' and the positions' class, as for the re-reads.\<close>

lemma stat_inv_silent:
  assumes inv: "stat_inv c ths" and i: "i < length ths"
    and same: "in_flight p = in_flight (ths ! i)" "holds_open p = holds_open (ths ! i)"
      "holds_shut p = holds_shut (ths ! i)" "ival p = ival (ths ! i)"
      "\<not> (\<exists>st en. p = CDone st en)" "\<not> (\<exists>st en. ths ! i = CDone st en)"
    and ok: "loc_ok (last_busy_end c) (max_end c) p"
  shows "stat_inv c (ths[i := p])"
proof -
  have c: "cnt P (ths[i := p]) = cnt P ths" if "P p = P (ths ! i)" for P
    using that i cnt_pos [of i ths P] by (auto simp: cnt_upd)
  have "\<forall>j<length (ths[i := p]). loc_ok (last_busy_end c) (max_end c) (ths[i := p] ! j)"
    using inv ok by (intro loc_ok_upd) (auto simp: stat_inv_def)
  moreover have "recorded (ths[i := p]) = recorded ths"
    using i same(4) recorded_upd [of i ths p] by (auto simp: recorded_nth)
  ultimately show ?thesis using inv c same by (simp add: stat_inv_def)
qed


lemma inv_locs:
  "stat_inv c ths \<Longrightarrow> \<forall>i<length ths. loc_ok (last_busy_end c) (max_end c) (ths ! i)"
  by (simp add: stat_inv_def)

lemma inv_loc:
  "stat_inv c ths \<Longrightarrow> i < length ths \<Longrightarrow> loc_ok (last_busy_end c) (max_end c) (ths ! i)"
  by (simp add: stat_inv_def)

lemma inv_open:
  assumes "stat_inv c ths" "i < length ths" "ths ! i = BRead x cur" "inflight c = 0"
  shows "stat_inv (c\<lparr>inflight := ANE_STATS_INFLIGHT_TRANS\<rparr>) (ths[i := BOpen x])"
proof -
  have "inflight c \<noteq> ANE_STATS_INFLIGHT_TRANS" using assms(4) by (simp add: ANE_STATS_INFLIGHT_TRANS_def)
  note f = inv_not_trans [OF assms(1) this]
  have a: "cnt in_flight ths = 0" using inv_free(1) [OF assms(1) f] assms(4) by simp
  have "recorded (ths[i := BOpen x]) = recorded ths" using assms recorded_upd [of i ths "BOpen x"] by simp
  moreover have "\<forall>j<length (ths[i := BOpen x]). loc_ok (last_busy_end c) (max_end c) (ths[i := BOpen x] ! j)"
    using inv_locs [OF assms(1)] by (intro loc_ok_upd) auto
  ultimately show ?thesis using assms f a by (simp add: stat_inv_def cnt_upd)
qed

lemma inv_join:
  assumes "stat_inv c ths" "i < length ths" "ths ! i = BRead x cur" "cur \<noteq> 0"
    "cur \<noteq> ANE_STATS_INFLIGHT_TRANS" "inflight c = cur"
  shows "stat_inv (c\<lparr>inflight := cur + 1\<rparr>) (ths[i := BIn])"
proof -
  have "inflight c \<noteq> ANE_STATS_INFLIGHT_TRANS" using assms by simp
  note f = inv_not_trans [OF assms(1) this]
  have a: "0 < cnt in_flight ths"
    using inv_free(1) [OF assms(1) f] assms(4,6) by (metis bot_nat_0.not_eq_extremum unat_eq_zero)
  have "recorded (ths[i := BIn]) = recorded ths" using assms recorded_upd [of i ths BIn] by simp
  moreover have "\<forall>j<length (ths[i := BIn]). loc_ok (last_busy_end c) (max_end c) (ths[i := BIn] ! j)"
    using inv_locs [OF assms(1)] by (intro loc_ok_upd) auto
  ultimately show ?thesis using assms f a by (auto simp: stat_inv_def cnt_upd)
qed

lemma inv_latch:
  assumes "stat_inv c ths" "i < length ths" "ths ! i = BGot l"
  shows "stat_inv (c\<lparr>last_busy_end := l\<rparr>) (ths[i := BLatched])"
proof -
  have t: "holds_open (ths ! i) \<or> holds_shut (ths ! i)" using assms by simp
  note h = inv_holder [OF assms(1,2) t] and only = inv_holder_only [OF assms(1,2) t]
  have m: "max_end c \<le> l" using inv_loc [OF assms(1,2)] assms(3) by simp
  have r: "recorded (ths[i := BLatched]) = recorded ths"
    using assms recorded_upd [of i ths BLatched] by simp
  have "recorded ths \<inter> {..<unat l} = recorded ths"
    using recorded_bound [OF inv_locs [OF assms(1)]] m by (auto simp: word_le_nat_alt)
  moreover have "\<forall>j<length (ths[i := BLatched]). loc_ok l (max_end c) (ths[i := BLatched] ! j)"
    using only inv_loc [OF assms(1)] by (intro loc_ok_upd) (auto intro: loc_ok_latch)
  ultimately show ?thesis using assms r h by (simp add: stat_inv_def cnt_upd)
qed

lemma inv_publish:
  assumes "stat_inv c ths" "i < length ths" "ths ! i = BLatched"
  shows "stat_inv (c\<lparr>inflight := 1\<rparr>) (ths[i := BIn])"
proof -
  have t: "holds_open (ths ! i) \<or> holds_shut (ths ! i)" using assms by simp
  note h = inv_holder [OF assms(1,2) t]
  have "recorded (ths[i := BIn]) = recorded ths" using assms recorded_upd [of i ths BIn] by simp
  moreover have "\<forall>j<length (ths[i := BIn]). loc_ok (last_busy_end c) (max_end c) (ths[i := BIn] ! j)"
    using inv_locs [OF assms(1)] by (intro loc_ok_upd) auto
  ultimately show ?thesis using assms h by (simp add: stat_inv_def cnt_upd)
qed

lemma inv_feed:
  assumes "stat_inv c ths" "i < length ths" "ths ! i = CRead st e cur"
    and m: "m = (if e > max_end c then e else max_end c)"
  shows "stat_inv (c\<lparr>max_end := m\<rparr>) (ths[i := CFed st e cur])"
proof -
  have t: "in_flight (ths ! i)" using assms by simp
  note f = inv_active [OF assms(1,2) t]
  have l: "st = last_busy_end c" "cur \<noteq> 0" using inv_loc [OF assms(1,2)] assms(3) by simp_all
  have le: "max_end c \<le> m" "e \<le> m" by (cases "e > max_end c"; simp add: m)+
  have "recorded (ths[i := CFed st e cur]) = recorded ths"
    using assms recorded_upd [of i ths "CFed st e cur"] by simp
  moreover have "\<forall>j<length (ths[i := CFed st e cur]). loc_ok (last_busy_end c) m (ths[i := CFed st e cur] ! j)"
  proof (rule loc_ok_upd)
    show "loc_ok (last_busy_end c) m (ths ! j)" if "j < length ths" "j \<noteq> i" for j
      using inv_loc [OF assms(1) that(1)] f(1) cnt_0 [of holds_open ths j] cnt_0 [of holds_shut ths j] that(1)
      by (intro loc_ok_feed [OF _ _ _ le(1)]) simp_all
  qed (use l le in simp)
  ultimately show ?thesis using assms(1-3) f by (simp add: stat_inv_def cnt_upd)
qed


lemma recorded_same:
  assumes "i < length ths" "ival p = ival (ths ! i)"
  shows "recorded (ths[i := p]) = recorded ths"
proof -
  have "ival (ths ! i) \<subseteq> recorded ths" using assms(1) by (auto simp: recorded_nth)
  then show ?thesis using assms recorded_upd [of i ths p] by auto
qed

lemma inv_leave:
  assumes "stat_inv c ths" "i < length ths" "ths ! i = CFed st e cur" "1 < cur" "inflight c = cur"
  shows "stat_inv (c\<lparr>inflight := cur - 1\<rparr>) (ths[i := CLeft st e])"
proof -
  have t: "in_flight (ths ! i)" using assms by simp
  note f = inv_active [OF assms(1,2) t]
  have l: "st = last_busy_end c" "e \<le> max_end c" using inv_loc [OF assms(1,2)] assms(3) by simp_all
  have u: "unat cur = cnt in_flight ths" using inv_free(1) [OF assms(1) f(1)] assms(5) by simp
  then have a: "1 < cnt in_flight ths" using assms(4) by (simp add: word_less_nat_alt)
  have w: "cur - 1 = of_nat (cnt in_flight ths - 1)" 
    using a by (simp add: of_nat_diff flip: u)
  have "recorded (ths[i := CLeft st e]) = recorded ths \<union> {unat st..<unat e}"
    using assms recorded_upd [of i ths "CLeft st e"] by simp
  then have "recorded (ths[i := CLeft st e]) \<inter> {..<unat (last_busy_end c)} =
             recorded ths \<inter> {..<unat (last_busy_end c)}"
    using l(1) by auto
  moreover have "\<forall>j<length (ths[i := CLeft st e]). loc_ok (last_busy_end c) (max_end c) (ths[i := CLeft st e] ! j)"
    using inv_locs [OF assms(1)] l by (intro loc_ok_upd) auto
  ultimately show ?thesis using assms f a w by (simp add: stat_inv_def cnt_upd)
qed

lemma inv_close:
  assumes "stat_inv c ths" "i < length ths" "ths ! i = CFed st e cur" "inflight c = 1"
  shows "stat_inv (c\<lparr>inflight := ANE_STATS_INFLIGHT_TRANS\<rparr>) (ths[i := CClose st e])"
proof -
  have t: "in_flight (ths ! i)" using assms by simp
  note f = inv_active [OF assms(1,2) t]
  have l: "st = last_busy_end c" "e \<le> max_end c" using inv_loc [OF assms(1,2)] assms(3) by simp_all
  have a: "cnt in_flight ths = 1" using inv_free(1) [OF assms(1) f(1)] assms(4) by simp
  have "recorded (ths[i := CClose st e]) = recorded ths"
    using assms recorded_upd [of i ths "CClose st e"] by simp
  moreover have "\<forall>j<length (ths[i := CClose st e]). loc_ok (last_busy_end c) (max_end c) (ths[i := CClose st e] ! j)"
    using inv_locs [OF assms(1)] l by (intro loc_ok_upd) auto
  ultimately show ?thesis using assms f a by (simp add: stat_inv_def cnt_upd)
qed

lemma fold_measure:
  assumes "R \<subseteq> {..<m}"
  shows "card (R \<union> {l..<m}) = card (R \<inter> {..<l}) + (m - l)"
proof -
  have "R \<union> {l..<m} = (R \<inter> {..<l}) \<union> {l..<m}" using assms by auto
  moreover have "finite (R \<inter> {..<l})" by simp
  ultimately show ?thesis using card_Un_disjoint [of "R \<inter> {..<l}" "{l..<m}"] by (simp add: disjoint_iff)
qed

lemma inv_fold:
  assumes "stat_inv c ths" "i < length ths" "ths ! i = CSpan st s fe"
  shows "stat_inv (if fe > s then c\<lparr>busy_ns := busy_ns c + (fe - s)\<rparr> else c) (ths[i := CFolded st fe])"
    (is "stat_inv ?c ?ths")
proof -
  have t: "holds_open (ths ! i) \<or> holds_shut (ths ! i)" using assms by simp
  note h = inv_holder [OF assms(1,2) t]
  have l: "st = last_busy_end c" "s = last_busy_end c" "fe = max_end c"
    using inv_loc [OF assms(1,2)] assms(3) by simp_all
  have R: "recorded ths \<subseteq> {..<unat fe}" using recorded_bound [OF inv_locs [OF assms(1)]] l by simp
  have r: "recorded ?ths = recorded ths \<union> {unat s..<unat fe}"
    using assms l recorded_upd [of i ths "CFolded st fe"] by simp
  have m: "card (recorded ?ths) = unat (busy_ns c) + (unat fe - unat s)"
    using fold_measure [OF R, of "unat s"] r assms(1) h assms(3) l by (simp add: stat_inv_def)
  have "recorded ?ths \<subseteq> {..<unat fe}" using r R by auto
  then have "card (recorded ?ths) \<le> unat fe" by (metis card_lessThan card_mono finite_lessThan)
  then have "unat (busy_ns c) + (unat fe - unat s) < 18446744073709551616"
    using m unat_lt_2p64 [of fe] by simp
  then have "unat (busy_ns ?c) = card (recorded ?ths)"
    using m by (auto simp: unat_sub word_less_nat_alt word_le_nat_alt unat_add_exact)
  moreover have "\<forall>j<length ?ths. loc_ok (last_busy_end c) (max_end c) (?ths ! j)"
    using inv_locs [OF assms(1)] l by (intro loc_ok_upd) auto
  ultimately show ?thesis using assms(1-3) h by (simp add: stat_inv_def cnt_upd)
qed

lemma inv_release:
  assumes "stat_inv c ths" "i < length ths" "ths ! i = CFolded st fe"
  shows "stat_inv (c\<lparr>inflight := 0\<rparr>) (ths[i := CLeft st fe])"
proof -
  have t: "holds_open (ths ! i) \<or> holds_shut (ths ! i)" using assms by simp
  note h = inv_holder [OF assms(1,2) t]
  have l: "fe = max_end c" using inv_loc [OF assms(1,2)] assms(3) by simp
  have "recorded (ths[i := CLeft st fe]) = recorded ths"
    using assms recorded_same [of i ths "CLeft st fe"] by simp
  moreover have "\<forall>j<length (ths[i := CLeft st fe]). loc_ok (last_busy_end c) (max_end c) (ths[i := CLeft st fe] ! j)"
    using inv_locs [OF assms(1)] l by (intro loc_ok_upd) auto
  ultimately show ?thesis using assms h by (simp add: stat_inv_def cnt_upd)
qed

lemma inv_commit:
  assumes "stat_inv c ths" "i < length ths" "ths ! i = CLeft st en"
  shows "stat_inv (c\<lparr>jobs := jobs c + 1\<rparr>) (ths[i := CDone st en])"
proof -
  have l: "en \<le> max_end c" using inv_loc [OF assms(1,2)] assms(3) by simp
  have "recorded (ths[i := CDone st en]) = recorded ths"
    using assms recorded_same [of i ths "CDone st en"] by simp
  moreover have "\<forall>j<length (ths[i := CDone st en]). loc_ok (last_busy_end c) (max_end c) (ths[i := CDone st en] ! j)"
    using inv_locs [OF assms(1)] l by (intro loc_ok_upd) auto
  ultimately show ?thesis using assms by (simp add: stat_inv_def cnt_upd)
qed


lemma word_is_1: "\<not> 1 < (x :: u32) \<Longrightarrow> x \<noteq> 0 \<Longrightarrow> x = 1"
  by (metis linorder_neqE word_less_1)

lemma stat_inv_advance:
  assumes inv: "stat_inv c ths" and i: "i < length ths"
    and st: "advance e c (ths ! i) = (c', p)"
  shows "stat_inv c' (ths[i := p])"
proof (cases "ths ! i")
  case (BRead x cur)
  then show ?thesis
    using st inv_open [OF inv i BRead] inv_join [OF inv i BRead]
      stat_inv_silent [OF inv i, of "BRead x (inflight c)"]
    by (auto split: if_splits)
next
  case (BOpen x)
  have "max_end c \<le> (if max_end c < x then x else max_end c)" by (simp add: order_less_imp_le)
  then show ?thesis using st BOpen stat_inv_silent [OF inv i, of p] by auto
next
  case (BGot x)
  then show ?thesis using st inv_latch [OF inv i BGot] by auto
next
  case BLatched
  then show ?thesis using st inv_publish [OF inv i BLatched] by auto
next
  case BIn
  then show ?thesis using st stat_inv_silent [OF inv i, of p] by auto
next
  case (Run x)
  then have "in_flight (ths ! i)" by simp
  note f = inv_active [OF inv i this]
  have "inflight c \<noteq> 0" using inv_free(1) [OF inv f(1)] f(2) by auto
  then show ?thesis
    using st Run inv_loc [OF inv i] stat_inv_silent [OF inv i, of p] by auto
next
  case (CRead x e' cur)
  then show ?thesis using st inv_feed [OF inv i CRead] by auto
next
  case (CFed x e' cur)
  then have "in_flight (ths ! i)" by simp
  note f = inv_active [OF inv i this]
  have nz: "inflight c \<noteq> 0" using inv_free(1) [OF inv f(1)] f(2) by auto
  have l: "loc_ok (last_busy_end c) (max_end c) (CFed x e' cur)" using inv_loc [OF inv i] CFed by simp
  have s: "stat_inv c (ths[i := CFed x e' (inflight c)])"
    using nz l CFed stat_inv_silent [OF inv i, of "CFed x e' (inflight c)"] by auto
  show ?thesis
    using st CFed s l word_is_1 [of cur] inv_leave [OF inv i CFed] inv_close [OF inv i CFed] by (auto split: if_splits)
next
  case (CClose x e')
  then show ?thesis
    using st inv_loc [OF inv i] stat_inv_silent [OF inv i, of p] by auto
next
  case (CSpan x s fe)
  then show ?thesis using st inv_fold [OF inv i CSpan] by (auto split: if_splits)
next
  case (CFolded x fe)
  then show ?thesis using st inv_release [OF inv i CFolded] by auto
next
  case (CLeft x en)
  then show ?thesis using st inv_commit [OF inv i CLeft] by auto
next
  case (CDone x en)
  then have "ths[i := p] = ths" "c' = c" using st i by (auto simp: list_update_same_conv)
  then show ?thesis using inv by simp
qed

lemma stat_reach_inv: "stat_reach (c, ths) \<Longrightarrow> stat_inv c ths"
  unfolding stat_reach_def
proof (induction "(c, ths)" arbitrary: c ths rule: rtranclp_induct)
  case base
  then show ?case
    by (auto simp: ane_stats_counters_init_def stat_inv_def recorded_def trans_val)
next
  case (step s)
  obtain c0 ths0 where s: "s = (c0, ths0)" by (cases s)
  then have "stat_inv c0 ths0" using step.hyps(3) by simp
  then show ?case using step.hyps(2) unfolding s
    by (elim stat_stepE) (auto intro: stat_inv_spawn stat_inv_advance)
qed

text \<open>C12: whatever the order in which concurrent submissions run the atomic accesses of begin and
  complete, and whatever (even stale) submit and end samples they pass, once no submission is in
  flight the accumulated busy time is exactly the number of nanoseconds covered by at least one
  recorded start-to-end interval: overlaps are counted once, gaps not at all, and the 64-bit
  accumulation does not wrap.\<close>

theorem stats_busy_is_union:
  assumes "stat_reach (c, ths)" "inflight c = 0"
  shows "unat (busy_ns c) = card (\<Union>p\<in>set ths. ival p)"
proof -
  have inv: "stat_inv c ths" using assms(1) by (rule stat_reach_inv)
  have "inflight c \<noteq> ANE_STATS_INFLIGHT_TRANS" using assms(2) by (simp add: ANE_STATS_INFLIGHT_TRANS_def)
  note f = inv_not_trans [OF inv this]
  have "cnt in_flight ths = 0" using inv_free(1) [OF inv f] assms(2) by simp
  then show ?thesis using inv f by (simp add: stat_inv_def recorded_def)
qed

text \<open>C26: in every interleaving, outside the open/close transition the in-flight counter is the
  number of submissions between their begin and their complete, inside it exactly one submission
  holds the transition and none is in flight, and the job counter is the number of completed
  submissions: a begin/complete pair is counted once and never lost.\<close>

theorem stats_counters_balanced:
  assumes "stat_reach (c, ths)"
  shows "(if inflight c = ANE_STATS_INFLIGHT_TRANS
          then cnt holds_open ths + cnt holds_shut ths = 1 \<and> cnt in_flight ths = 0
          else unat (inflight c) = cnt in_flight ths) \<and>
         unat (jobs c) = cnt (\<lambda>p. \<exists>st en. p = CDone st en) ths"
proof -
  have inv: "stat_inv c ths" using assms by (rule stat_reach_inv)
  have "cnt (\<lambda>p. \<exists>st en. p = CDone st en) ths < 4294967295"
    using inv cnt_le [of "\<lambda>p. \<exists>st en. p = CDone st en" ths] by (simp add: stat_inv_def trans_val)
  then have "unat (jobs c) = cnt (\<lambda>p. \<exists>st en. p = CDone st en) ths"
    using inv by (simp add: stat_inv_def unat_of_nat)
  moreover have "cnt holds_open ths + cnt holds_shut ths = 1 \<and> cnt in_flight ths = 0"
    if "inflight c = ANE_STATS_INFLIGHT_TRANS"
  proof -
    have "cnt holds_open ths + cnt holds_shut ths \<noteq> 0" using inv_free(2) [OF inv] that by (intro notI) simp
    then show ?thesis using inv unfolding stat_inv_def by linarith
  qed
  ultimately show ?thesis using inv_free(1) [OF inv inv_not_trans [OF inv]] by auto
qed

lemma card_below: "card (R \<inter> {..<n :: nat}) \<le> n"
  by (metis card_lessThan card_mono finite_lessThan inf_le2)

lemma card_span: "card (R \<inter> {..<n :: nat}) \<le> card (R \<inter> {..<l}) + (n - l)"
proof -
  have "card (R \<inter> {..<n}) \<le> card (R \<inter> {..<l} \<union> {l..<n})" by (rule card_mono) auto
  also have "\<dots> \<le> card (R \<inter> {..<l}) + (n - l)" using card_Un_le by (metis card_atLeastLessThan)
  finally show ?thesis .
qed


subsection \<open>One caller at a time\<close>

lemma step_last: "advance e c p = (c', p') \<Longrightarrow> stat_step (c, ths @ [p]) (c', ths @ [p'])"
  using advances [of "length ths" "ths @ [p]" e c c' p'] by simp

lemma steps_last:
  "stat_step\<^sup>*\<^sup>* s (c, ths @ [p]) \<Longrightarrow> advance e c p = (c', p') \<Longrightarrow> stat_step\<^sup>*\<^sup>* s (c', ths @ [p'])"
  by (meson rtranclp.rtrancl_into_rtrancl step_last)

lemma begin_steps:
  assumes "begin_counters c x = Some c'" "Suc (length ths) < unat ANE_STATS_INFLIGHT_TRANS"
  shows "stat_step\<^sup>*\<^sup>* (c, ths) (c', ths @ [Run (last_busy_end c')])"
proof -
  have nt: "inflight c \<noteq> ANE_STATS_INFLIGHT_TRANS"
    using assms(1) by (simp add: begin_counters_def split: if_splits)
  have s0: "stat_step\<^sup>*\<^sup>* (c, ths) (c, ths @ [BRead x (inflight c)])"
    using spawn [OF assms(2)] by blast
  have "stat_step\<^sup>*\<^sup>* (c, ths) (c', ths @ [BIn])"
  proof (cases "inflight c = 0")
    case True
    then have c': "c' = c\<lparr>last_busy_end := if x > max_end c then x else max_end c, inflight := 1\<rparr>"
      using assms(1) nt by (simp add: begin_counters_def)
    have "stat_step\<^sup>*\<^sup>* (c, ths) (c\<lparr>inflight := ANE_STATS_INFLIGHT_TRANS\<rparr>, ths @ [BOpen x])"
      using True nt by (intro steps_last [OF s0, of undefined]) (auto simp: ANE_STATS_INFLIGHT_TRANS_def)
    from steps_last [OF steps_last [OF steps_last [OF this]], of undefined] show ?thesis
      unfolding c' by simp
  next
    case False
    then show ?thesis
      using assms(1) nt by (intro steps_last [OF s0, of undefined]) (auto simp: begin_counters_def)
  qed
  then show ?thesis by (rule steps_last [where e = undefined]) simp
qed

lemma complete_steps:
  assumes "complete_counters c e = Some (c', en)"
  shows "stat_step\<^sup>*\<^sup>* (c, ths @ [Run st]) (c'\<lparr>jobs := jobs c' + 1\<rparr>, ths @ [CDone st en])"
proof -
  define m where "m = (if e > max_end c then e else max_end c)"
  have nt: "inflight c \<noteq> ANE_STATS_INFLIGHT_TRANS"
    using assms by (simp add: complete_counters_def Let_def split: if_splits)
  have "stat_step\<^sup>*\<^sup>* (c, ths @ [Run st]) (c, ths @ [CRead st e (inflight c)])"
    by (rule r_into_rtranclp) (rule step_last [where e = e], simp)
  then have s1: "stat_step\<^sup>*\<^sup>* (c, ths @ [Run st]) (c\<lparr>max_end := m\<rparr>, ths @ [CFed st e (inflight c)])"
    by (rule steps_last [where e = undefined]) (simp add: m_def)
  have "stat_step\<^sup>*\<^sup>* (c, ths @ [Run st]) (c', ths @ [CLeft st en])"
  proof (cases "inflight c = 1")
    case True
    define t where "t = c\<lparr>max_end := m, inflight := ANE_STATS_INFLIGHT_TRANS\<rparr>"
    define f where "f = (if m > last_busy_end t then t\<lparr>busy_ns := busy_ns t + (m - last_busy_end t)\<rparr> else t)"
    have me: "\<not> m < e" by (simp add: m_def)
    have "stat_step\<^sup>*\<^sup>* (c, ths @ [Run st]) (t, ths @ [CClose st e])"
      using True by (intro steps_last [OF s1, of undefined]) (auto simp: t_def ANE_STATS_INFLIGHT_TRANS_def)
    then have "stat_step\<^sup>*\<^sup>* (c, ths @ [Run st]) (t, ths @ [CSpan st (last_busy_end t) m])"
      by (rule steps_last [where e = undefined]) (simp add: t_def me)
    then have "stat_step\<^sup>*\<^sup>* (c, ths @ [Run st]) (f, ths @ [CFolded st m])"
      by (rule steps_last [where e = undefined]) (simp add: f_def)
    then have "stat_step\<^sup>*\<^sup>* (c, ths @ [Run st]) (f\<lparr>inflight := 0\<rparr>, ths @ [CLeft st m])"
      by (rule steps_last [where e = undefined]) simp
    moreover have "c' = f\<lparr>inflight := 0\<rparr>" "en = m"
      using assms True nt me
      by (auto simp: complete_counters_def Let_def f_def t_def m_def [symmetric] word_gt_0
          split: if_splits)
    ultimately show ?thesis by simp
  next
    case False
    then show ?thesis
      using assms nt word_is_1 [of "inflight c"]
      by (intro steps_last [OF s1, of undefined])
        (auto simp: complete_counters_def Let_def m_def split: if_splits)
  qed
  then show ?thesis by (rule steps_last [where e = undefined]) simp
qed


text \<open>C28: the sequential begin and complete are runs of the interleaved steps of one submission,
  so everything shown of the interleavings holds of the functions as the drivers call them: a
  begin adds one running submission whose slot start is the stored latch, and the matching complete
  turns it into a completed one whose recorded end is the one written to the slot.\<close>

theorem stats_calls_refine_steps:
  assumes "Suc (length ths) < unat ANE_STATS_INFLIGHT_TRANS"
    and b: "ane_stats_begin c r x tasks = Some (ticket, c1, r1)"
    and e: "ane_stats_complete c1 r1 ticket e rc tmst = Some (c2, r2)"
  shows "stat_step\<^sup>*\<^sup>* (c, ths) (c1, ths @ [Run (last_busy_end c1)]) \<and>
    (\<exists>en sl. slots r2 = Some sl \<and> slot_of r2 ticket < length sl \<and>
       start_ns (sl ! slot_of r2 ticket) = last_busy_end c1 \<and> end_ns (sl ! slot_of r2 ticket) = en \<and>
       stat_step\<^sup>*\<^sup>* (c1, ths @ [Run (last_busy_end c1)]) (c2, ths @ [CDone (last_busy_end c1) en]))"
proof -
  have b': "begin_counters c x = Some c1"
    using b by (auto simp: ane_stats_begin_def Let_def split: option.splits)
  obtain c3 en where e': "complete_counters c1 e = Some (c3, en)" "c2 = c3\<lparr>jobs := jobs c3 + 1\<rparr>"
    using e by (auto simp: ane_stats_complete_def split: option.splits prod.splits)
  have "\<exists>sl. slots r2 = Some sl \<and> slot_of r2 ticket < length sl \<and>
       start_ns (sl ! slot_of r2 ticket) = last_busy_end c1 \<and> end_ns (sl ! slot_of r2 ticket) = en"
    using b e e' b'
    by (auto simp: ane_stats_begin_def ane_stats_complete_def put_slot_def slot_of_def Let_def
        split: option.splits prod.splits if_splits)
  then show ?thesis
    using begin_steps [OF b' assms(1)] complete_steps [OF e'(1), of ths "last_busy_end c1"] e'(2) by blast
qed

text \<open>The ring as probe leaves it: the slots allocated, one per index the mask can give.\<close>

definition ring_wf :: "stats_ring \<Rightarrow> bool" where
  "ring_wf r \<longleftrightarrow> (case slots r of None \<Rightarrow> False | Some sl \<Rightarrow> length sl = Suc (unat (mask r))) \<and>
     unat (head r) < 2 ^ 63 - 1"

lemma slot_of_upd [simp]: "slot_of (r\<lparr>head := h\<rparr>) t = slot_of r t" "slot_of (r\<lparr>slots := v\<rparr>) t = slot_of r t"
  by (simp_all add: slot_of_def)

lemma slot_of_le: "slot_of r t \<le> unat (mask r)"
  unfolding slot_of_def by (metis unat_ucast_32_64 word_and_le1 word_le_nat_alt)

definition timeline_live :: "stats_ring \<Rightarrow> nat" where
  "timeline_live r = unat (if head r < ucast (mask r) + 1 then head r else ucast (mask r) + 1)"

lemma timeline_live_bounds:
  "timeline_live r \<le> unat (head r)" "head r \<noteq> 0 \<Longrightarrow> 0 < timeline_live r"
proof -
  have "unat (ucast (mask r) + 1 :: u64) = Suc (unat (mask r))"
    using unat_lt_2p32 [of "mask r"] by (simp add: unat_add_exact)
  then show "timeline_live r \<le> unat (head r)" "head r \<noteq> 0 \<Longrightarrow> 0 < timeline_live r"
    by (auto simp: timeline_live_def word_less_nat_alt unat_gt_0)
qed

lemma ticket_neq:
  assumes "0 < i" "i \<le> unat (h :: u64)" "unat h < 2 ^ 63"
  shows "2 * (h - of_nat i) \<noteq> 2 * h"
proof
  assume "2 * (h - of_nat i) = 2 * h"
  then have "unat (2 * (of_nat i :: u64)) = 0" by (simp add: algebra_simps)
  moreover have "unat (2 * (of_nat i :: u64)) = 2 * i"
    using assms unat_lt_2p64 [of h] by (simp add: unat_word_ariths unat_of_nat)
  ultimately show False using assms(1) by simp
qed

lemma timeline_line_seq: "l \<in> set (timeline_line r sl t) \<Longrightarrow> fst l = 2 * t"
  by (auto simp: timeline_line_def Let_def split: if_splits)

text \<open>The lines of a ring: the newest ticket's own, then lines with other sequence numbers.\<close>

lemma timeline_split:
  assumes "slots r = Some sl" "head r \<noteq> 0" "unat (head r) < 2 ^ 63"
  shows "\<exists>rest. ane_timeline_show r = Some (timeline_line r sl (head r) @ rest) \<and>
           2 * head r \<notin> fst ` set rest"
proof -
  let ?l = "\<lambda>i. timeline_line r sl (head r - of_nat i)"
  have "[0..<timeline_live r] = 0 # [1..<timeline_live r]"
    using timeline_live_bounds(2) [OF assms(2)] by (simp add: upt_conv_Cons)
  then have "ane_timeline_show r = Some (?l 0 @ concat (map ?l [1..<timeline_live r]))"
    using assms(1) by (simp add: ane_timeline_show_def Let_def timeline_live_def)
  moreover have "2 * head r \<notin> fst ` set (concat (map ?l [1..<timeline_live r]))"
  proof
    assume "2 * head r \<in> fst ` set (concat (map ?l [1..<timeline_live r]))"
    then obtain i l where i: "i \<in> set [1..<timeline_live r]" "l \<in> set (?l i)" "2 * head r = fst l"
      unfolding set_concat set_map by blast
    have "2 * (head r - of_nat i) = 2 * head r" using timeline_line_seq [OF i(2)] i(3) by argo
    moreover have "0 < i" "i \<le> unat (head r)"
      using i(1) timeline_live_bounds(1) [of r] by simp_all
    ultimately show False using ticket_neq [of i "head r"] assms(3) by blast
  qed
  ultimately show ?thesis by auto
qed


subsection \<open>Concrete runs\<close>

definition ex_ring :: stats_ring where
  "ex_ring = (snd (ane_stats_counters_init 1))\<lparr>slots := Some [zero_entry, zero_entry]\<rparr>"

definition ex_ctrs :: stats_counters where
  "ex_ctrs = fst (ane_stats_counters_init 1)"

lemmas ex_stats = ex_ring_def ex_ctrs_def ane_stats_counters_init_def ane_stats_begin_def
  begin_counters_def put_slot_def slot_of_def ane_stats_complete_def complete_counters_def
  ANE_STATS_INFLIGHT_TRANS_def

definition ex_c1 :: stats_counters where
  "ex_c1 = ex_ctrs\<lparr>last_busy_end := 10, inflight := 1\<rparr>"

definition ex_c2 :: stats_counters where
  "ex_c2 = ex_ctrs\<lparr>last_busy_end := 10, max_end := 25, busy_ns := 15, jobs := 1\<rparr>"

lemma ex_begin: "begin_counters ex_ctrs 10 = Some ex_c1"
  and ex_complete: "complete_counters ex_c1 25 = Some (ex_c2\<lparr>jobs := 0\<rparr>, 25)"
  by (simp_all add: ex_stats ex_c1_def ex_c2_def)

lemma ex_reach1: "stat_reach (ex_c1, [Run 10])"
  using begin_steps [OF ex_begin, of "[]"]
  by (simp add: stat_reach_def trans_val ex_ctrs_def ex_c1_def ane_stats_counters_init_def)

lemma ex_reach2: "stat_reach (ex_c2, [CDone 10 25])"
  using complete_steps [OF ex_complete, of "[]" 10] ex_reach1
  by (simp add: stat_reach_def ex_c2_def ex_ctrs_def ane_stats_counters_init_def)

theorem stats_busy_is_union_witness:
  "unat (busy_ns ex_c2) = card (\<Union>p\<in>set [CDone 10 25]. ival p) \<and> busy_ns ex_c2 = 15"
  using stats_busy_is_union [OF ex_reach2]
  by (simp add: ex_c2_def ex_ctrs_def ane_stats_counters_init_def)

theorem stats_counters_balanced_witness:
  "unat (inflight ex_c1) = cnt in_flight [Run 10] \<and> unat (jobs ex_c1) = 0"
  using stats_counters_balanced [OF ex_reach1]
  by (simp add: ex_c1_def ex_ctrs_def ane_stats_counters_init_def ANE_STATS_INFLIGHT_TRANS_def)


lemma ex_calls:
  "\<exists>r1 r2. ane_stats_begin ex_ctrs ex_ring 10 1 = Some (1, ex_c1, r1) \<and>
           ane_stats_complete ex_c1 r1 1 25 0 0 = Some (ex_c2, r2)"
proof -
  have "ex_c2\<lparr>jobs := 0\<rparr>\<lparr>jobs := 1\<rparr> = ex_c2" by (simp add: ex_c2_def)
  then show ?thesis
    by (simp add: ane_stats_begin_def ane_stats_complete_def ex_begin ex_complete put_slot_def slot_of_def
        ex_ring_def ane_stats_counters_init_def)
qed

theorem stats_calls_refine_steps_witness:
  "stat_step\<^sup>*\<^sup>* (ex_ctrs, []) (ex_c1, [Run 10])"
  using ex_calls stats_calls_refine_steps [of "[]" ex_ctrs ex_ring 10 1 1 ex_c1 _ 25 0 0 ex_c2]
  by (force simp: trans_val ex_c1_def)


lemma advance_iter:
  "stat_step\<^sup>*\<^sup>* (c, [p]) (map_prod id (\<lambda>q. [q]) (((\<lambda>(c, p). advance 0 c p) ^^ n) (c, p)))"
proof (induction n)
  case (Suc n)
  then show ?case
    using step_last [of 0 _ _ _ _ "[]"]
    by (cases "((\<lambda>(c, p). advance 0 c p) ^^ n) (c, p)")
      (auto intro: rtranclp.rtrancl_into_rtrancl simp: map_prod_def split: prod.splits)
qed simp

text \<open>C40: the reported busy time can go back.  A completer samples its end at 25, a reader runs at 30
  before the completer folds, and a second reader runs at 40 after it: the first is told 20 busy
  nanoseconds, the second 15.\<close>

theorem snapshot_can_decrease:
  "stat_reach (ex_c1, [CRead 10 25 1]) \<and> stat_step\<^sup>*\<^sup>* (ex_c1, [CRead 10 25 1]) (ex_c2, [CDone 10 25]) \<and>
   ane_stats_snapshot ex_c1 30 = Some 20 \<and> ane_stats_snapshot ex_c2 40 = Some 15"
proof (intro conjI)
  have i: "inflight ex_c1 = 1" by (simp add: ex_c1_def)
  then have "stat_step (ex_c1, [Run 10]) (ex_c1, [CRead 10 25 1])"
    using step_last [of 25 ex_c1 "Run 10" ex_c1 _ "[]"] by simp
  then show "stat_reach (ex_c1, [CRead 10 25 1])"
    using ex_reach1 unfolding stat_reach_def by (rule rtranclp.rtrancl_into_rtrancl [rotated])
  show "stat_step\<^sup>*\<^sup>* (ex_c1, [CRead 10 25 1]) (ex_c2, [CDone 10 25])"
    using advance_iter [of ex_c1 "CRead 10 25 1" "Suc (Suc (Suc (Suc (Suc (Suc 0)))))"]
    by (simp add: ex_c1_def ex_c2_def ex_ctrs_def ane_stats_counters_init_def
        ANE_STATS_INFLIGHT_TRANS_def)
qed (simp_all add: ane_stats_snapshot_def ex_c1_def ex_c2_def ex_ctrs_def ane_stats_counters_init_def
    ANE_STATS_INFLIGHT_TRANS_def)

end
