(* ===== verification/Ane_Command.thy ===== *)
theory Ane_Command
  imports Ane_Legacy Ane_Stats
begin

text \<open>
  The command path of the M2 driver (\<^verbatim>\<open>ane/t6021/ane_t6021_rtclient_main.c\<close>): the
  address check on memory the firmware names, the drain of the target-to-host rings, the wait for
  the finish event of a call with its read-only trace, and \<^verbatim>\<open>ane_rtclient_command\<close>, which
  brackets an exchange with the statistics producer and quarantines the device on every failure.

  The environment is extended by a clock and by the outcome of mapping the power-state words.
  The field \<open>faulted\<close> records that the code dereferenced a NULL pointer; nothing is claimed of
  what the model does after that.
\<close>

record cmd_env = fw_env +
  now_ns :: "trace \<Rightarrow> u64"
  ps_mapped :: "trace \<Rightarrow> bool"           \<comment> \<open>\<^verbatim>\<open>ioremap_np\<close> succeeded\<close>

definition CSNE_CMD_SET_DYNAMIC_POWERGATE :: u16 where "CSNE_CMD_SET_DYNAMIC_POWERGATE = 0x2d"
definition CSNE_CMD_LOAD_PROGRAM :: u16 where "CSNE_CMD_LOAD_PROGRAM = 0x200"
definition CSNE_CMD_DESTROY_PROGRAM :: u16 where "CSNE_CMD_DESTROY_PROGRAM = 0x201"
definition CSNE_CMD_CREATE_PROCESS :: u16 where "CSNE_CMD_CREATE_PROCESS = 0x202"
definition CSNE_CMD_TERMINATE_PROCESS :: u16 where "CSNE_CMD_TERMINATE_PROCESS = 0x203"
definition CSNE_CMD_PROCEDURE_CALL :: u16 where "CSNE_CMD_PROCEDURE_CALL = 0x204"

definition ANE_TRACE_RECS :: nat where "ANE_TRACE_RECS = 262144"
definition ANE_PMGR_PS_LAST_OFF :: nat where "ANE_PMGR_PS_LAST_OFF = 0x30"
definition ANE_CALL_COOKIE :: u64 where "ANE_CALL_COOKIE = 0xADD0"
definition ANE_T2H_CALL_COOKIE_OFF :: u64 where "ANE_T2H_CALL_COOKIE_OFF = 0x08"
definition ANE_T2H_CALL_STATE_OFF :: u64 where "ANE_T2H_CALL_STATE_OFF = 0x1c"
definition ANE_T2H_CALL_FINISHED :: u32 where "ANE_T2H_CALL_FINISHED = 1"

datatype tr_kind = TR_CALL | TR_ACK | TR_TD | TR_EVENT | TR_GATE | TR_DONE

record trace_rec =
  t_ns :: u64
  word :: u32
  kind :: tr_kind
  call :: u16

record td_trace =
  capacity :: nat
  recs :: "trace_rec list"
  dropped :: u32
  calls :: u32

record drv = rtc +
  trace_td :: bool
  tracing :: bool
  td_trace :: "td_trace option"
  trace_td_off :: nat            \<comment> \<open>of the SoC description; 0 when it has none\<close>
  dyn_pg :: bool
  call_settle_us :: nat
  stats_on :: bool
  stats_ctrs :: stats_counters
  stats_ring :: stats_ring
  faulted :: bool

definition fault :: "('m drv_scheme, unit) state" where
  "fault = modify (\<lambda>s. s\<lparr>faulted := True\<rparr>)"

section \<open>The call trace\<close>

definition trace_put :: "u64 \<Rightarrow> tr_kind \<Rightarrow> u32 \<Rightarrow> td_trace \<Rightarrow> td_trace" where
  "trace_put now k w t =
     (if length (recs t) = capacity t then t\<lparr>dropped := dropped t + 1\<rparr>
      else t\<lparr>recs := recs t @ [\<lparr>t_ns = now, word = w, kind = k, call = ucast (calls t)\<rparr>]\<rparr>)"

definition ane_t6021_trace_add :: "'e cmd_env_scheme \<Rightarrow> tr_kind \<Rightarrow> u32 \<Rightarrow> ('m drv_scheme, unit) state" where
  "ane_t6021_trace_add E k w = do {
     s \<leftarrow> get_st;
     case td_trace s of
       None \<Rightarrow> fault
     | Some t \<Rightarrow> modify (\<lambda>s. s\<lparr>td_trace := Some (trace_put (now_ns E (trace s)) k w t)\<rparr>) }"

text \<open>\<open>val\<close> is what \<^verbatim>\<open>kstrtobool\<close> made of the text, \<open>zalloc\<close> whether the buffer could be
  allocated.\<close>

definition ane_t6021_trace_set :: "errno + bool \<Rightarrow> bool \<Rightarrow> ('m drv_scheme, errno option) state" where
  "ane_t6021_trace_set val zalloc =
     (case val of
        Inl e \<Rightarrow> ret (Some e)
      | Inr on \<Rightarrow> do {
          s \<leftarrow> get_st;
          if on \<and> td_trace s = None \<and> \<not> zalloc then ret (Some ENOMEM)
          else do {
            guarded (on \<and> td_trace s = None)
              (modify (\<lambda>s. s\<lparr>td_trace := Some \<lparr>capacity = ANE_TRACE_RECS, recs = [], dropped = 0, calls = 0\<rparr>\<rparr>));
            guarded (on \<and> \<not> trace_td s)
              (modify (\<lambda>s. s\<lparr>td_trace := map_option (\<lambda>t. t\<lparr>recs := [], dropped := 0, calls := 0\<rparr>) (td_trace s)\<rparr>));
            modify (\<lambda>s. s\<lparr>trace_td := on\<rparr>);
            ret None } })"

section \<open>Memory the firmware names\<close>

definition ane_rtclient_validate_chman :: "'e fw_env_scheme \<Rightarrow> ('m rtc_scheme, unit) state" where
  "ane_rtclient_validate_chman E = do {
     ane \<leftarrow> get_st;
     if \<not> fw_present ane \<or> \<not> boot_ipc ane then ret ()
     else if boot_ipc_size ane < ANE_T6021_CHMAN_TOTAL then ret ()
     else do {
       emit Barrier;
       ane \<leftarrow> get_st;
       let bad = ane_t6021_chman_check (chman_table E (trace ane)) (boot_ipc_iova ane);
       modify (\<lambda>ane. ane\<lparr>chman_ok := (bad = 0)\<rparr>) } }"

definition buffer_cpu :: "u64 \<Rightarrow> u64 \<Rightarrow> legacy_buffer \<Rightarrow> u64 option" where
  "buffer_cpu iova len b =
     (if bcpu b \<noteq> 0 \<and> iova \<ge> bdma b \<and> iova - bdma b + len \<le> bsize b
      then Some (bcpu b + (iova - bdma b)) else None)"

fun first_some :: "('a \<Rightarrow> 'b option) \<Rightarrow> 'a list \<Rightarrow> 'b option" where
  "first_some f [] = None"
| "first_some f (x # xs) = (case f x of None \<Rightarrow> first_some f xs | Some y \<Rightarrow> Some y)"

definition ane_rtclient_fw_cpu :: "'m rtc_scheme \<Rightarrow> u64 \<Rightarrow> u64 \<Rightarrow> u64 option" where
  "ane_rtclient_fw_cpu ane iova len =
     (case first_some (buffer_cpu iova len) (take (legacy_allocated ane) (legacy_buffers ane)) of
        Some a \<Rightarrow> Some a
      | None \<Rightarrow>
          if iova \<ge> boot_ipc_iova ane \<and> iova - boot_ipc_iova ane + len \<le> boot_ipc_size ane
          then Some (boot_ipc_cpu ane + (iova - boot_ipc_iova ane)) else None)"

section \<open>Target-to-host rings\<close>

text \<open>The finish test on one IO_T2H slot.\<close>

definition t2h_event :: "'e cmd_env_scheme \<Rightarrow> nat \<Rightarrow> u64 \<Rightarrow> u64 \<Rightarrow> ('m drv_scheme, bool) state" where
  "t2h_event E ch hdr len = do {
     ane \<leftarrow> get_st;
     if ch = 6 \<and> len \<ge> ANE_T2H_CALL_STATE_OFF + 4 then
       (case ane_rtclient_fw_cpu ane hdr (ANE_T2H_CALL_STATE_OFF + 4) of
          None \<Rightarrow> ret False
        | Some ev \<Rightarrow> do {
            cookie \<leftarrow> rdl E (Mem (ev + ANE_T2H_CALL_COOKIE_OFF));
            if cookie \<noteq> ANE_CALL_COOKIE then ret False
            else do {
              v \<leftarrow> rdl E (Mem (ev + ANE_T2H_CALL_STATE_OFF));
              guarded (tracing ane) (ane_t6021_trace_add E TR_EVENT (ucast v));
              ret (ucast v = ANE_T2H_CALL_FINISHED) } })
     else ret False }"

primrec drain_loop :: "'e cmd_env_scheme \<Rightarrow> nat \<Rightarrow> nat \<Rightarrow> nat \<Rightarrow> bool \<Rightarrow> ('m drv_scheme, bool) state" where
  "drain_loop E ch 0 slot_i finished = ret finished"
| "drain_loop E ch (Suc n) slot_i finished = do {
     hdr \<leftarrow> rdl E (slot_word ch slot_i 0);
     len \<leftarrow> rdl E (slot_word ch slot_i 1);
     if hdr AND 1 \<noteq> 0 then ret finished
     else do {
       emit Barrier;
       f \<leftarrow> t2h_event E ch hdr len;
       wrl (slot_word ch slot_i 0) (hdr OR 1);
       emit Barrier;
       doorbell (cs_bit (ane_t6021_chman_layout ! ch));
       modify (\<lambda>ane. ane\<lparr>legacy_cmd_cursor := (legacy_cmd_cursor ane)[ch := next_slot ch slot_i]\<rparr>);
       drain_loop E ch n (next_slot ch slot_i) (finished \<or> f) } }"

definition ane_rtclient_drain_t2h :: "'e cmd_env_scheme \<Rightarrow> nat \<Rightarrow> ('m drv_scheme, bool) state" where
  "ane_rtclient_drain_t2h E ch = do {
     ane \<leftarrow> get_st;
     if \<not> fw_present ane \<or> \<not> boot_ipc ane then ret False
     else drain_loop E ch (cs_size (ane_t6021_chman_layout ! ch)) (legacy_cmd_cursor ane ! ch) False }"


section \<open>Completion wait\<close>

text \<open>The offset of the first power-state word that is not fully on, or the offset past the last.\<close>

fun ps_scan :: "'e cmd_env_scheme \<Rightarrow> nat list \<Rightarrow> ('m drv_scheme, nat) state" where
  "ps_scan E [] = ret (ANE_PMGR_PS_LAST_OFF + 8)"
| "ps_scan E (i # is) = do {
     v \<leftarrow> rdl E (Ps i);
     if v AND 0x3ff \<noteq> 0x3ff then ret i else ps_scan E is }"

definition ps_offs :: "nat list" where
  "ps_offs = [0, 8, 0x10, 0x18, 0x20, 0x28, 0x30]"

text \<open>The sampling state of the traced wait: last word, samples taken, last gate offset.\<close>

type_synonym td_state = "u32 \<times> u32 \<times> nat"

definition trace_record :: "'e cmd_env_scheme \<Rightarrow> td_state \<Rightarrow> nat \<Rightarrow> ('m drv_scheme, td_state) state" where
  "trace_record E st i = (case st of (lst, samples, gate) \<Rightarrow>
     if i > ANE_PMGR_PS_LAST_OFF then do {
       s \<leftarrow> get_st;
       v \<leftarrow> rdl E (Eng (trace_td_off s));
       guarded (ucast v \<noteq> lst) (ane_t6021_trace_add E TR_TD (ucast v));
       ret (ucast v, samples + 1, i) }
     else do {
       guarded (i \<noteq> gate) (ane_t6021_trace_add E TR_GATE (of_nat i));
       ret (lst, samples, i) })"

definition trace_sample :: "'e cmd_env_scheme \<Rightarrow> td_state \<Rightarrow> ('m drv_scheme, td_state) state" where
  "trace_sample E st = do { i \<leftarrow> ps_scan E ps_offs; trace_record E st i }"

definition traced_turn :: "'e cmd_env_scheme \<Rightarrow> bool \<Rightarrow> td_state \<Rightarrow> ('m drv_scheme, td_state) state" where
  "traced_turn E ps st = do {
     st' \<leftarrow> (if ps then trace_sample E st else ret st);
     emit Sleep;
     ret st' }"

text \<open>\<open>n\<close> further turns fit before the deadline; the first one is always made.\<close>

primrec traced_loop ::
  "'e cmd_env_scheme \<Rightarrow> bool \<Rightarrow> nat \<Rightarrow> td_state \<Rightarrow> ('m drv_scheme, bool \<times> td_state) state" where
  "traced_loop E ps 0 st = do {
     f \<leftarrow> ane_rtclient_drain_t2h E 6;
     if f then ret (True, st)
     else do { st' \<leftarrow> traced_turn E ps st; ret (False, st') } }"
| "traced_loop E ps (Suc n) st = do {
     f \<leftarrow> ane_rtclient_drain_t2h E 6;
     if f then ret (True, st)
     else do { st' \<leftarrow> traced_turn E ps st; traced_loop E ps n st' } }"

definition ane_rtclient_call_wait_traced :: "'e cmd_env_scheme \<Rightarrow> ('m drv_scheme, errno option) state" where
  "ane_rtclient_call_wait_traced E = do {
     s \<leftarrow> get_st;
     let ps = (\<not> dyn_pg s \<and> ps_mapped E (trace s));
     (f, st) \<leftarrow> traced_loop E ps (polls E (trace s)) (0xffffffff, 0, ANE_PMGR_PS_LAST_OFF + 8);
     g \<leftarrow> (if f then ret True else ane_rtclient_drain_t2h E 6);
     ane_t6021_trace_add E TR_DONE (fst (snd st));
     ret (if g then None else Some ETIMEDOUT) }"

primrec wait_loop :: "'e cmd_env_scheme \<Rightarrow> nat \<Rightarrow> ('m drv_scheme, bool) state" where
  "wait_loop E 0 = do {
     f \<leftarrow> ane_rtclient_drain_t2h E 6;
     if f then ret True else do { emit Sleep; ret False } }"
| "wait_loop E (Suc n) = do {
     f \<leftarrow> ane_rtclient_drain_t2h E 6;
     if f then ret True else do { emit Sleep; wait_loop E n } }"

definition ane_rtclient_call_wait :: "'e cmd_env_scheme \<Rightarrow> ('m drv_scheme, errno option) state" where
  "ane_rtclient_call_wait E = do {
     s \<leftarrow> get_st;
     if tracing s then ane_rtclient_call_wait_traced E
     else do {
       f \<leftarrow> wait_loop E (polls E (trace s));
       g \<leftarrow> (if f then ret True else ane_rtclient_drain_t2h E 6);
       ret (if g then None else Some ETIMEDOUT) } }"

section \<open>Commands\<close>

text \<open>Linux numbers of the errors, as the result code the timeline records.\<close>

primrec errno_num :: "errno \<Rightarrow> u32" where
  "errno_num EPERM = 1" | "errno_num ENOENT = 2" | "errno_num EIO = 5" | "errno_num ENXIO = 6"
| "errno_num E2BIG = 7" | "errno_num EAGAIN = 11" | "errno_num ENOMEM = 12" | "errno_num EFAULT = 14"
| "errno_num EBUSY = 16" | "errno_num EEXIST = 17" | "errno_num ENODEV = 19" | "errno_num EINVAL = 22"
| "errno_num ENOTTY = 25" | "errno_num ENOSPC = 28" | "errno_num ERANGE = 34" | "errno_num EPROTO = 71"
| "errno_num EOPNOTSUPP = 95" | "errno_num ETIMEDOUT = 110" | "errno_num ECANCELED = 125"
| "errno_num EPROBE_DEFER = 517"

definition rc_code :: "errno option \<Rightarrow> u32" where
  "rc_code r = (case r of None \<Rightarrow> 0 | Some e \<Rightarrow> - errno_num e)"

definition stats_open :: "'e cmd_env_scheme \<Rightarrow> ('m drv_scheme, u64) state" where
  "stats_open E = do {
     s \<leftarrow> get_st;
     case ane_stats_begin (stats_ctrs s) (stats_ring s) (now_ns E (trace s)) 1 of
       None \<Rightarrow> do { fault; ret 0 }
     | Some (ticket, c, r) \<Rightarrow> do {
         modify (\<lambda>s. s\<lparr>stats_ctrs := c, stats_ring := r\<rparr>);
         ret ticket } }"

definition stats_close :: "'e cmd_env_scheme \<Rightarrow> u64 \<Rightarrow> errno option \<Rightarrow> ('m drv_scheme, unit) state" where
  "stats_close E ticket res = do {
     s \<leftarrow> get_st;
     case ane_stats_complete (stats_ctrs s) (stats_ring s) ticket (now_ns E (trace s)) (rc_code res) 0 of
       None \<Rightarrow> fault
     | Some (c, r) \<Rightarrow> modify (\<lambda>s. s\<lparr>stats_ctrs := c, stats_ring := r\<rparr>) }"

definition command_failed :: "'e cmd_env_scheme \<Rightarrow> bool \<Rightarrow> u64 \<Rightarrow> errno \<Rightarrow> ('m drv_scheme, errno option) state" where
  "command_failed E stats_call ticket e = do {
     guarded stats_call (stats_close E ticket (Some e));
     modify (\<lambda>s. s\<lparr>quarantined := True\<rparr>);
     ret (Some e) }"

definition command_done :: "'e cmd_env_scheme \<Rightarrow> bool \<Rightarrow> u64 \<Rightarrow> ('m drv_scheme, errno option) state" where
  "command_done E stats_call ticket = do {
     guarded stats_call (stats_close E ticket None);
     _ \<leftarrow> ane_rtclient_drain_t2h E 4;
     _ \<leftarrow> ane_rtclient_drain_t2h E 6;
     ret None }"

definition wait_acked :: "'e cmd_env_scheme \<Rightarrow> ('m drv_scheme, errno option) state" where
  "wait_acked E = do {
     s \<leftarrow> get_st;
     guarded (tracing s) (ane_t6021_trace_add E TR_ACK 0);
     r \<leftarrow> ane_rtclient_call_wait E;
     modify (\<lambda>s. s\<lparr>tracing := False\<rparr>);
     s \<leftarrow> get_st;
     guarded (r = None \<and> call_settle_us s \<noteq> 0) (emit Sleep);
     ret r }"

definition command_wait :: "'e cmd_env_scheme \<Rightarrow> bool \<Rightarrow> u64 \<Rightarrow> ('m drv_scheme, errno option) state" where
  "command_wait E stats_call ticket = do {
     r \<leftarrow> wait_acked E;
     case r of
       Some e \<Rightarrow> command_failed E stats_call ticket e
     | None \<Rightarrow> command_done E stats_call ticket }"

text \<open>The start of a command decides whether its call is traced.\<close>

definition trace_arm :: "'e cmd_env_scheme \<Rightarrow> u16 \<Rightarrow> ('m drv_scheme, unit) state" where
  "trace_arm E opcode = do {
     modify (\<lambda>s. s\<lparr>tracing := (opcode = CSNE_CMD_PROCEDURE_CALL \<and> trace_td s \<and> trace_td_off s \<noteq> 0)\<rparr>);
     s \<leftarrow> get_st;
     guarded (tracing s) (do {
       (case td_trace s of
          None \<Rightarrow> fault
        | Some t \<Rightarrow> modify (\<lambda>s. s\<lparr>td_trace := Some (t\<lparr>calls := calls t + 1\<rparr>)\<rparr>));
       ane_t6021_trace_add E TR_CALL 0 }) }"

definition command_run ::
  "'e cmd_env_scheme \<Rightarrow> nat \<Rightarrow> u64 \<Rightarrow> u16 \<Rightarrow> nat \<Rightarrow> bool \<Rightarrow> u64 \<Rightarrow> ('m drv_scheme, errno option) state" where
  "command_run E command len opcode ch stats_call ticket = do {
     r \<leftarrow> ane_rtclient_legacy_exchange E command len opcode ch;
     case r of
       Some e \<Rightarrow> do {
         modify (\<lambda>s. s\<lparr>tracing := False\<rparr>);
         command_failed E stats_call ticket e }
     | None \<Rightarrow>
         if opcode = CSNE_CMD_PROCEDURE_CALL then command_wait E stats_call ticket
         else command_done E stats_call ticket }"

definition ane_rtclient_command ::
  "'e cmd_env_scheme \<Rightarrow> nat \<Rightarrow> u64 \<Rightarrow> u16 \<Rightarrow> nat \<Rightarrow> ('m drv_scheme, errno option) state" where
  "ane_rtclient_command E command len opcode ch = do {
     trace_arm E opcode;
     s \<leftarrow> get_st;
     let stats_call = (stats_on s \<and> opcode = CSNE_CMD_PROCEDURE_CALL);
     ticket \<leftarrow> (if stats_call then stats_open E else ret 0);
     command_run E command len opcode ch stats_call ticket }"


section \<open>Power-state guard of the task word\<close>

text \<open>Every read of the task word at engine offset \<open>off\<close> comes right after the seven power-state
  words, each fully on.\<close>

definition td_ok :: "nat \<Rightarrow> trace \<Rightarrow> bool" where
  "td_ok off es \<longleftrightarrow>
     (\<forall>i v. i < length es \<longrightarrow> es ! i = Read (Eng off) v \<longrightarrow>
        7 \<le> i \<and> (\<forall>k<7. \<exists>w. es ! (i - 7 + k) = Read (Ps (8 * k)) w \<and> w AND 0x3ff = 0x3ff))"

interpretation td: trace_grammar "td_ok off"
proof
  show "td_ok off []" by (simp add: td_ok_def)
  fix xs ys assume x: "td_ok off xs" and y: "td_ok off ys"
  show "td_ok off (xs @ ys)"
    unfolding td_ok_def
  proof (intro allI impI)
    fix i v assume i: "i < length (xs @ ys)" "(xs @ ys) ! i = Read (Eng off) v"
    show "7 \<le> i \<and> (\<forall>k<7. \<exists>w. (xs @ ys) ! (i - 7 + k) = Read (Ps (8 * k)) w \<and> w AND 0x3ff = 0x3ff)"
    proof (cases "i < length xs")
      case True
      then have "7 \<le> i \<and> (\<forall>k<7. \<exists>w. xs ! (i - 7 + k) = Read (Ps (8 * k)) w \<and> w AND 0x3ff = 0x3ff)"
        using x i by (auto simp: td_ok_def nth_append)
      then show ?thesis using True by (auto simp: nth_append)
    next
      case False
      define j where "j = i - length xs"
      have j: "i = length xs + j" "j < length ys" using False i by (auto simp: j_def)
      then have "7 \<le> j \<and> (\<forall>k<7. \<exists>w. ys ! (j - 7 + k) = Read (Ps (8 * k)) w \<and> w AND 0x3ff = 0x3ff)"
        using y i by (auto simp: td_ok_def nth_append)
      then show ?thesis using j by (auto simp: nth_append)
    qed
  qed
qed

definition no_td :: "nat \<Rightarrow> ev \<Rightarrow> bool" where
  "no_td off e \<longleftrightarrow> (\<forall>v. e \<noteq> Read (Eng off) v)"

lemma no_td_ok: "list_all (no_td off) es \<Longrightarrow> td_ok off es"
  by (fastforce simp: td_ok_def no_td_def list_all_length)

lemma ps_offs_nth: "k < 7 \<Longrightarrow> ps_offs ! k = 8 * k"
  by (auto simp: ps_offs_def less_Suc_eq numeral_eq_Suc)

lemma ps_offs_facts: "length ps_offs = 7" "i \<in> set ps_offs \<Longrightarrow> i \<le> ANE_PMGR_PS_LAST_OFF"
  by (auto simp: ps_offs_def ANE_PMGR_PS_LAST_OFF_def)

abbreviation ps_reads :: "nat list \<Rightarrow> u64 list \<Rightarrow> trace" where
  "ps_reads is ws \<equiv> map2 (\<lambda>i. Read (Ps i)) is ws"

lemma ps_scan_wp:
  "wp (ps_scan E is) (\<lambda>r s'. \<exists>ws. s' = s\<lparr>trace := trace s @ ps_reads is ws\<rparr> \<and>
     (r \<in> set is \<or> r = ANE_PMGR_PS_LAST_OFF + 8 \<and> length ws = length is \<and>
        (\<forall>w\<in>set ws. w AND 0x3ff = 0x3ff))) s"
proof (induction "is" arbitrary: s)
  case Nil
  then show ?case by (auto simp: wp intro: exI [of _ "[]"])
next
  case (Cons i "is")
  let ?v = "rd E (trace s) (Ps i)"
  show ?case
  proof (cases "?v AND 0x3ff = 0x3ff")
    case False
    then show ?thesis by (auto simp: wp intro!: exI [of _ "[?v]"])
  next
    case True
    let ?s = "s\<lparr>trace := trace s @ [Read (Ps i) ?v]\<rparr>"
    have "wp (ps_scan E is) (\<lambda>r s'. \<exists>ws. s' = s\<lparr>trace := trace s @ ps_reads (i # is) ws\<rparr> \<and>
       (r \<in> set (i # is) \<or> r = ANE_PMGR_PS_LAST_OFF + 8 \<and> length ws = length (i # is) \<and>
        (\<forall>w\<in>set ws. w AND 0x3ff = 0x3ff))) ?s"
    proof (rule wp_mono [OF Cons.IH], elim exE)
      fix r s' ws
      assume "s' = ?s\<lparr>trace := trace ?s @ ps_reads is ws\<rparr> \<and> (r \<in> set is \<or>
        r = ANE_PMGR_PS_LAST_OFF + 8 \<and> length ws = length is \<and> (\<forall>w\<in>set ws. w AND 0x3ff = 0x3ff))"
      then show "\<exists>ws. s' = s\<lparr>trace := trace s @ ps_reads (i # is) ws\<rparr> \<and>
       (r \<in> set (i # is) \<or> r = ANE_PMGR_PS_LAST_OFF + 8 \<and> length ws = length (i # is) \<and>
        (\<forall>w\<in>set ws. w AND 0x3ff = 0x3ff))"
        using True by (intro exI [of _ "?v # ws"]) auto
    qed
    then show ?thesis using True by (simp add: wp)
  qed
qed

lemma td_block:
  assumes "length ws = 7" "\<forall>w\<in>set ws. w AND 0x3ff = 0x3ff"
  shows "td_ok off (ps_reads ps_offs ws @ [Read (Eng off) v])"
  unfolding td_ok_def
proof (intro allI impI)
  let ?es = "ps_reads ps_offs ws @ [Read (Eng off) v]"
  have len: "length (ps_reads ps_offs ws) = 7" using assms by (simp add: ps_offs_facts)
  have nth: "?es ! k = Read (Ps (8 * k)) (ws ! k)" if "k < 7" for k
    using that assms len by (simp add: nth_append ps_offs_facts ps_offs_nth)
  fix i v' assume i: "i < length ?es" "?es ! i = Read (Eng off) v'"
  then have "i = 7" using nth [of i] len by (cases "i < 7") auto
  then show "7 \<le> i \<and> (\<forall>k<7. \<exists>w. ?es ! (i - 7 + k) = Read (Ps (8 * k)) w \<and> w AND 0x3ff = 0x3ff)"
    using nth assms by auto
qed

lemma td_reads: "td_ok off (ps_reads is ws)"
  by (rule no_td_ok) (auto simp: list_all_iff no_td_def set_zip)

text \<open>The state the guard depends on: where the task word is.\<close>

definition td_at :: "nat \<Rightarrow> 'm drv_scheme \<Rightarrow> bool" where
  "td_at off s \<longleftrightarrow> trace_td_off s = off"

lemma td_event:
  "no_td off e \<Longrightarrow> follows (td_at off) (td_ok off) (emit e)"
  "follows (td_at off) (td_ok off) (wrl l v)"
  "l \<noteq> Eng off \<Longrightarrow> follows (td_at off) (td_ok off) (rdl E l)"
  by (auto intro!: td.event no_td_ok simp: td_at_def no_td_def)

lemma follows_trace_add: "follows (td_at off) (td_ok off) (ane_t6021_trace_add E k w)"
  unfolding ane_t6021_trace_add_def fault_def
  by (intro td.get_bind foll td.modify) (simp_all add: td_at_def)

lemma trace_add_wp:
  "wp (ane_t6021_trace_add E k w) Q s \<longleftrightarrow>
     (case td_trace s of None \<Rightarrow> Q () (s\<lparr>faulted := True\<rparr>)
      | Some t \<Rightarrow> Q () (s\<lparr>td_trace := Some (trace_put (now_ns E (trace s)) k w t)\<rparr>))"
  by (simp add: ane_t6021_trace_add_def fault_def wp split: option.splits)

lemma trace_record_wp:
  "wp (trace_record E st i)
     (\<lambda>_ s'. trace_td_off s' = trace_td_off s \<and>
        trace s' = trace s @ (if i > ANE_PMGR_PS_LAST_OFF
          then [Read (Eng (trace_td_off s)) (rd E (trace s) (Eng (trace_td_off s)))] else [])) s"
  by (cases st) (auto simp: trace_record_def wp trace_add_wp split: option.splits)

lemma follows_trace_sample: "follows (td_at off) (td_ok off) (trace_sample E st)"
  unfolding follows_def trace_sample_def wp_bind
proof (intro allI impI)
  fix s :: "'a drv_scheme"
  assume I: "td_at off s"
  have cont: "wp (trace_record E st i)
      (\<lambda>_ s'. td_at off s' \<and> (\<exists>es. trace s' = trace s @ es \<and> td_ok off es)) s'"
    if s': "s' = s\<lparr>trace := trace s @ ps_reads ps_offs ws\<rparr>"
      and r: "i \<in> set ps_offs \<or> i = ANE_PMGR_PS_LAST_OFF + 8 \<and> length ws = length ps_offs \<and>
         (\<forall>w\<in>set ws. w AND 0x3ff = 0x3ff)" for i s' ws
  proof (rule wp_mono [OF trace_record_wp])
    fix a s'' assume t: "trace_td_off s'' = trace_td_off s' \<and> trace s'' = trace s' @
      (if i > ANE_PMGR_PS_LAST_OFF
       then [Read (Eng (trace_td_off s')) (rd E (trace s') (Eng (trace_td_off s')))] else [])"
    show "td_at off s'' \<and> (\<exists>es. trace s'' = trace s @ es \<and> td_ok off es)"
      using t I s' r ps_offs_facts(2) [of i] td_reads [of off ps_offs ws] td_block [of ws off]
      by (auto simp: td_at_def ps_offs_facts(1) split: if_splits)
  qed
  show "wp (ps_scan E ps_offs) (\<lambda>i. wp (trace_record E st i)
     (\<lambda>_ s'. td_at off s' \<and> (\<exists>es. trace s' = trace s @ es \<and> td_ok off es))) s"
    by (rule wp_mono [OF ps_scan_wp]) (use cont in blast)
qed


section \<open>What the transport leaves alone\<close>

text \<open>The exchange and the allocation service change the trace, the buffer table and the ring
  cursors; \<open>framed s0\<close> holds of the states that agree with \<open>s0\<close> on everything else.\<close>

definition framed :: "'m rtc_scheme \<Rightarrow> 'm rtc_scheme \<Rightarrow> bool" where
  "framed s0 s \<longleftrightarrow> cmd_buf s = cmd_buf s0 \<and> held s = held s0 \<and> chman_ok s = chman_ok s0 \<and>
     fw_present s = fw_present s0 \<and> boot_ipc s = boot_ipc s0 \<and> boot_ipc_cpu s = boot_ipc_cpu s0 \<and>
     boot_ipc_iova s = boot_ipc_iova s0 \<and> boot_ipc_size s = boot_ipc_size s0 \<and>
     fw_alias_iova s = fw_alias_iova s0 \<and> fw_size s = fw_size s0 \<and> quarantined s = quarantined s0 \<and>
     rtc.more s = rtc.more s0"

lemma framed_refl [simp]: "framed s s"
  by (simp add: framed_def)

lemma keeps_framedI:
  assumes "\<And>s0. keeps (framed s0) m" "\<And>s s'. I s \<Longrightarrow> framed s s' \<Longrightarrow> I s'"
  shows "keeps I m"
  unfolding keeps_def
proof (intro allI impI)
  fix s assume "I s"
  then show "wp m (\<lambda>_. I) s"
    using keepsD [OF assms(1), of s s] assms(2) by (auto elim!: wp_mono)
qed

lemma framed_machine [keep]:
  "keeps (framed s0) (emit e)" "keeps (framed s0) (rdl E l)" "keeps (framed s0) (wrl l v)"
  "keeps (framed s0) (dma_free_coherent sz d)" "keeps (framed s0) (dma_alloc_coherent E sz)"
  "keeps (framed s0) (doorbell b)"
  by (simp_all add: keeps_def wp doorbell_def framed_def)

lemma framed_modify [keep]:
  "keeps (framed s0) (modify (\<lambda>s. s\<lparr>legacy_malloc_cursor := c\<rparr>))"
  "keeps (framed s0) (modify (\<lambda>s. s\<lparr>legacy_cmd_cursor := f s\<rparr>))"
  "keeps (framed s0) (modify (\<lambda>s. s\<lparr>legacy_buffers := g s\<rparr>))"
  by (auto intro!: keeps_modify simp: framed_def)

lemma framed_alloc [keep]: "keeps (framed s0) (ane_rtclient_legacy_alloc E sz)"
  unfolding ane_rtclient_legacy_alloc_def
  by (intro keep) (auto intro!: keep simp: framed_def)

lemma framed_give_back [keep]: "keeps (framed s0) (legacy_give_back hdr)"
  unfolding legacy_give_back_def by (intro keep) (auto intro!: keep simp: framed_def)

lemma framed_service [keep]: "keeps (framed s0) (ane_rtclient_malloc_service E cursor)"
  unfolding ane_rtclient_malloc_service_def service_malloc_def service_free_def service_answer_def
  by (intro keep) (auto split: mring_kind.splits intro!: keep)

lemma framed_settle_window [keep]: "keeps (framed s0) (settle_window E n cursor)"
  by (induction n arbitrary: cursor) (auto intro!: keep)

lemma framed_settle_loop [keep]: "keeps (framed s0) (settle_loop E n cursor)"
  by (induction n arbitrary: cursor) (auto intro!: keep)

lemma framed_settle [keep]: "keeps (framed s0) (ane_rtclient_malloc_settle E)"
  unfolding ane_rtclient_malloc_settle_def by (intro keep)

lemma framed_serve_pending [keep]: "keeps (framed s0) (serve_pending E n cursor)"
  by (induction n arbitrary: cursor) (auto intro!: keep)

lemma framed_exchange_turn [keep]: "keeps (framed s0) (exchange_turn E ch io cursor)"
  unfolding exchange_turn_def by (intro keep)

lemma framed_exchange_poll [keep]: "keeps (framed s0) (exchange_poll E dma len opcode ch io n cursor)"
  by (induction n arbitrary: cursor) (auto intro!: keep)

lemma framed_exchange [keep]: "keeps (framed s0) (ane_rtclient_legacy_exchange E command len opcode ch)"
  unfolding ane_rtclient_legacy_exchange_def exchange_io_def exchange_send_def by (intro keep)

section \<open>The task word during a command\<close>

text \<open>What a grammar needs for the command path to follow it: it admits every event but a read of
  the task word, and the guarded sample where one can be taken.  The condition \<open>I\<close> may depend on
  the fields of \<open>same_cfg\<close> only.\<close>

definition same_cfg :: "'m drv_scheme \<Rightarrow> 'm drv_scheme \<Rightarrow> bool" where
  "same_cfg s s' \<longleftrightarrow> trace_td_off s' = trace_td_off s \<and> dyn_pg s' = dyn_pg s \<and> (tracing s' \<longrightarrow> tracing s)"

lemma framed_cfg: "framed s s' \<Longrightarrow> same_cfg s s'"
  unfolding framed_def same_cfg_def by (cases s; cases s') simp

locale command_grammar = trace_grammar L for L +
  fixes off :: nat and E :: "'e cmd_env_scheme" and I :: "'m drv_scheme \<Rightarrow> bool"
  assumes quiet: "list_all (no_td off) es \<Longrightarrow> L es"
    and cfg: "I s \<Longrightarrow> same_cfg s s' \<Longrightarrow> I s'"
    and sample: "I s \<Longrightarrow> tracing s \<Longrightarrow> I s' \<Longrightarrow> \<not> dyn_pg s' \<Longrightarrow> follows I L (trace_sample E st)"
    and off_ipi: "off \<noteq> ANE_IPI_OFF + 0x8000"
begin

lemma one: "no_td off e \<Longrightarrow> L [e]"
  by (rule quiet) simp

lemma ev:
  "no_td off e \<Longrightarrow> follows I L (emit e)"
  "follows I L (wrl l v)"
  "l \<noteq> Eng off \<Longrightarrow> follows I L (rdl E l)"
  by (rule event; (rule cfg, assumption)?; simp add: same_cfg_def one no_td_def)+

lemma upd:
  "(\<And>s. same_cfg s (f s)) \<Longrightarrow> (\<And>s. trace (f s) = trace s) \<Longrightarrow> follows I L (modify f)"
  using cfg by (rule modify)

lemma trace_add: "follows I L (ane_t6021_trace_add E k w)"
  unfolding ane_t6021_trace_add_def fault_def
  by (intro get_bind foll upd) (simp_all add: same_cfg_def)

lemma t2h: "follows I L (t2h_event E ch hdr len)"
  unfolding t2h_event_def
  by (intro get_bind foll bind ret ev(3) guarded trace_add) simp_all

lemma drain_lp: "follows I L (drain_loop E ch n i fin)"
  by (induction n arbitrary: i fin)
    (auto intro!: bind ret ev t2h upd foll simp: slot_word_def doorbell_def no_td_def same_cfg_def)

lemma drain: "follows I L (ane_rtclient_drain_t2h E ch)"
  unfolding ane_rtclient_drain_t2h_def by (intro get_bind foll ret drain_lp)

lemma traced_lp:
  assumes "ps \<Longrightarrow> (\<And>st. follows I L (trace_sample E st))"
  shows "follows I L (traced_loop E ps n st)"
proof -
  have turn: "follows I L (traced_turn E ps st)" for st
    unfolding traced_turn_def
    by (intro bind foll ret ev assms) (simp_all add: no_td_def)
  show ?thesis by (induction n arbitrary: st) (auto intro!: bind foll ret drain turn)
qed

lemma wait_lp: "follows I L (wait_loop E n)"
  by (induction n) (auto intro!: bind foll ret drain ev simp: no_td_def)

lemma wait: "follows I L (ane_rtclient_call_wait E)"
  unfolding ane_rtclient_call_wait_def
proof (intro get_bind foll)
  fix t assume I: "I t" and tr: "tracing t"
  show "follows I L (ane_rtclient_call_wait_traced E)"
    unfolding ane_rtclient_call_wait_traced_def
    by (intro get_bind foll bind ret trace_add drain traced_lp) (use sample [OF I tr] in blast)
next
  fix t
  show "follows I L (wait_loop E (polls E (trace t)) \<bind>
    (\<lambda>f. (if f then ret True else ane_rtclient_drain_t2h E 6) \<bind>
      (\<lambda>g. ret (if g then None else Some ETIMEDOUT))))"
    by (intro bind foll ret wait_lp drain)
qed

lemma service: "extends (no_td off) (ane_rtclient_malloc_service E cursor)"
  unfolding ane_rtclient_malloc_service_def service_malloc_def service_free_def service_answer_def
    ane_rtclient_legacy_alloc_def legacy_give_back_def
  using off_ipi by (auto intro!: exts split: mring_kind.splits simp: no_td_def slot_word_def doorbell_def)

lemma turn: "extends (no_td off) (exchange_turn E ch io cursor)"
  unfolding exchange_turn_def
  using off_ipi by (auto intro!: exts service simp: no_td_def slot_word_def)

lemma poll: "extends (no_td off) (exchange_poll E dma len opcode ch io n cursor)"
  by (induction n arbitrary: cursor) (auto intro!: exts turn simp: no_td_def slot_word_def)

lemma pending: "extends (no_td off) (serve_pending E n cursor)"
  by (induction n arbitrary: cursor) (auto intro!: exts service)

lemma exchange_quiet: "extends (no_td off) (ane_rtclient_legacy_exchange E command len opcode ch)"
  unfolding ane_rtclient_legacy_exchange_def exchange_io_def exchange_send_def
  by (auto intro!: exts pending poll simp: no_td_def slot_word_def doorbell_def)

lemma exchange: "follows I L (ane_rtclient_legacy_exchange E command len opcode ch)"
proof (rule from_extends [OF exchange_quiet _ quiet])
  show "keeps I (ane_rtclient_legacy_exchange E command len opcode ch)"
    by (rule keeps_framedI) (auto intro: keep cfg framed_cfg)
qed

lemma stats: "follows I L (stats_open E)" "follows I L (stats_close E ticket res)"
  unfolding stats_open_def stats_close_def fault_def
  by (intro get_bind foll bind ret upd; simp add: same_cfg_def)+

lemma failed: "follows I L (command_failed E sc ticket e)"
  unfolding command_failed_def by (intro bind guarded ret upd stats) (simp_all add: same_cfg_def)

lemma finished: "follows I L (command_done E sc ticket)"
  unfolding command_done_def by (intro bind guarded ret drain stats)

lemma command: "follows I L (command_run E command len opcode ch sc ticket)"
  unfolding command_run_def command_wait_def wait_acked_def
  by (intro get_bind bind foll guarded ret upd exchange failed finished wait trace_add ev)
    (simp_all add: same_cfg_def no_td_def)

end

text \<open>The offset of the task word on every T602x SoC.\<close>

definition T602X_TRACE_TD_OFF :: nat where "T602X_TRACE_TD_OFF = 0x1c20458"

interpretation td_cmd: command_grammar "td_ok T602X_TRACE_TD_OFF" T602X_TRACE_TD_OFF E "td_at T602X_TRACE_TD_OFF"
  by unfold_locales
    (auto intro: no_td_ok follows_trace_sample simp: same_cfg_def td_at_def T602X_TRACE_TD_OFF_def ANE_IPI_OFF_def)

interpretation gated: command_grammar "list_all (no_td T602X_TRACE_TD_OFF)" T602X_TRACE_TD_OFF E dyn_pg
  by unfold_locales (auto simp: same_cfg_def T602X_TRACE_TD_OFF_def ANE_IPI_OFF_def)

interpretation untraced: command_grammar "list_all (no_td T602X_TRACE_TD_OFF)" T602X_TRACE_TD_OFF E
    "\<lambda>s. \<not> tracing s"
  by unfold_locales (auto simp: same_cfg_def T602X_TRACE_TD_OFF_def ANE_IPI_OFF_def)

lemma arm_wp:
  "wp (trace_arm E opcode) (\<lambda>_ s'. trace s' = trace s \<and> trace_td_off s' = trace_td_off s \<and> dyn_pg s' = dyn_pg s \<and>
     tracing s' = (opcode = CSNE_CMD_PROCEDURE_CALL \<and> trace_td s \<and> trace_td_off s \<noteq> 0)) s"
  by (auto simp: trace_arm_def wp trace_add_wp fault_def split: option.splits)

lemma command_follows:
  fixes s :: "'m drv_scheme" and I :: "'m drv_scheme \<Rightarrow> bool"
  assumes g: "command_grammar L off E I"
    and I: "\<And>s'. trace_td_off s' = trace_td_off s \<Longrightarrow> dyn_pg s' = dyn_pg s \<Longrightarrow>
      tracing s' = (opcode = CSNE_CMD_PROCEDURE_CALL \<and> trace_td s \<and> trace_td_off s \<noteq> 0) \<Longrightarrow> I s'"
    and r: "run_state (ane_rtclient_command E command len opcode ch) s = (r, t)"
  shows "\<exists>es. trace t = trace s @ es \<and> L es"
proof -
  have "follows I L (do {
     s \<leftarrow> get_st;
     let stats_call = (stats_on s \<and> opcode = CSNE_CMD_PROCEDURE_CALL);
     ticket \<leftarrow> (if stats_call then stats_open E else ret 0);
     command_run E command len opcode ch stats_call ticket })"
    by (intro trace_grammar.get_bind trace_grammar.bind foll trace_grammar.ret
        command_grammar.stats [OF g] command_grammar.command [OF g]
        command_grammar.axioms(1) [OF g])
  then have "wp (ane_rtclient_command E command len opcode ch)
     (\<lambda>_ t. I t \<and> (\<exists>es. trace t = trace s @ es \<and> L es)) s"
    unfolding ane_rtclient_command_def wp_bind [of "trace_arm E opcode"]
    by (intro wp_mono [OF arm_wp]) (use I followsD in fastforce)
  then show ?thesis using r by (simp add: wp_def)
qed

text \<open>C20: on a T602x a command reads the task-manager word only right after it read all seven
  compute power-state words and found each fully on, whatever the hardware and the firmware do;
  with firmware power gating enabled, with tracing off or for any command but a procedure call it
  never reads it.  (Such a read while an island is off hangs the SoC.)\<close>

theorem task_word_read_only_when_powered:
  assumes "trace_td_off s = T602X_TRACE_TD_OFF"
    and "run_state (ane_rtclient_command E command len opcode ch) s = (r, s')"
  shows "\<exists>es. trace s' = trace s @ es \<and> td_ok T602X_TRACE_TD_OFF es \<and>
    (dyn_pg s \<or> \<not> trace_td s \<or> opcode \<noteq> CSNE_CMD_PROCEDURE_CALL \<longrightarrow>
       list_all (no_td T602X_TRACE_TD_OFF) es)"
proof -
  have "\<exists>es. trace s' = trace s @ es \<and> td_ok T602X_TRACE_TD_OFF es"
    by (rule command_follows [OF td_cmd.command_grammar_axioms _ assms(2)]) (use assms(1) in \<open>simp add: td_at_def\<close>)
  moreover have "\<exists>es. trace s' = trace s @ es \<and> list_all (no_td T602X_TRACE_TD_OFF) es" if "dyn_pg s"
    by (rule command_follows [OF gated.command_grammar_axioms _ assms(2)]) (use that in simp)
  moreover have "\<exists>es. trace s' = trace s @ es \<and> list_all (no_td T602X_TRACE_TD_OFF) es"
    if "\<not> trace_td s \<or> opcode \<noteq> CSNE_CMD_PROCEDURE_CALL"
    by (rule command_follows [OF untraced.command_grammar_axioms _ assms(2)]) (use that in auto)
  ultimately show ?thesis by auto
qed


section \<open>Quarantine\<close>

lemma keeps_get_bind: "(\<And>t. I t \<Longrightarrow> keeps I (f t)) \<Longrightarrow> keeps I (State_Monad.bind get_st f)"
  by (auto simp: keeps_def wp)

text \<open>The code around the exchange leaves the transport's tables and the quarantine flag alone.\<close>

definition cmd_framed :: "'m drv_scheme \<Rightarrow> 'm drv_scheme \<Rightarrow> bool" where
  "cmd_framed s0 s \<longleftrightarrow> legacy_buffers s = legacy_buffers s0 \<and> legacy_allocated s = legacy_allocated s0 \<and>
     legacy_bytes s = legacy_bytes s0 \<and> cmd_buf s = cmd_buf s0 \<and> held s = held s0 \<and>
     legacy_malloc_cursor s = legacy_malloc_cursor s0 \<and>
     fw_present s = fw_present s0 \<and> boot_ipc s = boot_ipc s0 \<and> boot_ipc_cpu s = boot_ipc_cpu s0 \<and>
     boot_ipc_iova s = boot_ipc_iova s0 \<and> boot_ipc_size s = boot_ipc_size s0 \<and>
     fw_alias_iova s = fw_alias_iova s0 \<and> fw_size s = fw_size s0 \<and>
     quarantined s = quarantined s0 \<and> drv.more s = drv.more s0"

lemma cmd_framed_refl [simp]: "cmd_framed s s"
  by (simp add: cmd_framed_def)

text \<open>The drain and the wait change the trace, the ring cursors and the call trace only; they fault
  only where a traced call finds no trace buffer.\<close>

locale wait_inv =
  fixes I :: "'m drv_scheme \<Rightarrow> bool"
  assumes tr: "I s \<Longrightarrow> I (s\<lparr>trace := x\<rparr>)"
    and cur: "I s \<Longrightarrow> I (s\<lparr>legacy_cmd_cursor := y\<rparr>)"
    and put: "I s \<Longrightarrow> td_trace s = Some t \<Longrightarrow> I (s\<lparr>td_trace := Some t'\<rparr>)"
    and null: "I s \<Longrightarrow> td_trace s = None \<Longrightarrow> I s' \<Longrightarrow> tracing s' \<Longrightarrow> I (s\<lparr>faulted := True\<rparr>)"
begin

lemma machine: "keeps I (emit e)" "keeps I (rdl E l)" "keeps I (wrl l v)" "keeps I (doorbell b)"
  by (simp_all add: keeps_def wp doorbell_def tr)

lemma add: "I s \<Longrightarrow> tracing s \<Longrightarrow> keeps I (ane_t6021_trace_add E k w)"
  unfolding keeps_def by (auto simp: trace_add_wp split: option.splits intro: put null)

lemma event: "keeps I (t2h_event E ch hdr len)"
  unfolding t2h_event_def by (intro keeps_get_bind keep machine add)

lemma loop: "keeps I (drain_loop E ch n i fin)"
  by (induction n arbitrary: i fin) (auto intro!: keep machine event cur)

lemma drain: "keeps I (ane_rtclient_drain_t2h E ch)"
  unfolding ane_rtclient_drain_t2h_def by (intro keep loop)

lemma scan: "keeps I (ps_scan E is)"
  by (induction "is") (auto intro!: keep machine)

lemma turn: "I s \<Longrightarrow> tracing s \<Longrightarrow> keeps I (traced_turn E ps st)"
  unfolding traced_turn_def trace_sample_def trace_record_def by (intro keep machine scan add)

lemma traced: "I s \<Longrightarrow> tracing s \<Longrightarrow> keeps I (traced_loop E ps n st)"
  by (induction n arbitrary: st) (auto intro!: keep drain turn)

lemma waiting: "keeps I (wait_loop E n)"
  by (induction n) (auto intro!: keep drain machine)

lemma call: "keeps I (ane_rtclient_call_wait E)"
  unfolding ane_rtclient_call_wait_def ane_rtclient_call_wait_traced_def
  by (intro keeps_get_bind keep traced drain add waiting)

end

interpretation cmdf: wait_inv "cmd_framed s0"
  by unfold_locales (simp_all add: cmd_framed_def)

lemmas cmdf_parts [keep] = cmdf.machine cmdf.drain cmdf.call

lemma cmdf_trace_add [keep]: "keeps (cmd_framed s0) (ane_t6021_trace_add E k w)"
  unfolding ane_t6021_trace_add_def fault_def by (intro keep) (simp_all add: cmd_framed_def)

lemma cmdf_stats [keep]:
  "keeps (cmd_framed s0) (stats_open E)" "keeps (cmd_framed s0) (stats_close E ticket res)"
  unfolding stats_open_def stats_close_def fault_def by (intro keep; simp add: cmd_framed_def)+

lemma cmdf_arm [keep]: "keeps (cmd_framed s0) (trace_arm E opcode)"
  unfolding trace_arm_def fault_def by (intro keep) (simp_all add: cmd_framed_def)

lemma cmdf_done [keep]: "keeps (cmd_framed s0) (command_done E sc ticket)"
  unfolding command_done_def by (intro keep)

text \<open>What a command can change: everything \<open>framed\<close> or \<open>cmd_framed\<close> leaves open.\<close>

definition over_command :: "'m drv_scheme \<Rightarrow> 'm drv_scheme \<Rightarrow> bool" where
  "over_command s0 s \<longleftrightarrow> cmd_buf s = cmd_buf s0 \<and> held s = held s0 \<and>
     fw_present s = fw_present s0 \<and> boot_ipc s = boot_ipc s0 \<and> boot_ipc_cpu s = boot_ipc_cpu s0 \<and>
     boot_ipc_iova s = boot_ipc_iova s0 \<and> boot_ipc_size s = boot_ipc_size s0 \<and>
     fw_alias_iova s = fw_alias_iova s0 \<and> fw_size s = fw_size s0 \<and> drv.more s = drv.more s0"

definition steady :: "'m drv_scheme \<Rightarrow> 'm drv_scheme \<Rightarrow> bool" where
  "steady s0 s \<longleftrightarrow> over_command s0 s \<and> quarantined s = quarantined s0"

text \<open>The outcome of a command: a failure has quarantined the device, a success has left the flag
  as it was.\<close>

definition outcome :: "'m drv_scheme \<Rightarrow> errno option \<Rightarrow> 'm drv_scheme \<Rightarrow> bool" where
  "outcome s0 r s \<longleftrightarrow> over_command s0 s \<and> (if r = None then quarantined s = quarantined s0 else quarantined s)"

lemma steady_refl [simp]: "steady s s"
  by (simp add: steady_def over_command_def)

lemma steady_trans: "steady s0 s \<Longrightarrow> steady s s' \<Longrightarrow> steady s0 s'"
  by (simp add: steady_def over_command_def)

lemma framed_steady: "framed s0 s \<Longrightarrow> steady s0 s"
  unfolding framed_def over_command_def steady_def by (cases s; cases s0) simp

lemma cmd_framed_steady: "cmd_framed s0 s \<Longrightarrow> steady s0 s"
  by (simp add: cmd_framed_def over_command_def steady_def)

lemma keeps_steadyI:
  assumes "\<And>t. keeps (R t) m" "\<And>t. R t t" "\<And>t t'. R t t' \<Longrightarrow> steady t t'"
  shows "keeps (steady s0) m"
  unfolding keeps_def
proof (intro allI impI)
  fix s assume s: "steady s0 s"
  show "wp m (\<lambda>_. steady s0) s"
    by (rule wp_mono [OF keepsD [OF assms(1,2)]]) (use s assms(3) steady_trans in blast)
qed

lemmas steady_cmd = keeps_steadyI [where R = cmd_framed, OF _ cmd_framed_refl cmd_framed_steady]

lemma steady_exchange [keep]: "keeps (steady s0) (ane_rtclient_legacy_exchange E command len opcode ch)"
  by (rule keeps_steadyI [where R = framed, OF framed_exchange framed_refl framed_steady])

lemma steady_settle [keep]: "keeps (steady s0) (ane_rtclient_malloc_settle E)"
  by (rule keeps_steadyI [where R = framed, OF framed_settle framed_refl framed_steady])

lemmas steady_parts [keep] =
  steady_cmd [OF cmdf.machine(1)] steady_cmd [OF cmdf.machine(2)] steady_cmd [OF cmdf.machine(3)]
  steady_cmd [OF cmdf_trace_add] steady_cmd [OF cmdf.call] steady_cmd [OF cmdf_arm]
  steady_cmd [OF cmdf_stats(1)] steady_cmd [OF cmdf_stats(2)] steady_cmd [OF cmdf_done]

lemma steady_tracing [keep]: "keeps (steady s0) (modify (\<lambda>s. s\<lparr>tracing := b\<rparr>))"
  by (rule keeps_modify) (simp add: steady_def over_command_def)

lemma keeps_wp_bind:
  assumes "keeps I m" "I s" "\<And>a s'. I s' \<Longrightarrow> wp (f a) Q s'"
  shows "wp (State_Monad.bind m f) Q s"
  unfolding wp_bind by (rule wp_mono [OF keepsD [OF assms(1,2)] assms(3)])

lemma keeps_wp_last:
  assumes "keeps I m" "I s" "\<And>a s'. I s' \<Longrightarrow> Q a s'"
  shows "wp m Q s"
  by (rule wp_mono [OF keepsD [OF assms(1,2)] assms(3)])

lemma wp_failed: "steady s0 s \<Longrightarrow> wp (command_failed E sc ticket e) (outcome s0) s"
  unfolding command_failed_def
  by (rule keeps_wp_bind [where I = "steady s0"], intro keep)
    (auto simp: wp outcome_def steady_def over_command_def)

lemma wp_true: "wp m (\<lambda>_ _. True) = (\<lambda>_. True)"
  by (simp add: fun_eq_iff wp_trivial)

lemma done_None: "wp (command_done E sc ticket) (\<lambda>r _. r = None) s"
  by (simp add: command_done_def wp wp_true)

lemma wp_done: "steady s0 s \<Longrightarrow> wp (command_done E sc ticket) (outcome s0) s"
proof -
  assume s: "steady s0 s"
  from wp_conj [OF keepsD [OF steady_cmd [OF cmdf_done] s] done_None] show ?thesis
    by (rule wp_mono) (simp_all add: outcome_def steady_def)
qed

lemma wp_wait:
  assumes "steady s0 s"
  shows "wp (command_wait E sc ticket) (outcome s0) s"
proof -
  have "wp (case r of None \<Rightarrow> command_done E sc ticket | Some e \<Rightarrow> command_failed E sc ticket e) (outcome s0) t"
    if "steady s0 t" for r t
    using that by (auto intro: wp_failed wp_done split: option.splits)
  then show ?thesis
    unfolding command_wait_def wait_acked_def using assms
    by (intro keeps_wp_bind [where I = "steady s0"] keep) auto
qed

lemma wp_run_command:
  assumes "steady s0 s"
  shows "wp (command_run E command len opcode ch sc ticket) (outcome s0) s"
  unfolding command_run_def
proof (rule keeps_wp_bind [OF steady_exchange assms])
  fix r t assume t: "steady s0 t"
  show "wp (case r of
       None \<Rightarrow> if opcode = CSNE_CMD_PROCEDURE_CALL then command_wait E sc ticket else command_done E sc ticket
     | Some e \<Rightarrow> do { modify (\<lambda>s. s\<lparr>tracing := False\<rparr>); command_failed E sc ticket e }) (outcome s0) t"
    using t by (auto intro: wp_wait wp_done keeps_wp_bind [OF steady_tracing] wp_failed split: option.splits)
qed

lemma command_outcome: "wp (ane_rtclient_command E command len opcode ch) (outcome s) s"
  unfolding ane_rtclient_command_def Let_def
  by (intro keeps_wp_bind [where I = "steady s"] wp_run_command keep) auto

text \<open>C10: every command that fails, whether the exchange was refused, answered wrongly or timed
  out, or the finish event did not come, leaves the device quarantined; a command that succeeds
  leaves the flag as it was.  Either way the command buffer, the firmware surfaces and the driver
  state above the transport are untouched.\<close>

theorem command_failure_quarantines:
  assumes "run_state (ane_rtclient_command E command len opcode ch) s = (r, s')"
  shows "over_command s s' \<and> (r \<noteq> None \<longrightarrow> quarantined s') \<and> (r = None \<longrightarrow> quarantined s' = quarantined s)"
  using command_outcome [of E command len opcode ch s] assms by (auto simp: wp_def outcome_def)


section \<open>Statistics of a command\<close>

text \<open>The statistics as probe leaves them between calls, and the state in which a call runs: the
  given counters and ring, no fault, and a trace buffer if the call is traced.\<close>

definition stats_fit :: "stats_counters \<Rightarrow> stats_ring \<Rightarrow> bool" where
  "stats_fit c r \<longleftrightarrow> inflight c = 0 \<and>
     (case slots r of None \<Rightarrow> False | Some sl \<Rightarrow> length sl = Suc (unat (mask r)))"

definition calm :: "bool \<Rightarrow> stats_counters \<Rightarrow> stats_ring \<Rightarrow> 'm drv_scheme \<Rightarrow> bool" where
  "calm b c r s \<longleftrightarrow> stats_ctrs s = c \<and> stats_ring s = r \<and> \<not> faulted s \<and>
     (if b then td_trace s \<noteq> None else \<not> tracing s)"

interpretation calm: wait_inv "calm b c r"
  by unfold_locales (auto simp: calm_def split: if_splits)

lemma framed_drv:
  "framed s s' \<Longrightarrow> tracing s' = tracing s \<and> td_trace s' = td_trace s \<and> stats_ctrs s' = stats_ctrs s \<and>
     stats_ring s' = stats_ring s \<and> faulted s' = faulted s"
  unfolding framed_def by (cases s; cases s') simp

lemma framed_calm: "calm b c r s \<Longrightarrow> framed s s' \<Longrightarrow> calm b c r s'"
  by (auto simp: calm_def dest: framed_drv split: if_splits)

lemma calm_exchange: "keeps (calm b c r) (ane_rtclient_legacy_exchange E command len opcode ch)"
  by (rule keeps_framedI [OF framed_exchange framed_calm])

lemmas calm_parts = calm.machine calm.drain calm.call calm_exchange

lemma put_slot_fit:
  assumes "slots r = Some sl" "length sl = Suc (unat (mask r))"
  obtains sl' where "put_slot r t f = Some (r\<lparr>slots := Some sl'\<rparr>)" "length sl' = length sl"
  using slot_of_le [of r t] assms that [of "sl[slot_of r t := f (sl ! slot_of r t)]"]
  by (simp add: put_slot_def)

lemma begin_fit:
  assumes "stats_fit c r"
  shows "\<exists>t c' r'. ane_stats_begin c r x n = Some (t, c', r') \<and> inflight c' = 1 \<and> jobs c' = jobs c \<and>
     stats_fit (c'\<lparr>inflight := 0\<rparr>) r'"
proof -
  obtain sl where sl: "slots r = Some sl" "length sl = Suc (unat (mask r))" "inflight c = 0"
    using assms by (auto simp: stats_fit_def split: option.splits)
  define c1 where "c1 = c\<lparr>last_busy_end := if x > max_end c then x else max_end c, inflight := 1\<rparr>"
  have b: "begin_counters c x = Some c1"
    using sl(3) by (simp add: begin_counters_def c1_def ANE_STATS_INFLIGHT_TRANS_def)
  let ?r = "r\<lparr>head := head r + 1\<rparr>"
  let ?f = "\<lambda>e. \<lparr>seq = 2 * (head r + 1) - 1, submit_ns = x, start_ns = last_busy_end c1, end_ns = x, e_tasks = n,
      e_rc = 0xffffffff, e_tmst = 0\<rparr>"
  obtain sl' where "put_slot ?r (head r + 1) ?f = Some (?r\<lparr>slots := Some sl'\<rparr>)" "length sl' = length sl"
    using put_slot_fit [of ?r sl "head r + 1" ?f] sl by auto
  then show ?thesis
    using sl by (simp add: ane_stats_begin_def b Let_def stats_fit_def) (simp add: c1_def)
qed

lemma complete_fit:
  assumes "stats_fit (c\<lparr>inflight := 0\<rparr>) r" "inflight c = 1"
  shows "\<exists>c' r'. ane_stats_complete c r t e rc tm = Some (c', r') \<and> jobs c' = jobs c + 1 \<and> stats_fit c' r'"
proof -
  obtain sl where sl: "slots r = Some sl" "length sl = Suc (unat (mask r))"
    using assms by (auto simp: stats_fit_def split: option.splits)
  obtain c1 en where c: "complete_counters c e = Some (c1, en)" "inflight c1 = 0" "jobs c1 = jobs c"
    using assms(2) by (auto simp: complete_counters_def Let_def ANE_STATS_INFLIGHT_TRANS_def)
  obtain sl' where "put_slot r t (\<lambda>en0. en0\<lparr>end_ns := en, e_rc := rc, e_tmst := tm, seq := 2 * t\<rparr>) =
      Some (r\<lparr>slots := Some sl'\<rparr>)" "length sl' = length sl"
    using sl by (rule put_slot_fit)
  then show ?thesis using c sl by (simp add: ane_stats_complete_def stats_fit_def)
qed

text \<open>A call between its begin and its complete, and after it.\<close>

lemma wp_close:
  assumes "calm b c r s" "stats_fit (c\<lparr>inflight := 0\<rparr>) r" "inflight c = 1"
  shows "wp (stats_close E t res) (\<lambda>_ s'. \<exists>c' r'. calm b c' r' s' \<and> stats_fit c' r' \<and> jobs c' = jobs c + 1) s"
  using assms(1) complete_fit [OF assms(2,3), of t "now_ns E (trace s)" "rc_code res" 0]
  by (auto simp: stats_close_def calm_def wp split: if_splits)

definition counted :: "u64 \<Rightarrow> 'm drv_scheme \<Rightarrow> bool" where
  "counted n s \<longleftrightarrow> \<not> faulted s \<and> stats_fit (stats_ctrs s) (stats_ring s) \<and> jobs (stats_ctrs s) = n"

lemma calm_counted: "calm b c r s \<Longrightarrow> stats_fit c r \<Longrightarrow> jobs c = n \<Longrightarrow> counted n s"
  by (simp add: calm_def counted_def)

text \<open>The two ends of a command when it is counted (\<open>sc\<close>, with its submission open) and when it is
  not.\<close>

definition ready :: "bool \<Rightarrow> u64 \<Rightarrow> stats_counters \<Rightarrow> stats_ring \<Rightarrow> bool" where
  "ready sc n c r \<longleftrightarrow> (if sc then inflight c = 1 \<and> stats_fit (c\<lparr>inflight := 0\<rparr>) r \<and> jobs c + 1 = n
                     else stats_fit c r \<and> jobs c = n)"

lemma wp_end:
  assumes "calm b c r s" "ready sc n c r"
  shows "wp (guarded sc (stats_close E t res)) (\<lambda>_ s'. \<exists>c' r'. calm b c' r' s' \<and> stats_fit c' r' \<and> jobs c' = n) s"
proof (cases sc)
  case True
  then show ?thesis
    using wp_close [OF assms(1), of E t res] assms(2) by (auto simp: ready_def wp elim!: wp_mono)
next
  case False
  then show ?thesis using assms by (auto simp: ready_def wp)
qed

lemma wp_failed_counted:
  assumes "calm b c r s" "ready sc n c r"
  shows "wp (command_failed E sc t e) (\<lambda>_. counted n) s"
  unfolding command_failed_def wp_bind
  by (rule wp_mono [OF wp_end [OF assms]]) (auto simp: wp counted_def calm_def)

lemma wp_done_counted:
  assumes "calm b c r s" "ready sc n c r"
  shows "wp (command_done E sc t) (\<lambda>_. counted n) s"
  unfolding command_done_def wp_bind
proof (rule wp_mono [OF wp_end [OF assms]], elim exE conjE)
  fix s' c' r' assume "calm b c' r' s'" "stats_fit c' r'" "jobs c' = n"
  then show "wp (ane_rtclient_drain_t2h E 4) (\<lambda>a. wp (ane_rtclient_drain_t2h E 6) (\<lambda>a. wp (ret None) (\<lambda>_. counted n))) s'"
    by (intro keeps_wp_last [where I = "calm b c' r'"] calm.drain) (auto intro: keep calm_counted)
qed

lemma wp_run_counted:
  assumes "calm b c r s" "ready sc n c r"
  shows "wp (command_run E command len opcode ch sc t) (\<lambda>_. counted n) s"
  unfolding command_run_def
proof (rule keeps_wp_bind [OF calm_exchange assms(1)])
  fix res and s' :: "'a drv_scheme" assume s': "calm b c r s'"
  have off: "calm b c r (u\<lparr>tracing := False\<rparr>)" if "calm b c r u" for u :: "'a drv_scheme"
    using that by (simp add: calm_def)
  have wait: "wp (command_wait E sc t) (\<lambda>_. counted n) s'"
    unfolding command_wait_def
  proof (rule keeps_wp_bind [where I = "calm b c r"])
    show "keeps (calm b c r :: 'a drv_scheme \<Rightarrow> bool) (wait_acked E)"
      unfolding wait_acked_def
      by (intro keeps_get_bind keeps_bind keeps_guarded keep calm_parts off) (rule calm.add)
    show "wp (case x of None \<Rightarrow> command_done E sc t | Some e \<Rightarrow> command_failed E sc t e) (\<lambda>_. counted n) u"
      if "calm b c r u" for x and u :: "'a drv_scheme"
      using that assms(2) by (auto split: option.splits intro: wp_failed_counted wp_done_counted)
  qed (rule s')
  show "wp (case res of
       None \<Rightarrow> if opcode = CSNE_CMD_PROCEDURE_CALL then command_wait E sc t else command_done E sc t
     | Some e \<Rightarrow> do { modify (\<lambda>s. s\<lparr>tracing := False\<rparr>); command_failed E sc t e }) (\<lambda>_. counted n) s'"
    using wait wp_failed_counted [OF off [OF s'] assms(2), where E = E] wp_done_counted [OF s' assms(2), where E = E]
    by (simp add: wp split: option.splits)
qed

text \<open>C29: with statistics enabled, their slots allocated and no submission in flight (commands are
  serialised by the firmware lock), a command never dereferences a missing slot array, closes what
  it opened on every path, successful or not, and adds exactly one job for a procedure call and
  none for a control command.\<close>

theorem command_counts_calls:
  assumes fit: "stats_fit (stats_ctrs s) (stats_ring s)" and on: "stats_on s"
    and ok: "\<not> faulted s" "trace_td s \<longrightarrow> td_trace s \<noteq> None"
    and run: "run_state (ane_rtclient_command E command len opcode ch) s = (r, s')"
  shows "\<not> faulted s' \<and> stats_fit (stats_ctrs s') (stats_ring s') \<and>
    jobs (stats_ctrs s') = jobs (stats_ctrs s) + (if opcode = CSNE_CMD_PROCEDURE_CALL then 1 else 0)"
proof -
  let ?b = "opcode = CSNE_CMD_PROCEDURE_CALL \<and> trace_td s \<and> trace_td_off s \<noteq> 0"
  let ?sc = "opcode = CSNE_CMD_PROCEDURE_CALL"
  let ?n = "jobs (stats_ctrs s) + (if opcode = CSNE_CMD_PROCEDURE_CALL then 1 else 0)"
  have arm: "wp (trace_arm E opcode) (\<lambda>_ t. calm ?b (stats_ctrs s) (stats_ring s) t \<and> stats_on t) s"
    using ok on by (auto simp: trace_arm_def trace_add_wp fault_def wp calm_def split: option.splits)
  have rest: "wp (do {
       t \<leftarrow> get_st;
       let stats_call = (stats_on t \<and> opcode = CSNE_CMD_PROCEDURE_CALL);
       ticket \<leftarrow> (if stats_call then stats_open E else ret 0);
       command_run E command len opcode ch stats_call ticket }) (\<lambda>_. counted ?n) t"
    if t: "calm ?b (stats_ctrs s) (stats_ring s) t" "stats_on t" for t :: "'a drv_scheme"
  proof (cases ?sc)
    case True
    obtain tk c1 r1 where b: "ane_stats_begin (stats_ctrs s) (stats_ring s) (now_ns E (trace t)) 1 = Some (tk, c1, r1)"
      and rd: "ready True ?n c1 r1"
      using begin_fit [OF fit] True by (fastforce simp: ready_def)
    have "calm ?b c1 r1 (t\<lparr>stats_ctrs := c1, stats_ring := r1\<rparr>)" using t by (simp add: calm_def)
    from wp_run_counted [OF this rd] show ?thesis
      using True t b by (simp add: wp stats_open_def calm_def)
  next
    case False
    then have "ready False ?n (stats_ctrs s) (stats_ring s)" using fit by (simp add: ready_def)
    from wp_run_counted [OF t(1) this] show ?thesis using False t by (simp add: wp)
  qed
  have "wp (ane_rtclient_command E command len opcode ch) (\<lambda>_. counted ?n) s"
    unfolding ane_rtclient_command_def wp_bind [of "trace_arm E opcode"]
    by (rule wp_mono [OF arm]) (use rest in blast)
  then show ?thesis using run by (simp add: wp_def counted_def)
qed


text \<open>The statistics block at the end of probe: \<open>slots_ok\<close> says whether the slot array could be
  allocated.\<close>

definition probe_stats :: "bool \<Rightarrow> 'm drv_scheme \<Rightarrow> 'm drv_scheme" where
  "probe_stats slots_ok s =
     (if fw_present s \<and> stats_on s \<and> slots_ok then
        (case ane_stats_counters_init ANE_STATS_RING_ORDER_DEFAULT of
           (c, r) \<Rightarrow> s\<lparr>stats_ctrs := c,
             stats_ring := r\<lparr>slots := Some (replicate (2 ^ ANE_STATS_RING_ORDER_DEFAULT) zero_entry)\<rparr>\<rparr>)
      else s)"

lemma probe_stats_fit:
  assumes "fw_present s" "stats_on s"
  shows "stats_fit (stats_ctrs (probe_stats True s)) (stats_ring (probe_stats True s))"
  using assms
  by (simp add: probe_stats_def stats_fit_def ane_stats_counters_init_def ANE_STATS_RING_ORDER_DEFAULT_def)

interpretation faulted: wait_inv "faulted"
  by unfold_locales simp_all

lemma faulted_exchange: "keeps faulted (ane_rtclient_legacy_exchange E command len opcode ch)"
  by (rule keeps_framedI [OF framed_exchange]) (auto dest: framed_drv)

lemma faulted_stats: "keeps faulted (stats_close E t res)" "keeps faulted (ane_t6021_trace_add E k w)"
  unfolding stats_close_def ane_t6021_trace_add_def fault_def by (intro keep; simp)+

lemma faulted_run: "keeps faulted (command_run E command len opcode ch sc t)"
  unfolding command_run_def command_wait_def wait_acked_def command_failed_def command_done_def
  by (auto intro!: keep faulted_exchange faulted_stats faulted.drain faulted.call faulted.machine)

text \<open>C39: if probe could not allocate the statistics slots, it still succeeds with statistics
  enabled, and the first procedure call dereferences the missing array.\<close>

theorem command_without_slots_faults:
  assumes "stats_on s" "slots (stats_ring s) = None"
    and "run_state (ane_rtclient_command E command len CSNE_CMD_PROCEDURE_CALL ch) (probe_stats False s) = (r, s')"
  shows "faulted s'"
proof -
  have arm: "wp (trace_arm E CSNE_CMD_PROCEDURE_CALL) (\<lambda>_ t. stats_on t \<and> slots (stats_ring t) = None) s"
    using assms(1,2) by (auto simp: trace_arm_def trace_add_wp fault_def wp split: option.splits)
  have "wp (ane_rtclient_command E command len CSNE_CMD_PROCEDURE_CALL ch) (\<lambda>_. faulted) s"
    unfolding ane_rtclient_command_def wp_bind [of "trace_arm E CSNE_CMD_PROCEDURE_CALL"]
  proof (rule wp_mono [OF arm], elim conjE)
    fix t :: "'a drv_scheme"
    assume t: "stats_on t" "slots (stats_ring t) = None"
    have "ane_stats_begin (stats_ctrs t) (stats_ring t) x 1 = None" for x
      using t(2) by (auto simp: ane_stats_begin_def put_slot_def Let_def split: option.splits)
    then show "wp (do {
       s \<leftarrow> get_st;
       let stats_call = (stats_on s \<and> CSNE_CMD_PROCEDURE_CALL = CSNE_CMD_PROCEDURE_CALL);
       ticket \<leftarrow> (if stats_call then stats_open E else ret 0);
       command_run E command len CSNE_CMD_PROCEDURE_CALL ch stats_call ticket }) (\<lambda>_. faulted) t"
      using t by (auto simp: wp stats_open_def fault_def intro!: keepsD [OF faulted_run])
  qed
  then show ?thesis using assms(3) by (simp add: probe_stats_def wp_def)
qed

section \<open>Memory the firmware names\<close>

text \<open>\<open>len\<close> bytes at CPU address \<open>a\<close> lie in memory the host gave to the firmware.\<close>

definition in_buffer :: "u64 \<Rightarrow> u64 \<Rightarrow> u64 \<Rightarrow> nat \<Rightarrow> bool" where
  "in_buffer cpu sz a len \<longleftrightarrow> (\<exists>off. a = cpu + off \<and> unat off + len \<le> unat sz)"

definition host_mem :: "'m rtc_scheme \<Rightarrow> u64 \<Rightarrow> nat \<Rightarrow> bool" where
  "host_mem s a len \<longleftrightarrow>
     (\<exists>b\<in>set (take (legacy_allocated s) (legacy_buffers s)). bcpu b \<noteq> 0 \<and> in_buffer (bcpu b) (bsize b) a len) \<or>
     in_buffer (boot_ipc_cpu s) (boot_ipc_size s) a len"

text \<open>The DMA layer never hands out the lowest IOVA page.\<close>

definition iova_pos :: "'m rtc_scheme \<Rightarrow> bool" where
  "iova_pos s \<longleftrightarrow> 0x4000 \<le> boot_ipc_iova s \<and> (\<forall>b\<in>set (legacy_buffers s). bcpu b \<noteq> 0 \<longrightarrow> 0x4000 \<le> bdma b)"

lemma window_in_bounds:
  assumes "iova \<ge> dma" "iova - dma + len \<le> sz" "0x4000 \<le> dma" "unat len \<le> 0x4000"
  shows "unat (iova - dma) + unat (len :: u64) \<le> unat sz"
proof -
  have "unat (iova - dma) = unat iova - unat dma" using assms(1) by (simp add: unat_sub_exact)
  moreover have "0x4000 \<le> unat dma" using assms(3) by (simp add: word_le_nat_alt)
  ultimately have "unat (iova - dma) + unat len < 2 ^ 64"
    using assms(4) unat_lt_2p64 [of iova] by simp
  then have "unat (iova - dma + len) = unat (iova - dma) + unat len" by (simp add: unat_add_exact)
  then show ?thesis using assms(2) by (simp add: word_le_nat_alt)
qed

lemma first_some_Some: "first_some f xs = Some y \<Longrightarrow> \<exists>x\<in>set xs. f x = Some y"
  by (induction xs) (auto split: option.splits)

lemma fw_cpu_host:
  assumes "ane_rtclient_fw_cpu s iova len = Some a" "iova_pos s" "unat len \<le> 0x4000"
  shows "host_mem s a (unat len)"
proof (cases "first_some (buffer_cpu iova len) (take (legacy_allocated s) (legacy_buffers s))")
  case None
  then have "iova \<ge> boot_ipc_iova s" "iova - boot_ipc_iova s + len \<le> boot_ipc_size s"
    "a = boot_ipc_cpu s + (iova - boot_ipc_iova s)"
    using assms(1) by (auto simp: ane_rtclient_fw_cpu_def split: if_splits)
  then show ?thesis
    using window_in_bounds [of "boot_ipc_iova s" iova len] assms(2,3)
    by (auto simp: host_mem_def in_buffer_def iova_pos_def)
next
  case (Some a')
  then have [simp]: "a' = a" using assms(1) by (simp add: ane_rtclient_fw_cpu_def)
  obtain b where b: "b \<in> set (take (legacy_allocated s) (legacy_buffers s))" "buffer_cpu iova len b = Some a"
    using first_some_Some [OF Some] by auto
  then have c: "bcpu b \<noteq> 0" "iova \<ge> bdma b" "iova - bdma b + len \<le> bsize b" "a = bcpu b + (iova - bdma b)"
    by (auto simp: buffer_cpu_def split: if_splits)
  have "0x4000 \<le> bdma b" using b(1) c(1) assms(2) by (auto simp: iova_pos_def dest: in_set_takeD)
  then have "in_buffer (bcpu b) (bsize b) a (unat len)"
    using window_in_bounds [OF c(2,3)] assms(3) c(4) by (auto simp: in_buffer_def)
  then show ?thesis using b(1) c(1) by (auto simp: host_mem_def)
qed


fun mem_ok :: "'m rtc_scheme \<Rightarrow> ev \<Rightarrow> bool" where
  "mem_ok s (Read (Mem a) v) = host_mem s a 4"
| "mem_ok s _ = True"

interpretation mem: trace_grammar "list_all (mem_ok s)"
  by unfold_locales simp_all

lemma mem_event:
  "mem_ok s0 e \<Longrightarrow> follows (cmd_framed s0) (list_all (mem_ok s0)) (emit e)"
  "follows (cmd_framed s0) (list_all (mem_ok s0)) (wrl l v)"
  "(\<And>v. mem_ok s0 (Read l v)) \<Longrightarrow> follows (cmd_framed s0) (list_all (mem_ok s0)) (rdl E l)"
  by (rule mem.event; simp add: cmd_framed_def)+

lemma mem_trace_add: "follows (cmd_framed s0) (list_all (mem_ok s0)) (ane_t6021_trace_add E k w)"
  unfolding ane_t6021_trace_add_def fault_def
  by (intro mem.get_bind foll mem.modify) (simp_all add: cmd_framed_def)

lemma in_buffer_sub:
  assumes "in_buffer cpu sz a n" "unat d + k \<le> n" "n \<le> 0x4000"
  shows "in_buffer cpu sz (a + d) k"
proof -
  obtain off where off: "a = cpu + off" "unat off + n \<le> unat sz" using assms(1) by (auto simp: in_buffer_def)
  have "unat (off + d) = unat off + unat d"
    using assms off unat_lt_2p64 [of sz] by (intro unat_add_exact) linarith
  then show ?thesis
    using off assms by (auto simp: in_buffer_def intro!: exI [of _ "off + d"])
qed

lemma host_mem_sub:
  assumes "host_mem s a n" "unat d + k \<le> n" "n \<le> 0x4000"
  shows "host_mem s (a + d) k"
  using assms in_buffer_sub unfolding host_mem_def by blast

lemma cmd_framed_cpu:
  assumes "cmd_framed s0 t"
  shows "ane_rtclient_fw_cpu t iova len = ane_rtclient_fw_cpu s0 iova len"
  using assms by (simp add: ane_rtclient_fw_cpu_def cmd_framed_def split: option.splits)

lemma mem_t2h:
  assumes "iova_pos s0"
  shows "follows (cmd_framed s0) (list_all (mem_ok s0)) (t2h_event E ch hdr len)"
proof -
  have "host_mem s0 (ev + ANE_T2H_CALL_COOKIE_OFF) 4" "host_mem s0 (ev + ANE_T2H_CALL_STATE_OFF) 4"
    if "ane_rtclient_fw_cpu s0 hdr (ANE_T2H_CALL_STATE_OFF + 4) = Some ev" for ev
    using host_mem_sub [OF fw_cpu_host [OF that assms]]
    by (simp_all add: ANE_T2H_CALL_STATE_OFF_def ANE_T2H_CALL_COOKIE_OFF_def)
  then show ?thesis
    unfolding t2h_event_def
    by (intro mem.get_bind foll mem.bind mem.ret mem_event(3) mem.guarded mem_trace_add)
       (auto simp: cmd_framed_cpu)
qed

lemma mem_cursor: "follows (cmd_framed s0) (list_all (mem_ok s0)) (modify (\<lambda>s. s\<lparr>legacy_cmd_cursor := f s\<rparr>))"
  by (rule mem.modify) (simp_all add: cmd_framed_def)

lemma mem_drain:
  assumes "iova_pos s0"
  shows "follows (cmd_framed s0) (list_all (mem_ok s0)) (ane_rtclient_drain_t2h E ch)"
proof -
  have "follows (cmd_framed s0) (list_all (mem_ok s0)) (drain_loop E ch n i fin)" for n i fin
    by (induction n arbitrary: i fin)
      (auto intro!: mem.bind mem.ret mem_event mem_t2h [OF assms] mem_cursor foll simp: slot_word_def doorbell_def)
  then show ?thesis unfolding ane_rtclient_drain_t2h_def by (intro mem.get_bind foll mem.ret)
qed

lemma mem_scan: "follows (cmd_framed s0) (list_all (mem_ok s0)) (ps_scan E is)"
  by (induction "is") (auto intro!: mem.bind mem.ret mem_event foll)

lemma mem_wait:
  assumes "iova_pos s0"
  shows "follows (cmd_framed s0) (list_all (mem_ok s0)) (ane_rtclient_call_wait E)"
proof -
  have turn: "follows (cmd_framed s0) (list_all (mem_ok s0)) (traced_turn E ps st)" for ps st
    unfolding traced_turn_def trace_sample_def trace_record_def
    by (intro mem.get_bind mem.bind mem.guarded mem.ret mem_event foll mem_scan mem_trace_add) simp_all
  have traced: "follows (cmd_framed s0) (list_all (mem_ok s0)) (traced_loop E ps n st)" for ps n st
    by (induction n arbitrary: st) (auto intro!: mem.bind foll mem.ret mem_drain [OF assms] turn)
  have loop: "follows (cmd_framed s0) (list_all (mem_ok s0)) (wait_loop E n)" for n
    by (induction n) (auto intro!: mem.bind foll mem.ret mem_drain [OF assms] mem_event)
  show ?thesis
    unfolding ane_rtclient_call_wait_def ane_rtclient_call_wait_traced_def
    by (intro mem.get_bind mem.bind foll mem.ret traced loop mem_drain [OF assms] mem_trace_add)
qed


section \<open>Finish events\<close>

text \<open>The trace shows a finish event: the two reads of one event record in host memory, with the
  call's cookie and the finished state.\<close>

definition finish_seen :: "'m rtc_scheme \<Rightarrow> trace \<Rightarrow> bool" where
  "finish_seen s es \<longleftrightarrow>
     (\<exists>xs ys hdr ev v. es = xs @ [Read (Mem (ev + ANE_T2H_CALL_COOKIE_OFF)) ANE_CALL_COOKIE,
                             Read (Mem (ev + ANE_T2H_CALL_STATE_OFF)) v] @ ys \<and>
        ucast v = ANE_T2H_CALL_FINISHED \<and>
        ane_rtclient_fw_cpu s hdr (ANE_T2H_CALL_STATE_OFF + 4) = Some ev)"

lemma finish_app: "finish_seen s es \<Longrightarrow> finish_seen s (xs @ es @ ys)"
  unfolding finish_seen_def by (metis append.assoc)

text \<open>\<open>reports s0 P A m\<close>: when the answer of \<open>m\<close> is in \<open>A\<close>, \<open>P\<close> holds or its trace shows a finish event.\<close>

definition reports :: "'m drv_scheme \<Rightarrow> bool \<Rightarrow> ('a \<Rightarrow> bool) \<Rightarrow> ('m drv_scheme, 'a) state \<Rightarrow> bool" where
  "reports s0 P A m \<longleftrightarrow> (\<forall>s. cmd_framed s0 s \<longrightarrow>
     wp m (\<lambda>f s'. cmd_framed s0 s' \<and> (\<exists>es. trace s' = trace s @ es \<and> (A f \<longrightarrow> P \<or> finish_seen s0 es))) s)"

lemma reportsD: "reports s0 P A m \<Longrightarrow> cmd_framed s0 s \<Longrightarrow>
     wp m (\<lambda>f s'. cmd_framed s0 s' \<and> (\<exists>es. trace s' = trace s @ es \<and> (A f \<longrightarrow> P \<or> finish_seen s0 es))) s"
  by (simp add: reports_def)

lemma reports_weaken: "reports s0 P A m \<Longrightarrow> (P \<Longrightarrow> Q) \<Longrightarrow> reports s0 Q A m"
  unfolding reports_def by (fast intro: wp_mono)

lemma reports_ret: "(A b \<Longrightarrow> P) \<Longrightarrow> reports s0 P A (ret b)"
  by (auto simp: reports_def wp)

lemma reports_if: "(b \<Longrightarrow> reports s0 P A m) \<Longrightarrow> (\<not> b \<Longrightarrow> reports s0 P A n) \<Longrightarrow> reports s0 P A (if b then m else n)"
  by simp

lemma reports_get: "(\<And>t. cmd_framed s0 t \<Longrightarrow> reports s0 P A (f t)) \<Longrightarrow> reports s0 P A (State_Monad.bind get_st f)"
  by (auto simp: reports_def wp)

lemma reports_skip:
  assumes "extends (\<lambda>_. True) m" "keeps (cmd_framed s0) m" "\<And>a. reports s0 P A (f a)"
  shows "reports s0 P A (State_Monad.bind m f)"
  unfolding reports_def wp_bind
proof (intro allI impI)
  fix s assume s: "cmd_framed s0 s"
  have "wp m (\<lambda>_ s'. \<exists>es. trace s' = trace s @ es \<and> list_all (\<lambda>_. True) es) s"
    using assms(1) by (simp add: extends_def)
  from wp_conj [OF this keepsD [OF assms(2) s]]
  show "wp m (\<lambda>a. wp (f a) (\<lambda>f s'. cmd_framed s0 s' \<and> (\<exists>es. trace s' = trace s @ es \<and> (A f \<longrightarrow> P \<or> finish_seen s0 es)))) s"
  proof (rule wp_mono, elim conjE exE)
    fix a s' es assume t: "trace s' = trace s @ es" and "cmd_framed s0 s'"
    then show "wp (f a) (\<lambda>f s'. cmd_framed s0 s' \<and> (\<exists>es. trace s' = trace s @ es \<and> (A f \<longrightarrow> P \<or> finish_seen s0 es))) s'"
      using finish_app [of s0 _ es "[]"] by (intro wp_mono [OF reportsD [OF assms(3)]]) auto
  qed
qed

lemma reports_bind:
  assumes "reports s0 P B m" "\<And>a. reports s0 (P \<or> B a) A (f a)"
  shows "reports s0 P A (State_Monad.bind m f)"
  unfolding reports_def wp_bind
proof (intro allI impI)
  fix s assume s: "cmd_framed s0 s"
  show "wp m (\<lambda>a. wp (f a) (\<lambda>f s'. cmd_framed s0 s' \<and> (\<exists>es. trace s' = trace s @ es \<and> (A f \<longrightarrow> P \<or> finish_seen s0 es)))) s"
  proof (rule wp_mono [OF reportsD [OF assms(1) s]], elim conjE exE)
    fix a s' es assume t: "trace s' = trace s @ es" "cmd_framed s0 s'" "B a \<longrightarrow> P \<or> finish_seen s0 es"
    then show "wp (f a) (\<lambda>f s'. cmd_framed s0 s' \<and> (\<exists>es. trace s' = trace s @ es \<and> (A f \<longrightarrow> P \<or> finish_seen s0 es))) s'"
      using finish_app [of s0 _ es "[]"] finish_app [of s0 es "[]"]
      by (intro wp_mono [OF reportsD [OF assms(2)]]) auto
  qed
qed

lemma reports_event: "reports s0 False (\<lambda>f. f) (t2h_event E ch hdr len)"
  unfolding reports_def
proof (intro allI impI)
  fix s assume s: "cmd_framed s0 s"
  have "finish_seen s0 [Read (Mem (ev + ANE_T2H_CALL_COOKIE_OFF)) ANE_CALL_COOKIE, Read (Mem (ev + ANE_T2H_CALL_STATE_OFF)) v]"
    if "ane_rtclient_fw_cpu s hdr (ANE_T2H_CALL_STATE_OFF + 4) = Some ev" "ucast v = ANE_T2H_CALL_FINISHED" for ev v
    using that cmd_framed_cpu [OF s] unfolding finish_seen_def by (intro exI [of _ "[]"] exI conjI) auto
  then show "wp (t2h_event E ch hdr len) (\<lambda>f s'. cmd_framed s0 s' \<and>
      (\<exists>es. trace s' = trace s @ es \<and> (f \<longrightarrow> False \<or> finish_seen s0 es))) s"
    using s by (auto simp: t2h_event_def wp trace_add_wp cmd_framed_def split: option.splits)
qed

lemma extends_any [exts]:
  "extends (\<lambda>_. True) (ane_t6021_trace_add E k w)" "extends (\<lambda>_. True) (doorbell d)"
  "extends (\<lambda>_. True) (ps_scan E is)" "extends (\<lambda>_. True) (traced_turn E ps st)"
proof -
  show a: "extends (\<lambda>_. True) (ane_t6021_trace_add E k w)" for E k w
    unfolding ane_t6021_trace_add_def fault_def by (intro exts) simp_all
  show "extends (\<lambda>_. True) (doorbell d)" unfolding doorbell_def by (intro exts) simp
  have p: "extends (\<lambda>_. True) (ps_scan E is)" for "is" by (induction "is") (auto intro!: exts)
  then show "extends (\<lambda>_. True) (ps_scan E is)" .
  show "extends (\<lambda>_. True) (traced_turn E ps st)"
    unfolding traced_turn_def trace_sample_def trace_record_def by (intro exts p a) simp_all
qed

lemma cmdf_turn [keep]: "keeps (cmd_framed s0) (traced_turn E ps st)"
  unfolding traced_turn_def trace_sample_def trace_record_def by (intro keep cmdf.scan)

lemma reports_drain_loop: "reports s0 fin (\<lambda>f. f) (drain_loop E ch n i fin)"
proof (induction n arbitrary: i fin)
  case 0
  then show ?case by (simp add: reports_ret)
next
  case (Suc n)
  have c: "keeps (cmd_framed s0) (modify (\<lambda>s. s\<lparr>legacy_cmd_cursor := f s\<rparr>))" for f
    by (rule keeps_modify) (simp add: cmd_framed_def)
  show ?case unfolding drain_loop.simps
    by (intro reports_skip reports_if reports_bind [OF reports_weaken [OF reports_event]] reports_ret Suc.IH exts keep c) simp_all
qed

lemma reports_drain: "reports s0 False (\<lambda>f. f) (ane_rtclient_drain_t2h E ch)"
  unfolding ane_rtclient_drain_t2h_def
  by (intro reports_get reports_if reports_drain_loop reports_ret) simp

lemma reports_traced: "reports s0 False fst (traced_loop E ps n st)"
  by (induction n arbitrary: st)
    (auto intro!: reports_bind [OF reports_drain] reports_if reports_skip reports_ret exts keep)

lemma reports_wait_loop: "reports s0 False (\<lambda>f. f) (wait_loop E n)"
  by (induction n)
    (auto intro!: reports_bind [OF reports_drain] reports_if reports_skip reports_ret exts keep)

lemma reports_wait: "reports s0 False (\<lambda>r. r = None) (ane_rtclient_call_wait E)"
proof -
  have last: "reports s0 f (\<lambda>g. g) (if f then ret True else ane_rtclient_drain_t2h E 6)" for f
    by (intro reports_if reports_ret reports_weaken [OF reports_drain]) simp_all
  have tail: "reports s0 f (\<lambda>r. r = None) (do {
      g \<leftarrow> (if f then ret True else ane_rtclient_drain_t2h E 6);
      ane_t6021_trace_add E TR_DONE w;
      ret (if g then None else Some ETIMEDOUT) })" for f w
    by (rule reports_bind [OF last]) (auto intro!: reports_skip reports_ret exts keep split: if_splits)
  have "reports s0 False (\<lambda>r. r = None) (ane_rtclient_call_wait_traced E)"
    unfolding ane_rtclient_call_wait_traced_def Let_def
    by (intro reports_get reports_bind [OF reports_traced]) (simp only: split_beta simp_thms tail)
  moreover have "reports s0 f (\<lambda>r. r = None) (do {
      g \<leftarrow> (if f then ret True else ane_rtclient_drain_t2h E 6);
      ret (if g then None else Some ETIMEDOUT) })" for f
    by (rule reports_bind [OF last]) (auto intro!: reports_ret split: if_splits)
  ultimately show ?thesis
    unfolding ane_rtclient_call_wait_def
    by (intro reports_get reports_if reports_bind [OF reports_wait_loop]) (simp_all only: simp_thms)
qed

lemma extends_command_done: "extends (\<lambda>_. True) (command_done E sc t)"
proof -
  have event: "extends (\<lambda>_. True) (t2h_event E ch hdr len)" for ch hdr len
    unfolding t2h_event_def by (intro exts) simp_all
  have loop: "extends (\<lambda>_. True) (drain_loop E ch n i fin)" for ch n i fin
    by (induction n arbitrary: i fin) (auto intro!: exts event)
  have drain: "extends (\<lambda>_. True) (ane_rtclient_drain_t2h E ch)" for ch
    unfolding ane_rtclient_drain_t2h_def by (intro exts loop)
  have "extends (\<lambda>_. True) (stats_close E t None)"
    unfolding stats_close_def fault_def by (intro exts) simp_all
  then show ?thesis unfolding command_done_def by (intro exts drain)
qed

lemma extends_command_failed: "extends (\<lambda>_. True) (command_failed E sc t e)"
  unfolding command_failed_def stats_close_def fault_def by (intro exts) simp_all

lemma reports_acked: "reports s0 False (\<lambda>r. r = None) (wait_acked E)"
proof -
  have off: "keeps (cmd_framed s0) (modify (\<lambda>s. s\<lparr>tracing := False\<rparr>))"
    by (rule keeps_modify) (simp add: cmd_framed_def)
  show ?thesis unfolding wait_acked_def
  proof (intro reports_get reports_skip [of "guarded b m" for b m] reports_bind [OF reports_wait])
    show "reports s0 (False \<or> r = None) (\<lambda>r. r = None)
      (do { modify (\<lambda>s. s\<lparr>tracing := False\<rparr>); s \<leftarrow> get_st;
            guarded (r = None \<and> call_settle_us s \<noteq> 0) (emit Sleep); ret r })" for r
      by (intro reports_get reports_skip reports_ret exts keep off) simp_all
  qed (auto intro!: exts keep)
qed

definition finished_since :: "trace \<Rightarrow> 'm drv_scheme \<Rightarrow> bool" where
  "finished_since tr s \<longleftrightarrow> (\<exists>es. trace s = tr @ es \<and> finish_seen s es)"

lemma finish_framed: "cmd_framed t s \<Longrightarrow> finish_seen t es \<Longrightarrow> finish_seen s es"
  by (simp add: finish_seen_def cmd_framed_cpu)

lemma command_wait_finished:
  assumes "trace s = tr @ es0"
  shows "wp (command_wait E sc t) (\<lambda>r s'. r = None \<longrightarrow> finished_since tr s') s"
  unfolding command_wait_def wp_bind
proof (rule wp_mono [OF reportsD [OF reports_acked cmd_framed_refl]], elim conjE exE)
  fix r :: "errno option" and s1 :: "'a drv_scheme" and es
  assume s1: "cmd_framed s s1" "trace s1 = trace s @ es" "r = None \<longrightarrow> False \<or> finish_seen s es"
  show "wp (case r of None \<Rightarrow> command_done E sc t | Some e \<Rightarrow> command_failed E sc t e)
          (\<lambda>r s'. r = None \<longrightarrow> finished_since tr s') s1"
  proof (cases r)
    case None
    have "wp (command_done E sc t) (\<lambda>_ s'. cmd_framed s s' \<and> (\<exists>es'. trace s' = trace s1 @ es' \<and> list_all (\<lambda>_. True) es')) s1"
      using wp_conj [OF keepsD [OF cmdf_done s1(1)]] extends_command_done by (fastforce simp: extends_def)
    then have "wp (command_done E sc t) (\<lambda>r s'. r = None \<longrightarrow> finished_since tr s') s1"
    proof (rule wp_mono, elim conjE exE, intro impI)
      fix r' s' es'
      assume s': "cmd_framed s s'" "trace s' = trace s1 @ es'"
      have "finish_seen s' (es0 @ es @ es')"
        using finish_app [of s' es es0 es'] finish_framed [OF s'(1)] s1(3) None by simp
      then show "finished_since tr s'" using s' s1 assms by (auto simp: finished_since_def)
    qed
    then show ?thesis using None by simp
  next
    case (Some e)
    then show ?thesis by (simp add: command_failed_def wp wp_true)
  qed
qed

lemma exchange_grows:
  fixes E :: "'e cmd_env_scheme"
  shows "wp (ane_rtclient_legacy_exchange E command len opcode ch) (\<lambda>_ v. \<exists>es. trace v = trace u @ es) (u :: 'm drv_scheme)"
proof -
  have "extends (\<lambda>_. True) (ane_rtclient_legacy_exchange E command len opcode ch :: ('m drv_scheme, errno option) state)"
    by (rule extends_mono [OF td_cmd.exchange_quiet]) simp
  then show ?thesis by (simp add: extends_def list_all_iff)
qed

text \<open>C3: a procedure call succeeds only if the firmware posted its finish event: the trace of the
  command contains the read of an event record, in memory the host gave to the firmware, with the
  call's cookie and the state finished.  An acknowledged exchange alone is never reported as a
  finished call.\<close>

theorem call_succeeds_only_after_finish:
  fixes s s' :: "'m drv_scheme"
  assumes "run_state (ane_rtclient_command E command len CSNE_CMD_PROCEDURE_CALL ch) s = (None, s')"
  shows "\<exists>es. trace s' = trace s @ es \<and> finish_seen s' es"
proof -
  let ?op = CSNE_CMD_PROCEDURE_CALL
  have run: "wp (command_run E command len ?op ch sc t) (\<lambda>r s'. r = None \<longrightarrow> finished_since (trace s) s') u"
    if u: "trace u = trace s" for sc t and u :: "'m drv_scheme"
    unfolding command_run_def wp_bind
  proof (rule wp_mono [OF exchange_grows])
    fix r :: "errno option" and v :: "'m drv_scheme"
    assume "\<exists>es. trace v = trace u @ es"
    then obtain es where "trace v = trace s @ es" using u by auto
    then show "wp (case r of
       None \<Rightarrow> if ?op = ?op then command_wait E sc t else command_done E sc t
     | Some e \<Rightarrow> do { modify (\<lambda>s. s\<lparr>tracing := False\<rparr>); command_failed E sc t e })
        (\<lambda>r s'. r = None \<longrightarrow> finished_since (trace s) s') v"
      using command_wait_finished by (auto simp: wp command_failed_def wp_true split: option.splits)
  qed
  have "wp (ane_rtclient_command E command len ?op ch) (\<lambda>r s'. r = None \<longrightarrow> finished_since (trace s) s') s"
    unfolding ane_rtclient_command_def wp_bind [of "trace_arm E ?op"]
    by (rule wp_mono [OF arm_wp])
      (simp add: wp stats_open_def fault_def Let_def run split: option.splits)
  then show ?thesis using assms by (simp add: wp_def finished_since_def)
qed

end
