(* ===== verification/Ane_Runs.thy ===== *)
theory Ane_Runs
  imports Ane_Command
begin

text \<open>
  Concrete runs of the transport: a firmware that answers, evaluated through the definitions,
  and the properties of the transport applied to them.
\<close>

section \<open>A concrete exchange\<close>

text \<open>A firmware that published the pinned channel table, owns no slot, and completes the first
  command on the IO channel as soon as it is published.\<close>

definition ex_desc :: "chman_static \<Rightarrow> chman_desc" where
  "ex_desc c = \<lparr>cd_name = c_string (cs_name c) @ replicate 48 0, cd_type = cs_type c,
                cd_bit = of_nat (cs_bit c), cd_size = of_nat (cs_size c),
                cd_ring = 0x10000 + of_nat (cs_off c)\<rparr>"

definition ex_rd :: "trace \<Rightarrow> loc \<Rightarrow> u64" where
  "ex_rd tr l =
     (if l = Ipc 0xc800 \<and> Write (Ipc 0xc800) 0x8000 \<in> set tr then 0x8001
      else if l = Ipc 0xc808 then 16
      else if l = Ipc 0xc810 \<or> l = Cmd 6 then 0
      else if l = Cmd 4 then 3
      else 1)"

definition ex_fw :: fw_env where
  "ex_fw = \<lparr>rd = ex_rd, dmalloc = (\<lambda>_ _. None), polls = (\<lambda>_. Suc (Suc 0)),
            chman_table = (\<lambda>_. map ex_desc ane_t6021_chman_layout)\<rparr>"

definition ex_rtc :: rtc where
  "ex_rtc = \<lparr>trace = [],
     legacy_buffers = (replicate ANE_LEGACY_ALLOCS zero_buffer)[0 := \<lparr>bcpu = 0x1000, bdma = 0x8000, bsize = 0x4000\<rparr>],
     legacy_last = 0, legacy_allocated = 1, legacy_bytes = 0x4000, legacy_malloc_cursor = 0,
     legacy_cmd_cursor = replicate 8 0, cmd_buf = Some 0, held = True, chman_ok = True,
     fw_present = True, boot_ipc = True, boot_ipc_cpu = 0x2000, boot_ipc_iova = 0x10000,
     boot_ipc_size = 0x11000, fw_alias_iova = 0, fw_size = 0, quarantined = False\<rparr>"

definition ex_small :: rtc where
  "ex_small = \<lparr>trace = [],
     legacy_buffers = [\<lparr>bcpu = 0x1000, bdma = 0x8000, bsize = 0x4000\<rparr>],
     legacy_last = 0, legacy_allocated = 1, legacy_bytes = 0x4000, legacy_malloc_cursor = 0,
     legacy_cmd_cursor = replicate 8 0, cmd_buf = Some 0, held = True, chman_ok = True,
     fw_present = True, boot_ipc = True, boot_ipc_cpu = 0x2000, boot_ipc_iova = 0x10000,
     boot_ipc_size = 0x11000, fw_alias_iova = 0, fw_size = 0, quarantined = False\<rparr>"

lemma ex_exchange:
  "fst (run_state (ane_rtclient_legacy_exchange ex_fw 0 16 3 1) ex_small) = None"
  by code_simp

lemma ex_rtc_inv: "leg_inv ex_rtc"
proof -
  have table: "legacy_buffers ex_rtc = \<lparr>bcpu = 0x1000, bdma = 0x8000, bsize = 0x4000\<rparr> # replicate 8191 zero_buffer"
  proof -
    have "replicate 8192 zero_buffer = zero_buffer # replicate 8191 zero_buffer"
      using replicate_Suc [of 8191 zero_buffer] by (simp del: replicate_Suc)
    then show ?thesis by (simp add: ex_rtc_def ANE_LEGACY_ALLOCS_def)
  qed
  show ?thesis
    unfolding leg_inv_def leg_ok_def table
    by (auto simp: ex_rtc_def ANE_LEGACY_ALLOCS_def ANE_LEGACY_BYTES_def buf_bytes_def zero_buffer_def
        nth_Cons' map_replicate_const sum_list_replicate)
qed

theorem exchange_keeps_budget_and_command_buffer_witness:
  "\<exists>r s'. run_state (ane_rtclient_legacy_exchange ex_fw 0 16 3 1) ex_rtc = (r, s') \<and> leg_inv s' \<and> cmd_buf s' = Some 0"
proof -
  obtain r s' where run: "run_state (ane_rtclient_legacy_exchange ex_fw 0 16 3 1) ex_rtc = (r, s')" by fastforce
  have "cmd_buf ex_rtc = Some 0" by (simp add: ex_rtc_def)
  from exchange_keeps_budget_and_command_buffer [OF ex_rtc_inv this run] run show ?thesis by blast
qed


text \<open>A firmware that gives back the buffer at DMA address \<open>0x8000\<close>.\<close>

definition ex_fw_free :: fw_env where
  "ex_fw_free = ex_fw\<lparr>rd := (\<lambda>_ l. if l = Ipc 0xee00 then 0x8000 else 0)\<rparr>"

lemma ex_free:
  "fst (run_state (ane_rtclient_malloc_service ex_fw_free 0) (ex_small\<lparr>cmd_buf := None\<rparr>)) = (Inr True, 1)"
  by code_simp

theorem malloc_service_protocol_witness:
  "\<exists>s' pre tag hdr rest.
     run_state (ane_rtclient_malloc_service ex_fw_free 0) (ex_small\<lparr>cmd_buf := None\<rparr>) = ((Inr True, 1), s') \<and>
     trace s' = pre @ answer 0 tag hdr @ rest \<and> hdr AND 1 = 1"
proof -
  obtain s' where run: "run_state (ane_rtclient_malloc_service ex_fw_free 0) (ex_small\<lparr>cmd_buf := None\<rparr>) = ((Inr True, 1), s')"
    using ex_free by (metis prod.collapse)
  have "trace (ex_small\<lparr>cmd_buf := None\<rparr>) = []" by (simp add: ex_small_def)
  with malloc_service_protocol [OF run] run show ?thesis by fastforce
qed

section \<open>A concrete procedure call\<close>

text \<open>The firmware above, which also posts the finish event of the call in its IO event ring: the
  record is in the IPC surface, at IOVA \<open>0x10100\<close> and CPU address \<open>0x2100\<close>.\<close>

definition ex_call_rd :: "trace \<Rightarrow> loc \<Rightarrow> u64" where
  "ex_call_rd tr l =
     (if l = Ipc 0xf000 \<and> Write (Ipc 0xf000) 0x10101 \<notin> set tr then 0x10100
      else if l = Ipc 0xf008 then 0x20
      else if l = Mem 0x2108 then 0xADD0
      else if l = Mem 0x211c then 1
      else if l = Cmd 4 then ucast CSNE_CMD_PROCEDURE_CALL
      else ex_rd tr l)"

definition ex_env :: cmd_env where
  "ex_env = \<lparr>rd = ex_call_rd, dmalloc = (\<lambda>_ _. None), polls = (\<lambda>_. Suc (Suc 0)),
             chman_table = (\<lambda>_. map ex_desc ane_t6021_chman_layout),
             now_ns = (\<lambda>tr. of_nat (length tr)), ps_mapped = (\<lambda>_. True)\<rparr>"

definition ex_drv :: drv where
  "ex_drv = \<lparr>trace = [],
     legacy_buffers = [\<lparr>bcpu = 0x1000, bdma = 0x8000, bsize = 0x4000\<rparr>],
     legacy_last = 0, legacy_allocated = 1, legacy_bytes = 0x4000, legacy_malloc_cursor = 0,
     legacy_cmd_cursor = replicate 8 0, cmd_buf = Some 0, held = True, chman_ok = True,
     fw_present = True, boot_ipc = True, boot_ipc_cpu = 0x2000, boot_ipc_iova = 0x10000,
     boot_ipc_size = 0x11000, fw_alias_iova = 0, fw_size = 0, quarantined = False,
     trace_td = False, tracing = False, td_trace = None, trace_td_off = T602X_TRACE_TD_OFF, dyn_pg = False,
     call_settle_us = 0, stats_on = True,
     stats_ctrs = \<lparr>busy_ns = 0, jobs = 0, last_busy_end = 0, max_end = 0, inflight = 0\<rparr>,
     stats_ring = \<lparr>head = 0, rn = 2, mask = 1, slots = Some [zero_entry, zero_entry]\<rparr>, faulted = False\<rparr>"

lemma ex_call: "fst (run_state (ane_rtclient_command ex_env 0 16 CSNE_CMD_PROCEDURE_CALL 1) ex_drv) = None"
  by code_simp

theorem call_succeeds_only_after_finish_witness:
  "\<exists>s'. run_state (ane_rtclient_command ex_env 0 16 CSNE_CMD_PROCEDURE_CALL 1) ex_drv = (None, s') \<and>
        (\<exists>es. trace s' = trace ex_drv @ es \<and> finish_seen s' es)"
proof -
  obtain s' where run: "run_state (ane_rtclient_command ex_env 0 16 CSNE_CMD_PROCEDURE_CALL 1) ex_drv = (None, s')"
    using ex_call by (metis prod.collapse)
  with call_succeeds_only_after_finish [OF run] show ?thesis by blast
qed

theorem command_failure_quarantines_witness:
  "\<exists>s'. run_state (ane_rtclient_command ex_env 0 16 CSNE_CMD_PROCEDURE_CALL 1) ex_drv = (None, s') \<and>
        over_command ex_drv s' \<and> \<not> quarantined s'"
proof -
  obtain s' where run: "run_state (ane_rtclient_command ex_env 0 16 CSNE_CMD_PROCEDURE_CALL 1) ex_drv = (None, s')"
    using ex_call by (metis prod.collapse)
  with command_failure_quarantines [OF run] show ?thesis by (simp add: ex_drv_def)
qed

theorem command_counts_calls_witness:
  "\<exists>s'. run_state (ane_rtclient_command ex_env 0 16 CSNE_CMD_PROCEDURE_CALL 1) ex_drv = (None, s') \<and>
        \<not> faulted s' \<and> jobs (stats_ctrs s') = 1"
proof -
  obtain s' where run: "run_state (ane_rtclient_command ex_env 0 16 CSNE_CMD_PROCEDURE_CALL 1) ex_drv = (None, s')"
    using ex_call by (metis prod.collapse)
  have "stats_fit (stats_ctrs ex_drv) (stats_ring ex_drv)" "stats_on ex_drv" "\<not> faulted ex_drv"
    "trace_td ex_drv \<longrightarrow> td_trace ex_drv \<noteq> None"
    by (simp_all add: ex_drv_def stats_fit_def)
  from command_counts_calls [OF this run] run show ?thesis by (simp add: ex_drv_def)
qed

theorem task_word_read_only_when_powered_witness:
  "\<exists>r s'. run_state (ane_rtclient_command ex_env 0 16 CSNE_CMD_PROCEDURE_CALL 1) ex_drv = (r, s') \<and>
        (\<exists>es. trace s' = trace ex_drv @ es \<and> td_ok T602X_TRACE_TD_OFF es)"
proof -
  obtain r s' where run: "run_state (ane_rtclient_command ex_env 0 16 CSNE_CMD_PROCEDURE_CALL 1) ex_drv = (r, s')"
    by fastforce
  have "trace_td_off ex_drv = T602X_TRACE_TD_OFF" by (simp add: ex_drv_def)
  from task_word_read_only_when_powered [OF this run] run show ?thesis by blast
qed


theorem command_without_slots_faults_witness:
  "\<exists>r s'. run_state (ane_rtclient_command ex_env 0 16 CSNE_CMD_PROCEDURE_CALL 1)
          (probe_stats False (ex_drv\<lparr>stats_ring := \<lparr>head = 0, rn = 0, mask = 0, slots = None\<rparr>\<rparr>)) = (r, s') \<and> faulted s'"
proof -
  let ?s = "ex_drv\<lparr>stats_ring := \<lparr>head = 0, rn = 0, mask = 0, slots = None\<rparr>\<rparr>"
  obtain r s' where run: "run_state (ane_rtclient_command ex_env 0 16 CSNE_CMD_PROCEDURE_CALL 1) (probe_stats False ?s) = (r, s')"
    by fastforce
  have "stats_on ?s" "slots (stats_ring ?s) = None" by (simp_all add: ex_drv_def)
  from command_without_slots_faults [OF this run] run show ?thesis by blast
qed

end
