(* ===== verification/Ane_Bo.thy ===== *)
theory Ane_Bo
  imports Ane_Pool Ane_Progtab Ane_Legacy "HOL-Library.Multiset"
begin


text \<open>
  Buffer objects of the M2 driver (\<^verbatim>\<open>ane/t6021/ane_t6021_rtclient_main.c\<close>): allocation
  under the global byte cap, the free-or-hold decision at the last reference, the handle lists of
  the open files, user mappings, and the marks a buffer gets when its address is published to the
  firmware.

  Everything here happens under \<^verbatim>\<open>ane_t6021_bo_lock\<close> (or on a buffer nobody else can reach),
  so the operations are functions on one record, the world of buffers.  A
  \<^verbatim>\<open>struct ane_t6021_bo *\<close> is a number; the DMA memory of a buffer has the number of the
  structure it was allocated with, and can outlive it.  The page shift \<open>ps\<close>, the cap in bytes and
  the firmware-alias check are arguments.

  Two fields have no counterpart in the code and are never read by an operation: \<open>prog_held\<close>, the
  references programs hold on their sections, and \<open>io_pub\<close>, the buffers whose address an execution
  passed to the firmware.  The field \<open>residue\<close> of a memory block says that it may hold bytes of an
  earlier client.
\<close>

definition ANE_T6021_BO_MAX :: u64 where "ANE_T6021_BO_MAX = 0x40000000"

record bo =
  handle :: u32
  owner :: nat
  refcount :: nat
  dma :: u64
  bo_size :: u64
  fw_ref :: bool
  fw_program :: bool
  fw_io :: bool
  prog_refs :: u16
  bo_ent :: pool_ent

record dma_mem =
  mdma :: u64
  msize :: u64
  residue :: bool

record bw =
  bos :: "nat \<Rightarrow> bo option"
  mem :: "nat \<Rightarrow> dma_mem option"
  next_bo :: nat
  files :: "(nat \<times> nat list) list"     \<comment> \<open>open files with their handle lists\<close>
  vmas :: "nat list"                     \<comment> \<open>the buffer of each user mapping\<close>
  bo_pool :: pool
  total :: int                           \<comment> \<open>\<^verbatim>\<open>ane_t6021_bo_total_bytes\<close>\<close>
  next_handle :: u32
  prog_held :: "nat list"
  io_pub :: "nat set"

definition set_bo :: "nat \<Rightarrow> (bo \<Rightarrow> bo) \<Rightarrow> bw \<Rightarrow> bw" where
  "set_bo i f w = (case bos w i of None \<Rightarrow> w | Some b \<Rightarrow> w\<lparr>bos := (bos w)(i \<mapsto> f b)\<rparr>)"

definition set_residue :: "nat \<Rightarrow> bool \<Rightarrow> bw \<Rightarrow> bw" where
  "set_residue i r w = w\<lparr>mem := (mem w)(i := map_option (\<lambda>m. m\<lparr>residue := r\<rparr>) (mem w i))\<rparr>"

definition fd_list :: "bw \<Rightarrow> nat \<Rightarrow> nat list option" where
  "fd_list w fd = map_of (files w) fd"

section \<open>The last reference\<close>

text \<open>\<^verbatim>\<open>dma_free_coherent\<close> and \<^verbatim>\<open>kfree\<close> of a buffer, with its bytes given back.\<close>

definition bo_free_mem :: "nat \<Rightarrow> nat \<Rightarrow> bw \<Rightarrow> bw" where
  "bo_free_mem ps i w =
     (case bos w i of
        None \<Rightarrow> w
      | Some b \<Rightarrow> w\<lparr>total := total w - int (unat (PAGE_ALIGN ps (bo_size b))),
                     mem := (mem w)(i := None), bos := (bos w)(i := None)\<rparr>)"

definition ane_t6021_pool_release_ent :: "nat \<Rightarrow> pool_ent \<Rightarrow> bw \<Rightarrow> bw" where
  "ane_t6021_pool_release_ent ps ent w = bo_free_mem ps (ent_addr ent) w"

definition ane_t6021_bo_release :: "nat \<Rightarrow> bool \<Rightarrow> nat \<Rightarrow> bw \<Rightarrow> bw" where
  "ane_t6021_bo_release ps q i w =
     (case bos w i of
        None \<Rightarrow> w
      | Some b \<Rightarrow>
          if \<not> fw_ref b then
            (case ane_t6021_pool_park ps (bo_pool w) (bo_ent b) (bo_size b) of
               (r, ent, rs, p) \<Rightarrow>
                 let w1 = fold (ane_t6021_pool_release_ent ps) rs (w\<lparr>bo_pool := p\<rparr>);
                     w2 = set_bo i (\<lambda>b. b\<lparr>bo_ent := ent\<rparr>) w1
                 in if r = None then set_residue i True w2
                    else bo_free_mem ps i w2)
          else if fw_program b \<or> q then w\<lparr>bos := (bos w)(i := None)\<rparr>
          else set_residue i True
                 (w\<lparr>bo_pool := ane_t6021_pool_park_uncharged (bo_pool w) (bo_ent b) (bo_size b)\<rparr>))"

definition kref_get :: "nat \<Rightarrow> bw \<Rightarrow> bw" where
  "kref_get i w = set_bo i (\<lambda>b. b\<lparr>refcount := refcount b + 1\<rparr>) w"

definition kref_put :: "nat \<Rightarrow> bool \<Rightarrow> nat \<Rightarrow> bw \<Rightarrow> bw" where
  "kref_put ps q i w =
     (let w' = set_bo i (\<lambda>b. b\<lparr>refcount := refcount b - 1\<rparr>) w
      in case bos w' i of
           None \<Rightarrow> w'
         | Some b \<Rightarrow> if refcount b = 0 then ane_t6021_bo_release ps q i w' else w')"

section \<open>Allocation\<close>

text \<open>What the kernel's allocators answer to one attempt.\<close>

datatype alloc_try = NoStruct | NoMem | Got u64

definition new_bo :: "nat \<Rightarrow> u64 \<Rightarrow> bo" where
  "new_bo i d = \<lparr>handle = 0, owner = 0, refcount = 0, dma = d, bo_size = 0, fw_ref = False,
     fw_program = False, fw_io = False, prog_refs = 0,
     bo_ent = \<lparr>ent_addr = i, ent_size = 0, pooled_sec = False\<rparr>\<rparr>"

type_synonym alloc_ctx = "bw \<times> alloc_try list \<times> nat option"

definition ane_t6021_bo_alloc_attempt ::
  "nat \<Rightarrow> int \<Rightarrow> (u64 \<Rightarrow> u64 \<Rightarrow> bool) \<Rightarrow> u64 \<Rightarrow> pool \<Rightarrow> alloc_ctx \<Rightarrow> errno option \<times> alloc_ctx" where
  "ane_t6021_bo_alloc_attempt ps cap alias_ok sz p c =
     (case c of (w, ts, out) \<Rightarrow>
        let pg = int (unat (PAGE_ALIGN ps sz)); w1 = w\<lparr>total := total w + pg\<rparr>
        in if total w1 > cap then (Some ENOSPC, w1\<lparr>total := total w1 - pg\<rparr>, ts, out)
           else (case ts of
               [] \<Rightarrow> (Some ENOMEM, w1\<lparr>total := total w1 - pg\<rparr>, [], out)
             | NoStruct # ts' \<Rightarrow> (Some ENOMEM, w1\<lparr>total := total w1 - pg\<rparr>, ts', out)
             | NoMem # ts' \<Rightarrow> (Some ENOMEM, w1\<lparr>total := total w1 - pg\<rparr>, ts', out)
             | Got d # ts' \<Rightarrow>
                 if \<not> is_aligned_16k d \<or> \<not> alias_ok d sz
                 then (Some ERANGE, w1\<lparr>total := total w1 - pg\<rparr>, ts', out)
                 else (None, w1\<lparr>bos := (bos w1)(next_bo w1 \<mapsto> new_bo (next_bo w1) d),
                                mem := (mem w1)(next_bo w1 \<mapsto> \<lparr>mdma = d, msize = sz, residue = False\<rparr>),
                                next_bo := next_bo w1 + 1\<rparr>, ts', Some (next_bo w1))))"

fun release_ctx :: "nat \<Rightarrow> pool_ent \<Rightarrow> alloc_ctx \<Rightarrow> alloc_ctx" where
  "release_ctx ps ent (w, ts, out) = (ane_t6021_pool_release_ent ps ent w, ts, out)"

definition pick_handle :: "bw \<Rightarrow> u32 \<times> bw" where
  "pick_handle w =
     (let h = next_handle w; w1 = w\<lparr>next_handle := h + 1\<rparr>
      in if h = 0 then (next_handle w1, w1\<lparr>next_handle := next_handle w1 + 1\<rparr>) else (h, w1))"

text \<open>The tail of \<^verbatim>\<open>BO_INIT\<close>: the buffer gets its handle and the file its reference.\<close>

definition bo_publish :: "nat \<Rightarrow> u64 \<Rightarrow> nat \<Rightarrow> bw \<Rightarrow> (u32 \<times> u64) \<times> bw" where
  "bo_publish fd sz i w =
     (let w1 = set_bo i (\<lambda>b. b\<lparr>bo_size := sz, owner := fd, refcount := 1\<rparr>) w;
          (h, w2) = pick_handle w1;
          w3 = set_bo i (\<lambda>b. b\<lparr>handle := h\<rparr>) w2
      in ((h, ucast h), w3\<lparr>files := map (\<lambda>(f, l). if f = fd then (f, l @ [i]) else (f, l)) (files w3)\<rparr>))"

definition ane_t6021_bo_init_ioctl ::
  "nat \<Rightarrow> bool \<Rightarrow> int \<Rightarrow> (u64 \<Rightarrow> u64 \<Rightarrow> bool) \<Rightarrow> nat \<Rightarrow> u64 \<Rightarrow> alloc_try list \<Rightarrow> bw \<Rightarrow> (errno + u32 \<times> u64) \<times> bw" where
  "ane_t6021_bo_init_ioctl ps q cap alias_ok fd sz tries w =
     (if sz = 0 \<or> sz > ANE_T6021_BO_MAX \<or> fd_list w fd = None then (Inl EINVAL, w)
      else case ane_t6021_pool_take ps (bo_pool w) sz q of
        (Some ent, p) \<Rightarrow>
          let i = ent_addr ent;
              w1 = set_bo i (\<lambda>b. b\<lparr>bo_ent := ent\<rparr>) (w\<lparr>bo_pool := p\<rparr>);
              w2 = (case mem w1 i of
                      None \<Rightarrow> w1
                    | Some m \<Rightarrow> set_residue i (PAGE_ALIGN ps sz < PAGE_ALIGN ps (msize m) \<and> residue m) w1);
              (r, w3) = bo_publish fd sz i w2
          in (Inr (fst r, push_bit ps (snd r)), w3)
      | (None, p) \<Rightarrow>
          (case ane_t6021_pool_alloc_retry ps (ane_t6021_bo_alloc_attempt ps cap alias_ok sz)
                  (release_ctx ps) p (w, tries, None) of
             (Some e, (w1, _, _), p1) \<Rightarrow> (Inl e, w1\<lparr>bo_pool := p1\<rparr>)
           | (None, (w1, _, None), p1) \<Rightarrow> (Inl EINVAL, w1\<lparr>bo_pool := p1\<rparr>)
           | (None, (w1, _, Some i), p1) \<Rightarrow>
               let (r, w3) = bo_publish fd sz i (w1\<lparr>bo_pool := p1\<rparr>)
               in (Inr (fst r, push_bit ps (snd r)), w3)))"

section \<open>Handles and mappings\<close>

definition bo_by_handle :: "bw \<Rightarrow> nat \<Rightarrow> u32 \<Rightarrow> nat option" where
  "bo_by_handle w fd h =
     (case fd_list w fd of
        None \<Rightarrow> None
      | Some l \<Rightarrow> find (\<lambda>i. case bos w i of None \<Rightarrow> False | Some b \<Rightarrow> handle b = h) l)"

definition ane_t6021_bo_drop :: "nat \<Rightarrow> bool \<Rightarrow> nat \<Rightarrow> nat \<Rightarrow> bw \<Rightarrow> bw" where
  "ane_t6021_bo_drop ps q fd i w =
     kref_put ps q i (w\<lparr>files := map (\<lambda>(f, l). if f = fd then (f, remove1 i l) else (f, l)) (files w)\<rparr>)"

definition ane_t6021_bo_free_ioctl :: "nat \<Rightarrow> bool \<Rightarrow> nat \<Rightarrow> u32 \<Rightarrow> bw \<Rightarrow> errno option \<times> bw" where
  "ane_t6021_bo_free_ioctl ps q fd h w =
     (if fd_list w fd = None then (Some ENODEV, w)
      else case bo_by_handle w fd h of
        None \<Rightarrow> (Some ENOENT, w)
      | Some i \<Rightarrow> (None, ane_t6021_bo_drop ps q fd i w))"

text \<open>\<open>mapped\<close> is the result of \<^verbatim>\<open>dma_mmap_coherent\<close>.\<close>

definition ane_t6021_mmap ::
  "nat \<Rightarrow> bool \<Rightarrow> nat \<Rightarrow> u64 \<Rightarrow> u64 \<Rightarrow> errno option \<Rightarrow> bw \<Rightarrow> errno option \<times> bw" where
  "ane_t6021_mmap ps q fd pgoff sz mapped w =
     (case fd_list w fd of
        None \<Rightarrow> (Some ENODEV, w)
      | Some l \<Rightarrow>
          let h = (ucast pgoff :: u32)
          in if h = 0 then (Some EINVAL, w)
             else (case find (\<lambda>i. case bos w i of None \<Rightarrow> False | Some b \<Rightarrow> handle b = h \<and> owner b = fd) l of
                 None \<Rightarrow> (Some ENOENT, w)
               | Some i \<Rightarrow>
                   let w1 = kref_get i w
                   in (case bos w1 i of
                         None \<Rightarrow> (Some ENOENT, w1)
                       | Some b \<Rightarrow>
                           if sz > PAGE_ALIGN ps (bo_size b) then (Some ENOENT, kref_put ps q i w1)
                           else if mapped \<noteq> None then (mapped, kref_put ps q i w1)
                           else (None, w1\<lparr>vmas := vmas w1 @ [i]\<rparr>))))"

definition ane_t6021_vm_open :: "nat \<Rightarrow> bw \<Rightarrow> bw" where
  "ane_t6021_vm_open k w =
     (if k < length (vmas w) then (kref_get (vmas w ! k) w)\<lparr>vmas := vmas w @ [vmas w ! k]\<rparr> else w)"

definition ane_t6021_vm_close :: "nat \<Rightarrow> bool \<Rightarrow> nat \<Rightarrow> bw \<Rightarrow> bw" where
  "ane_t6021_vm_close ps q k w =
     (if k < length (vmas w) then kref_put ps q (vmas w ! k) (w\<lparr>vmas := del_at k (vmas w)\<rparr>) else w)"

definition ane_t6021_open :: "nat \<Rightarrow> bw \<Rightarrow> bw" where
  "ane_t6021_open fd w = (if fd_list w fd = None then w\<lparr>files := files w @ [(fd, [])]\<rparr> else w)"

text \<open>The end of \<^verbatim>\<open>ane_t6021_postclose\<close>: the file's handles go, then the file.\<close>

definition close_bos :: "nat \<Rightarrow> bool \<Rightarrow> nat \<Rightarrow> bw \<Rightarrow> bw" where
  "close_bos ps q fd w =
     (case fd_list w fd of
        None \<Rightarrow> w
      | Some l \<Rightarrow>
          let w1 = fold (ane_t6021_bo_drop ps q fd) l w
          in w1\<lparr>files := filter (\<lambda>x. fst x \<noteq> fd) (files w1)\<rparr>)"

definition ane_t6021_bo_pool_max_mb_set :: "nat \<Rightarrow> errno + u32 \<Rightarrow> bw \<Rightarrow> errno option \<times> bw" where
  "ane_t6021_bo_pool_max_mb_set ps val w =
     (case val of
        Inl e \<Rightarrow> (Some e, w)
      | Inr mb \<Rightarrow>
          let w1 = w\<lparr>bo_pool := (bo_pool w)\<lparr>max_mb := mb\<rparr>\<rparr>
          in if mb = 0
             then (case pool_drain ps (bo_pool w1) of
                     (rs, p) \<Rightarrow> (None, fold (ane_t6021_pool_release_ent ps) rs (w1\<lparr>bo_pool := p\<rparr>)))
             else (None, w1))"

section \<open>Buffers the firmware is given\<close>

text \<open>The section loop of a load, one lock section: the buffer is marked and referenced before its
  address is used.\<close>

definition mark_section :: "nat \<Rightarrow> u32 \<Rightarrow> u64 \<Rightarrow> u64 \<Rightarrow> bw \<Rightarrow> (nat \<times> u64) option \<times> bw" where
  "mark_section fd h off sz w =
     (case bo_by_handle w fd h of
        None \<Rightarrow> (None, w)
      | Some i \<Rightarrow>
          (case bos w i of
             None \<Rightarrow> (None, w)
           | Some b \<Rightarrow>
               if sz \<le> bo_size b \<and> off \<le> bo_size b - sz then
                 let w1 = set_bo i (\<lambda>b. b\<lparr>fw_ref := True, fw_program := True\<rparr>) w;
                     w2 = kref_get i w1;
                     w3 = set_bo i (\<lambda>b. b\<lparr>prog_refs := prog_refs b + 1\<rparr>) w2
                 in (Some (i, dma b + off), w3\<lparr>prog_held := i # prog_held w3\<rparr>)
               else (None, w)))"

definition mark_io :: "nat \<Rightarrow> u32 \<Rightarrow> u64 \<Rightarrow> bw \<Rightarrow> u64 option \<times> bw" where
  "mark_io fd h sz w =
     (case bo_by_handle w fd h of
        None \<Rightarrow> (None, w)
      | Some i \<Rightarrow>
          (case bos w i of
             None \<Rightarrow> (None, w)
           | Some b \<Rightarrow>
               if sz > bo_size b then (None, w)
               else (Some (dma b),
                     (set_bo i (\<lambda>b. b\<lparr>fw_ref := True, fw_io := True\<rparr>) w)\<lparr>io_pub := insert i (io_pub w)\<rparr>)))"

definition section_release :: "nat \<Rightarrow> bool \<Rightarrow> nat option \<Rightarrow> bw \<Rightarrow> bw" where
  "section_release ps q s w =
     (case s of
        None \<Rightarrow> w
      | Some i \<Rightarrow>
          let w1 = set_bo i (\<lambda>b. b\<lparr>prog_refs := prog_refs b - 1\<rparr>) w;
              w2 = set_bo i (\<lambda>b. if prog_refs b = 0 then b\<lparr>fw_program := False, fw_ref := fw_io b\<rparr> else b) w1
          in kref_put ps q i (w2\<lparr>prog_held := remove1 i (prog_held w2)\<rparr>))"

definition ane_t6021_prog_release_op :: "nat \<Rightarrow> bool \<Rightarrow> prog \<Rightarrow> bw \<Rightarrow> bw" where
  "ane_t6021_prog_release_op ps q p w = fold (section_release ps q) (sec p) w"


section \<open>What the pool hands out\<close>

lemma mset_del_at: "i < length xs \<Longrightarrow> mset xs = add_mset (xs ! i) (mset (del_at i xs))"
  unfolding del_at_def by (subst id_take_nth_drop [of i xs]) simp_all

lemma evict_moves:
  assumes "ane_t6021_pool_evict_oldest ps p = (Some e, p')"
  obtains x where "e = unch x" "pooled_sec x" "mset (pool_list p) = add_mset x (mset (pool_list p'))"
proof -
  obtain i where i: "first_index pooled_sec (pool_list p) = Some i"
    using assms by (auto simp: ane_t6021_pool_evict_oldest_def split: option.splits)
  have "e = unch (pool_list p ! i)" "pool_list p' = del_at i (pool_list p)"
    using assms i by (auto simp: ane_t6021_pool_evict_oldest_def Let_def unch_def)
  then show thesis
    using that mset_del_at [OF first_index_lt [OF i]] first_index_sat [OF i] by auto
qed

lemma evict_None: "ane_t6021_pool_evict_oldest ps p = (None, p') \<Longrightarrow> p' = p"
  by (auto simp: ane_t6021_pool_evict_oldest_def Let_def split: option.splits)

text \<open>\<open>gave p rs p'\<close>: going from \<open>p\<close> to \<open>p'\<close> the pool handed the charged entries \<open>rs\<close> out.\<close>

definition gave :: "pool \<Rightarrow> pool_ent list \<Rightarrow> pool \<Rightarrow> bool" where
  "gave p rs p' \<longleftrightarrow> (\<exists>out. rs = map unch out \<and> (\<forall>e\<in>set out. pooled_sec e) \<and>
     mset (pool_list p) = mset out + mset (pool_list p'))"

lemma gave_none: "pool_list p' = pool_list p \<Longrightarrow> gave p [] p'"
  by (simp add: gave_def)

lemma gave_more:
  assumes "ane_t6021_pool_evict_oldest ps p = (Some e, q)" "gave q rs p'"
  shows "gave p (e # rs) p'"
proof -
  obtain x where x: "e = unch x" "pooled_sec x" "mset (pool_list p) = add_mset x (mset (pool_list q))"
    using evict_moves [OF assms(1)] .
  obtain out where "rs = map unch out" "\<forall>e\<in>set out. pooled_sec e"
    "mset (pool_list q) = mset out + mset (pool_list p')" using assms(2) by (auto simp: gave_def)
  with x show ?thesis unfolding gave_def by (intro exI [of _ "x # out"]) simp
qed

lemma drain_gave: "pool_drain ps p = (rs, p') \<Longrightarrow> gave p rs p'"
proof (induction ps p arbitrary: rs p' rule: pool_drain.induct)
  case (1 ps p)
  obtain r q where e: "ane_t6021_pool_evict_oldest ps p = (r, q)" by fastforce
  show ?case
  proof (cases r)
    case None
    then show ?thesis using "1.prems" e evict_None [of ps p q]
      by (auto simp: pool_drain.simps [of ps p] intro: gave_none)
  next
    case (Some x)
    then show ?thesis using "1.prems" e "1.IH" [OF e [symmetric]] gave_more [of ps p x q]
      by (auto simp: pool_drain.simps [of ps p] split: prod.splits)
  qed
qed

lemma make_room_gave: "pool_make_room ps b p = (rs, p') \<Longrightarrow> gave p rs p'"
proof (induction ps b p arbitrary: rs p' rule: pool_make_room.induct)
  case (1 ps b p)
  obtain r q where e: "ane_t6021_pool_evict_oldest ps p = (r, q)" by fastforce
  show ?case
  proof (cases "sec_bytes p > b")
    case False
    then show ?thesis using "1.prems" by (auto simp: pool_make_room.simps [of ps b p] intro: gave_none)
  next
    case over: True
    show ?thesis
    proof (cases r)
      case None
      then show ?thesis using "1.prems" over e evict_None [of ps p q]
        by (auto simp: pool_make_room.simps [of ps b p] intro: gave_none)
    next
      case (Some x)
      then show ?thesis using "1.prems" over e "1.IH" [OF over e [symmetric]] gave_more [of ps p x q]
        by (auto simp: pool_make_room.simps [of ps b p] split: prod.splits)
    qed
  qed
qed

lemma gave_cong: "gave p rs p' \<Longrightarrow> pool_list p = pool_list q \<Longrightarrow> pool_list p' = pool_list q' \<Longrightarrow> gave q rs q'"
  by (auto simp: gave_def)

lemma park_gave:
  assumes "ane_t6021_pool_park ps p ent sz = (r, ent', rs, p')"
  shows "ent_addr ent' = ent_addr ent \<and>
    (\<exists>p1. gave p rs p1 \<and> pool_list p' = (if r = None then pool_list p1 @ [parked ent sz] else pool_list p1))"
proof -
  let ?pg = "PAGE_ALIGN ps sz" and ?p1 = "p\<lparr>sec_bytes := sec_bytes p + PAGE_ALIGN ps sz\<rparr>"
  obtain rs2 p2 where mr: "pool_make_room ps (pool_budget p) ?p1 = (rs2, p2)" by fastforce
  have mg: "gave p rs2 p2" using gave_cong [OF make_room_gave [OF mr]] by simp
  obtain rs3 p3 where dr: "pool_drain ps p = (rs3, p3)" by fastforce
  note g = drain_gave [OF dr]
  show ?thesis
    using assms mg g gave_none [of p p]
    by (simp add: ane_t6021_pool_park_def Let_def mr dr parked_def split: if_splits prod.splits) (auto intro: exI [of _ p])
qed

lemma take_moves:
  assumes "ane_t6021_pool_take ps p sz q = (Some e, p')"
  shows "\<exists>x. e = unch x \<and> PAGE_ALIGN ps (ent_size x) = PAGE_ALIGN ps sz \<and> \<not> q \<and>
    mset (pool_list p) = add_mset x (mset (pool_list p'))"
proof -
  obtain i where i: "\<not> q" "first_index (\<lambda>e. PAGE_ALIGN ps (ent_size e) = PAGE_ALIGN ps sz) (pool_list p) = Some i"
    using assms by (auto simp: ane_t6021_pool_take_def split: if_splits option.splits)
  have "e = unch (pool_list p ! i)" "pool_list p' = del_at i (pool_list p)"
    using assms i by (auto simp: ane_t6021_pool_take_def Let_def unch_def split: if_splits)
  then show ?thesis
    using i mset_del_at [OF first_index_lt [OF i(2)]] first_index_sat [OF i(2)] by auto
qed

lemma take_None: "ane_t6021_pool_take ps p sz q = (None, p') \<Longrightarrow> p' = p"
  by (auto simp: ane_t6021_pool_take_def Let_def split: option.splits if_splits)


section \<open>The invariant\<close>

text \<open>Every reference to a buffer: handles, mappings, sections of programs.\<close>

definition refs :: "bw \<Rightarrow> nat multiset" where
  "refs w = mset (concat (map snd (files w))) + mset (vmas w) + mset (prog_held w)"

definition nrefs :: "nat multiset \<Rightarrow> bw \<Rightarrow> nat \<Rightarrow> nat" where
  "nrefs X w i = count (refs w + X) i"

definition nprog :: "bw \<Rightarrow> nat \<Rightarrow> nat" where
  "nprog w i = count (mset (prog_held w)) i"

definition parks :: "pool \<Rightarrow> nat \<Rightarrow> pool_ent multiset" where
  "parks p i = {#e \<in># mset (pool_list p). ent_addr e = i#}"

text \<open>The marks of a buffer that \<open>k\<close> sections of programs refer to.  The counter in the structure
  has 16 bits and may wrap.\<close>

definition flags_ok :: "nat \<Rightarrow> bo \<Rightarrow> bool" where
  "flags_ok k b \<longleftrightarrow> prog_refs b = of_nat k \<and> (fw_io b \<longrightarrow> fw_ref b) \<and>
     (k = 0 \<longrightarrow> \<not> fw_program b \<and> (fw_ref b \<longrightarrow> fw_io b))"

definition block_ok :: "nat \<Rightarrow> bo \<Rightarrow> nat \<Rightarrow> dma_mem option \<Rightarrow> bool" where
  "block_ok ps b n m \<longleftrightarrow> (case m of None \<Rightarrow> False | Some x \<Rightarrow>
     PAGE_ALIGN ps (msize x) = PAGE_ALIGN ps (bo_size b) \<and> mdma x = dma b \<and> (n > 0 \<longrightarrow> \<not> residue x))"

text \<open>What holds of one number \<open>i\<close>: its structure, its memory, the \<open>n\<close> references to it (\<open>k\<close> of
  them by sections), its entries \<open>es\<close> in the pool, whether it is in limbo (\<open>z\<close>: neither referenced
  nor parked), and whether its address was passed to the firmware by an execution (\<open>pub\<close>).\<close>

definition cell ::
  "nat \<Rightarrow> nat \<Rightarrow> bo option \<Rightarrow> dma_mem option \<Rightarrow> nat \<Rightarrow> nat \<Rightarrow> pool_ent multiset \<Rightarrow> bool \<Rightarrow> bool \<Rightarrow> bool" where
  "cell ps i bo m n k es z pub \<longleftrightarrow>
     (case bo of
        None \<Rightarrow> n = 0 \<and> es = {#} \<and> \<not> z \<and> (pub \<longrightarrow> m \<noteq> None)
      | Some b \<Rightarrow> refcount b = n \<and> ent_addr (bo_ent b) = i \<and> flags_ok k b \<and> (pub \<longrightarrow> fw_io b) \<and> block_ok ps b n m \<and>
          (if n > 0 then es = {#} \<and> \<not> z
           else if z then es = {#}
           else \<exists>e. es = {#e#} \<and> ent_size e = bo_size b \<and> pooled_sec e = (\<not> fw_ref b)))"

definition cell_at :: "nat \<Rightarrow> nat multiset \<Rightarrow> nat set \<Rightarrow> bw \<Rightarrow> nat \<Rightarrow> bool" where
  "cell_at ps X Z w i \<longleftrightarrow> cell ps i (bos w i) (mem w i) (nrefs X w i) (nprog w i)
     (parks (bo_pool w) i) (i \<in> Z) (i \<in> io_pub w)"

definition mem_bytes :: "nat \<Rightarrow> dma_mem option \<Rightarrow> int" where
  "mem_bytes ps m = (case m of None \<Rightarrow> 0 | Some x \<Rightarrow> int (unat (PAGE_ALIGN ps (msize x))))"

definition accounted :: "nat \<Rightarrow> int \<Rightarrow> bw \<Rightarrow> bool" where
  "accounted ps cap w \<longleftrightarrow> (\<forall>i\<ge>next_bo w. mem w i = None) \<and>
     total w = (\<Sum>i<next_bo w. mem_bytes ps (mem w i)) \<and> total w \<le> cap"

text \<open>The world is consistent with the references it stores plus \<open>X\<close>, with the buffers of \<open>Z\<close> in
  limbo.\<close>

definition binv :: "nat \<Rightarrow> int \<Rightarrow> nat multiset \<Rightarrow> nat set \<Rightarrow> bw \<Rightarrow> bool" where
  "binv ps cap X Z w \<longleftrightarrow> (\<forall>i. cell_at ps X Z w i) \<and> distinct (map fst (files w)) \<and> accounted ps cap w"

lemma binvI:
  "(\<And>i. cell_at ps X Z w i) \<Longrightarrow> distinct (map fst (files w)) \<Longrightarrow> accounted ps cap w \<Longrightarrow> binv ps cap X Z w"
  by (simp add: binv_def)

lemma binvD:
  assumes "binv ps cap X Z w"
  shows "cell_at ps X Z w i" "distinct (map fst (files w))" "accounted ps cap w"
  using assms by (simp_all add: binv_def)

lemmas cell_defs = cell_at_def cell_def flags_ok_def block_ok_def

lemma refs_sel [simp]:
  "nrefs X (w\<lparr>bo_pool := p\<rparr>) = nrefs X w" "nrefs X (w\<lparr>bos := f\<rparr>) = nrefs X w" "nrefs X (w\<lparr>mem := g\<rparr>) = nrefs X w"
  "nrefs X (w\<lparr>total := t\<rparr>) = nrefs X w" "nrefs X (w\<lparr>next_bo := n\<rparr>) = nrefs X w" "nrefs X (w\<lparr>next_handle := h\<rparr>) = nrefs X w"
  "nrefs X (w\<lparr>io_pub := P\<rparr>) = nrefs X w"
  "nprog (w\<lparr>bo_pool := p\<rparr>) = nprog w" "nprog (w\<lparr>bos := f\<rparr>) = nprog w" "nprog (w\<lparr>mem := g\<rparr>) = nprog w"
  "nprog (w\<lparr>total := t\<rparr>) = nprog w" "nprog (w\<lparr>next_bo := n\<rparr>) = nprog w" "nprog (w\<lparr>next_handle := h\<rparr>) = nprog w"
  "nprog (w\<lparr>io_pub := P\<rparr>) = nprog w" "nprog (w\<lparr>files := l\<rparr>) = nprog w" "nprog (w\<lparr>vmas := v\<rparr>) = nprog w"
  by (simp_all add: nrefs_def nprog_def refs_def fun_eq_iff)

section \<open>Moves between pool, limbo and freedom\<close>

text \<open>A step that changes the data of the numbers in \<open>A\<close> only.\<close>

lemma binv_local:
  assumes I: "binv ps cap X Z w"
    and out: "\<And>j. j \<notin> A \<Longrightarrow> bos w' j = bos w j \<and> mem w' j = mem w j \<and> nrefs X' w' j = nrefs X w j \<and>
        nprog w' j = nprog w j \<and> parks (bo_pool w') j = parks (bo_pool w) j \<and>
        (j \<in> Z') = (j \<in> Z) \<and> (j \<in> io_pub w') = (j \<in> io_pub w)"
    and cells: "\<And>j. j \<in> A \<Longrightarrow> cell_at ps X' Z' w' j"
    and files: "map fst (files w') = map fst (files w)"
    and acc: "accounted ps cap w'"
  shows "binv ps cap X' Z' w'"
proof (rule binvI [OF _ _ acc])
  show "cell_at ps X' Z' w' j" for j
  proof (cases "j \<in> A")
    case False
    then show ?thesis using binvD(1) [OF I, of j] out [OF False] by (simp add: cell_at_def)
  qed (rule cells)
  show "distinct (map fst (files w'))" using binvD(2) [OF I] files by simp
qed

lemma parks_split:
  assumes "mset (pool_list p) = mset out + mset (pool_list q)"
  shows "parks p i = {#e \<in># mset out. ent_addr e = i#} + parks q i"
  by (simp add: parks_def assms)

lemma parks_None: "i \<notin> ent_addr ` set out \<Longrightarrow> {#e \<in># mset out. ent_addr e = i#} = {#}"
  by (induction out) auto

lemma cell_parked:
  assumes "cell ps i bo m n k (add_mset e M) z pub"
  obtains b where "M = {#}" "\<not> z" "n = 0" "bo = Some b" "refcount b = 0" "ent_size e = bo_size b" "pooled_sec e = (\<not> fw_ref b)"
    "cell ps i bo m n k {#} True pub"
  using assms by (auto simp: cell_def split: option.splits if_splits)

lemma cell_limbo:
  assumes "cell ps i bo m n k es True pub" "k \<le> n"
  obtains b x where "bo = Some b" "m = Some x" "n = 0" "k = 0" "es = {#}" "refcount b = 0" "ent_addr (bo_ent b) = i"
    "PAGE_ALIGN ps (msize x) = PAGE_ALIGN ps (bo_size b)" "mdma x = dma b" "prog_refs b = 0"
    "fw_ref b = fw_io b" "\<not> fw_program b" "pub \<Longrightarrow> fw_io b"
  using assms by (auto simp: cell_def flags_ok_def block_ok_def split: option.splits if_splits)

lemma held_le: "nprog w i \<le> nrefs X w i"
  by (simp add: refs_def nrefs_def nprog_def)

lemma unpark:
  assumes I: "binv ps cap X Z w" and m: "mset (pool_list (bo_pool w)) = mset out + mset (pool_list p)"
  shows "binv ps cap X (Z \<union> ent_addr ` set out) (w\<lparr>bo_pool := p\<rparr>)"
proof (rule binv_local [OF I, where A = "ent_addr ` set out"])
  fix i assume "i \<in> ent_addr ` set out"
  then obtain e where e: "e \<in># {#e \<in># mset out. ent_addr e = i#}" by auto
  then obtain M where M: "parks (bo_pool w) i = add_mset e (M + parks p i)"
    using parks_split [OF m, of i] by (metis add_mset_add_single mset_add union_mset_add_mset_left)
  have c: "cell ps i (bos w i) (mem w i) (nrefs X w i) (nprog w i)
      (add_mset e (M + parks p i)) (i \<in> Z) (i \<in> io_pub w)"
    using binvD(1) [OF I, of i] by (simp add: cell_at_def M)
  show "cell_at ps X (Z \<union> ent_addr ` set out) (w\<lparr>bo_pool := p\<rparr>) i"
    using \<open>i \<in> ent_addr ` set out\<close> by (rule_tac cell_parked [OF c]) (simp add: cell_at_def)
qed (use binvD(3) [OF I] parks_split [OF m] parks_None in \<open>auto simp: accounted_def\<close>)

lemma accounted_free:
  assumes "accounted ps cap w" "mem w i = Some m"
  shows "accounted ps cap (w\<lparr>total := total w - int (unat (PAGE_ALIGN ps (msize m))),
    mem := (mem w)(i := None), bos := f\<rparr>)"
proof -
  have lt: "i < next_bo w" using assms by (metis accounted_def not_less option.distinct(1))
  have "(\<Sum>j<next_bo w. mem_bytes ps (mem w j)) =
      mem_bytes ps (mem w i) + (\<Sum>j\<in>{..<next_bo w} - {i}. mem_bytes ps (mem w j))"
    using lt by (subst sum.remove [of _ i]) auto
  moreover have "(\<Sum>j<next_bo w. mem_bytes ps (((mem w)(i := None)) j)) =
      (\<Sum>j\<in>{..<next_bo w} - {i}. mem_bytes ps (mem w j))"
    using lt by (subst sum.remove [of _ i]) (auto simp: mem_bytes_def intro!: sum.cong)
  moreover have "mem_bytes ps (mem w i) = uint (PAGE_ALIGN ps (msize m))" using assms(2) by (simp add: mem_bytes_def)
  ultimately show ?thesis using assms
    by (auto simp: accounted_def) (insert uint_nonnegative [of "PAGE_ALIGN ps (msize m)"], linarith)
qed

lemma binv_limbo:
  assumes "binv ps cap X (insert i Z) w"
  obtains b x where "bos w i = Some b" "mem w i = Some x" "nrefs X w i = 0" "nprog w i = 0"
    "parks (bo_pool w) i = {#}" "refcount b = 0" "ent_addr (bo_ent b) = i"
    "PAGE_ALIGN ps (msize x) = PAGE_ALIGN ps (bo_size b)" "mdma x = dma b" "prog_refs b = 0"
    "fw_ref b = fw_io b" "\<not> fw_program b" "i \<in> io_pub w \<Longrightarrow> fw_io b"
proof -
  have "cell ps i (bos w i) (mem w i) (nrefs X w i) (nprog w i)
     (parks (bo_pool w) i) True (i \<in> io_pub w)"
    using binvD(1) [OF assms, of i] by (simp add: cell_at_def)
  from cell_limbo [OF this held_le] that show thesis .
qed

lemma free_one:
  assumes I: "binv ps cap X (insert i Z) w" and z: "i \<notin> Z"
    and b: "bos w i = Some b" "\<not> fw_ref b"
  shows "binv ps cap X Z (bo_free_mem ps i w)"
proof (rule binv_limbo [OF I])
  fix c m assume L: "bos w i = Some c" "mem w i = Some m" "nrefs X w i = 0" "parks (bo_pool w) i = {#}"
    "PAGE_ALIGN ps (msize m) = PAGE_ALIGN ps (bo_size c)" "fw_ref c = fw_io c" "i \<in> io_pub w \<Longrightarrow> fw_io c"
  then have c: "c = b" using b by simp
  show ?thesis
  proof (rule binv_local [OF I, where A = "{i}"])
    show "accounted ps cap (bo_free_mem ps i w)"
      using accounted_free [OF binvD(3) [OF I] L(2)] b L(5) c by (simp add: bo_free_mem_def)
  qed (use L b z c in \<open>auto simp: bo_free_mem_def cell_at_def cell_def\<close>)
qed

text \<open>What a release leaves alone.\<close>

definition lists_same :: "bw \<Rightarrow> bw \<Rightarrow> bool" where
  "lists_same w w' \<longleftrightarrow> files w' = files w \<and> vmas w' = vmas w \<and> prog_held w' = prog_held w \<and> io_pub w' = io_pub w \<and>
     next_handle w' = next_handle w"

lemma free_same: "lists_same w (bo_free_mem ps i w)" "bo_pool (bo_free_mem ps i w) = bo_pool w"
  "j \<noteq> i \<Longrightarrow> bos (bo_free_mem ps i w) j = bos w j"
  by (simp_all add: lists_same_def bo_free_mem_def split: option.splits)

lemma free_all:
  assumes "binv ps cap X (Z \<union> ent_addr ` set es) w" "distinct (map ent_addr es)" "Z \<inter> ent_addr ` set es = {}"
    and "\<forall>e\<in>set es. \<exists>b. bos w (ent_addr e) = Some b \<and> \<not> fw_ref b"
  shows "binv ps cap X Z (fold (ane_t6021_pool_release_ent ps) (map unch es) w)"
  using assms
proof (induction es arbitrary: w)
  case (Cons e es)
  obtain b where b: "bos w (ent_addr e) = Some b" "\<not> fw_ref b" using Cons.prems(4) by auto
  have "binv ps cap X (Z \<union> ent_addr ` set es) (bo_free_mem ps (ent_addr e) w)"
    by (rule free_one [OF _ _ b]) (use Cons.prems in auto)
  moreover have "\<forall>e'\<in>set es. \<exists>b. bos (bo_free_mem ps (ent_addr e) w) (ent_addr e') = Some b \<and> \<not> fw_ref b"
  proof
    fix e' assume e': "e' \<in> set es"
    then have "ent_addr e' \<in> ent_addr ` set es" by simp
    then have "ent_addr e' \<noteq> ent_addr e" using Cons.prems(2) by (auto simp del: image_iff)
    then show "\<exists>b. bos (bo_free_mem ps (ent_addr e) w) (ent_addr e') = Some b \<and> \<not> fw_ref b"
      using Cons.prems(4) e' free_same(3) by simp
  qed
  ultimately have "binv ps cap X Z (fold (ane_t6021_pool_release_ent ps) (map unch es) (bo_free_mem ps (ent_addr e) w))"
    using Cons.prems(2,3) by (intro Cons.IH) auto
  moreover have "ane_t6021_pool_release_ent ps (unch e) = bo_free_mem ps (ent_addr e)"
    by (simp add: ane_t6021_pool_release_ent_def unch_def fun_eq_iff)
  ultimately show ?case by simp
qed simp

lemma lists_same_trans: "lists_same w w' \<Longrightarrow> lists_same w' w'' \<Longrightarrow> lists_same w w''"
  by (simp add: lists_same_def)

lemma release_ents_same:
  "lists_same w (fold (ane_t6021_pool_release_ent ps) rs w) \<and>
   bo_pool (fold (ane_t6021_pool_release_ent ps) rs w) = bo_pool w \<and>
   (i \<notin> ent_addr ` set rs \<longrightarrow> bos (fold (ane_t6021_pool_release_ent ps) rs w) i = bos w i)"
proof (induction rs arbitrary: w)
  case (Cons r rs)
  then show ?case
    using Cons [of "bo_free_mem ps (ent_addr r) w"] free_same [where w = w and ps = ps and i = "ent_addr r"]
      lists_same_trans [of w]
    by (auto simp: ane_t6021_pool_release_ent_def)
qed (simp add: lists_same_def)

text \<open>Entries the pool hands out are freed.\<close>

lemma evicted:
  assumes I: "binv ps cap X Z w" and g: "gave (bo_pool w) rs p"
  shows "binv ps cap X Z (fold (ane_t6021_pool_release_ent ps) rs (w\<lparr>bo_pool := p\<rparr>))"
    and "i \<in> ent_addr ` set rs \<Longrightarrow> parks (bo_pool w) i \<noteq> {#}"
proof -
  obtain out where out: "rs = map unch out" "\<forall>e\<in>set out. pooled_sec e"
    "mset (pool_list (bo_pool w)) = mset out + mset (pool_list p)" using g by (auto simp: gave_def)
  have cell: "\<exists>b. bos w (ent_addr e) = Some b \<and> \<not> fw_ref b \<and> ent_addr e \<notin> Z \<and>
      {#x \<in># mset out. ent_addr x = ent_addr e#} = {#e#}" if "e \<in> set out" for e
  proof -
    let ?i = "ent_addr e"
    have "e \<in># {#x \<in># mset out. ent_addr x = ?i#}" using that by simp
    then obtain M where M: "{#x \<in># mset out. ent_addr x = ?i#} = add_mset e M" by (metis mset_add)
    have c: "cell ps ?i (bos w ?i) (mem w ?i) (nrefs X w ?i) (nprog w ?i)
        (add_mset e (M + parks p ?i)) (?i \<in> Z) (?i \<in> io_pub w)"
      using binvD(1) [OF I, of ?i] parks_split [OF out(3), of ?i] by (simp add: cell_at_def M)
    show ?thesis by (rule cell_parked [OF c]) (use out(2) that M in auto)
  qed
  have "distinct (map ent_addr out)"
  proof -
    have "count (mset (map ent_addr out)) i \<le> 1" for i
    proof (cases "i \<in> ent_addr ` set out")
      case True
      then obtain e where e: "e \<in> set out" "i = ent_addr e" by auto
      have "count (mset (map ent_addr out)) i = size {#x \<in># mset out. ent_addr x = i#}"
        by (induction out) auto
      then show ?thesis using cell [OF e(1)] e(2) by auto
    next
      case False
      then have "i \<notin># mset (map ent_addr out)" by simp
      then show ?thesis by (simp only: not_in_iff)
    qed
    then show ?thesis by (metis count_mset_0_iff distinct_count_atmost_1 le_neq_implies_less less_one set_mset_mset)
  qed
  moreover have "binv ps cap X (Z \<union> ent_addr ` set out) (w\<lparr>bo_pool := p\<rparr>)" by (rule unpark [OF I out(3)])
  ultimately show "binv ps cap X Z (fold (ane_t6021_pool_release_ent ps) rs (w\<lparr>bo_pool := p\<rparr>))"
    unfolding out(1) using cell by (intro free_all) auto
  show "parks (bo_pool w) i \<noteq> {#}" if "i \<in> ent_addr ` set rs"
    using that parks_split [OF out(3), of i] by (auto simp: out(1) unch_def dest: multi_member_split)
qed


section \<open>The last put\<close>

lemma accounted_sel [simp]:
  "accounted ps cap (w\<lparr>bo_pool := p\<rparr>) = accounted ps cap w" "accounted ps cap (w\<lparr>bos := f\<rparr>) = accounted ps cap w"
  "accounted ps cap (w\<lparr>files := l\<rparr>) = accounted ps cap w" "accounted ps cap (w\<lparr>vmas := v\<rparr>) = accounted ps cap w"
  "accounted ps cap (w\<lparr>prog_held := v\<rparr>) = accounted ps cap w" "accounted ps cap (w\<lparr>io_pub := P\<rparr>) = accounted ps cap w"
  "accounted ps cap (w\<lparr>next_handle := h\<rparr>) = accounted ps cap w"
  by (simp_all add: accounted_def)

lemma set_bo_sel [simp]:
  "bos (set_bo i f w) j = (if j = i then map_option f (bos w i) else bos w j)"
  "mem (set_bo i f w) = mem w" "files (set_bo i f w) = files w" "vmas (set_bo i f w) = vmas w"
  "prog_held (set_bo i f w) = prog_held w" "io_pub (set_bo i f w) = io_pub w" "bo_pool (set_bo i f w) = bo_pool w"
  "total (set_bo i f w) = total w" "next_bo (set_bo i f w) = next_bo w" "next_handle (set_bo i f w) = next_handle w"
  "nrefs X (set_bo i f w) = nrefs X w" "nprog (set_bo i f w) = nprog w" "accounted ps cap (set_bo i f w) = accounted ps cap w"
  by (simp_all add: set_bo_def split: option.splits)

lemma set_residue_sel [simp]:
  "bos (set_residue i r w) = bos w" "files (set_residue i r w) = files w" "vmas (set_residue i r w) = vmas w"
  "prog_held (set_residue i r w) = prog_held w" "io_pub (set_residue i r w) = io_pub w" "bo_pool (set_residue i r w) = bo_pool w"
  "mem (set_residue i r w) j = (if j = i then map_option (\<lambda>m. m\<lparr>residue := r\<rparr>) (mem w i) else mem w j)"
  "nrefs X (set_residue i r w) = nrefs X w" "nprog (set_residue i r w) = nprog w" "next_bo (set_residue i r w) = next_bo w" "total (set_residue i r w) = total w"
  by (simp_all add: set_residue_def)

lemma parks_app: "pool_list q = pool_list p @ [e] \<Longrightarrow> parks q i = parks p i + (if ent_addr e = i then {#e#} else {#})"
  by (simp add: parks_def)

lemma accounted_residue [simp]: "accounted ps cap (set_residue i r w) = accounted ps cap w"
proof -
  have "mem_bytes ps (mem (set_residue i r w) j) = mem_bytes ps (mem w j)" for j
    by (simp add: mem_bytes_def split: option.splits)
  then show ?thesis by (simp add: accounted_def del: set_residue_sel(7)) auto
qed

text \<open>Changes of a structure that no part of the invariant looks at.\<close>

lemma cell_same:
  assumes "cell ps i (Some b) m n k es z pub" "ent_addr (bo_ent c) = i" "refcount c = refcount b" "dma c = dma b"
    "bo_size c = bo_size b" "fw_ref c = fw_ref b" "fw_program c = fw_program b" "fw_io c = fw_io b" "prog_refs c = prog_refs b"
  shows "cell ps i (Some c) m n k es z pub"
  using assms by (simp add: cell_def flags_ok_def block_ok_def split: option.splits)

text \<open>A buffer in limbo is parked, its entry at the end of the list.\<close>

lemma park_one:
  assumes I: "binv ps cap X (insert i Z) w" and z: "i \<notin> Z" and b: "bos w i = Some b"
    and p: "pool_list p = pool_list (bo_pool w) @ [e]" "ent_addr e = i" "ent_size e = bo_size b" "pooled_sec e = (\<not> fw_ref b)"
  shows "binv ps cap X Z (set_residue i True (w\<lparr>bo_pool := p\<rparr>))"
proof (rule binv_limbo [OF I])
  fix c m assume L: "bos w i = Some c" "mem w i = Some m" "nrefs X w i = 0" "nprog w i = 0"
    "parks (bo_pool w) i = {#}" "refcount c = 0" "ent_addr (bo_ent c) = i"
    "PAGE_ALIGN ps (msize m) = PAGE_ALIGN ps (bo_size c)" "mdma m = dma c" "prog_refs c = 0"
    "fw_ref c = fw_io c" "\<not> fw_program c" "i \<in> io_pub w \<Longrightarrow> fw_io c"
  have c: "c = b" using b L(1) by simp
  have p': "parks p i = {#e#}" "\<And>j. j \<noteq> i \<Longrightarrow> parks p j = parks (bo_pool w) j"
    using L(5) p(2) by (auto simp: parks_app [OF p(1)])
  show ?thesis
  proof (rule binv_local [OF I, where A = "{i}"])
    fix j assume "j \<in> {i}"
    then have j: "j = i" by simp
    have "cell ps i (Some b) (Some (m\<lparr>residue := True\<rparr>)) 0 0 {#e#} False (i \<in> io_pub w)"
      using L p c by (simp add: cell_def block_ok_def flags_ok_def)
    then show "cell_at ps X Z (set_residue i True (w\<lparr>bo_pool := p\<rparr>)) j"
      using L(2,3,4) p' z b by (simp only: j cell_at_def) simp
  qed (use p' z binvD(3) [OF I] in auto)
qed

lemma orphan:
  assumes I: "binv ps cap X (insert i Z) w" and z: "i \<notin> Z"
  shows "binv ps cap X Z (w\<lparr>bos := (bos w)(i := None)\<rparr>)"
proof (rule binv_limbo [OF I])
  fix c m assume L: "mem w i = Some m" "nrefs X w i = 0" "parks (bo_pool w) i = {#}"
  show ?thesis
    by (rule binv_local [OF I, where A = "{i}"])
      (use L z binvD(3) [OF I] in \<open>auto simp: cell_at_def cell_def\<close>)
qed

lemma set_ent:
  assumes I: "binv ps cap X Z w" and e: "ent_addr ent = i"
  shows "binv ps cap X Z (set_bo i (\<lambda>b. b\<lparr>bo_ent := ent\<rparr>) w)"
proof (rule binv_local [OF I, where A = "{i}"])
  fix j assume "j \<in> {i}"
  then show "cell_at ps X Z (set_bo i (\<lambda>b. b\<lparr>bo_ent := ent\<rparr>) w) j"
    using binvD(1) [OF I, of i] e by (cases "bos w i") (auto simp: cell_at_def intro: cell_same)
qed (use binvD(3) [OF I] in auto)

lemma set_bo_pool: "set_bo i f (w\<lparr>bo_pool := p\<rparr>) = (set_bo i f w)\<lparr>bo_pool := p\<rparr>"
  by (simp add: set_bo_def split: option.splits)

lemma free_pool: "bo_free_mem ps i (w\<lparr>bo_pool := p\<rparr>) = (bo_free_mem ps i w)\<lparr>bo_pool := p\<rparr>"
  by (simp add: bo_free_mem_def split: option.splits)

lemma release_ents_pool:
  "fold (ane_t6021_pool_release_ent ps) rs (w\<lparr>bo_pool := p\<rparr>) =
   (fold (ane_t6021_pool_release_ent ps) rs (w\<lparr>bo_pool := p1\<rparr>))\<lparr>bo_pool := p\<rparr>"
proof (induction rs arbitrary: w)
  case (Cons r rs)
  show ?case
    using Cons [of "bo_free_mem ps (ent_addr r) w"] by (simp add: ane_t6021_pool_release_ent_def free_pool)
qed simp

lemma binv_pool_list:
  assumes "binv ps cap X Z w" "pool_list p = pool_list (bo_pool w)"
  shows "binv ps cap X Z (w\<lparr>bo_pool := p\<rparr>)"
  using assms by (simp add: binv_def cell_at_def parks_def)

lemma release_limbo:
  assumes I: "binv ps cap X (insert i Z) w" and z: "i \<notin> Z"
  shows "binv ps cap X Z (ane_t6021_bo_release ps q i w)"
proof (rule binv_limbo [OF I])
  fix b m assume L: "bos w i = Some b" "parks (bo_pool w) i = {#}" "ent_addr (bo_ent b) = i" "\<not> fw_program b"
  show ?thesis
  proof (cases "fw_ref b")
    case True
    have "binv ps cap X Z (set_residue i True
        (w\<lparr>bo_pool := ane_t6021_pool_park_uncharged (bo_pool w) (bo_ent b) (bo_size b)\<rparr>))"
      by (rule park_one [OF I z L(1), where e = "(bo_ent b)\<lparr>ent_size := bo_size b, pooled_sec := False\<rparr>"])
        (use True L in \<open>simp_all add: ane_t6021_pool_park_uncharged_def\<close>)
    then show ?thesis using True L orphan [OF I z] by (simp add: ane_t6021_bo_release_def)
  next
    case False
    obtain r ent rs p where park: "ane_t6021_pool_park ps (bo_pool w) (bo_ent b) (bo_size b) = (r, ent, rs, p)"
      by (metis prod_cases4)
    obtain p1 where g: "ent_addr ent = i" "gave (bo_pool w) rs p1"
      "pool_list p = (if r = None then pool_list p1 @ [parked (bo_ent b) (bo_size b)] else pool_list p1)"
      using park_gave [OF park] L(3) by auto
    let ?w1 = "fold (ane_t6021_pool_release_ent ps) rs (w\<lparr>bo_pool := p1\<rparr>)"
    let ?w2 = "fold (ane_t6021_pool_release_ent ps) rs (w\<lparr>bo_pool := p\<rparr>)"
    let ?s = "set_bo i (\<lambda>b. b\<lparr>bo_ent := ent\<rparr>)"
    have i: "i \<notin> ent_addr ` set rs" using evicted(2) [OF I g(2)] L(2) by blast
    have ev: "binv ps cap X (insert i Z) (?s ?w1)" by (rule set_ent [OF evicted(1) [OF I g(2)] g(1)])
    have w2: "?w2 = ?w1\<lparr>bo_pool := p\<rparr>" by (rule release_ents_pool)
    have b1: "bos (?s ?w1) i = Some (b\<lparr>bo_ent := ent\<rparr>)" "bo_pool ?w1 = p1"
      using release_ents_same [of "w\<lparr>bo_pool := p1\<rparr>" ps rs i] i L(1) by auto
    have "binv ps cap X Z (if r = None then set_residue i True (?s ?w2) else bo_free_mem ps i (?s ?w2))"
    proof (cases r)
      case None
      have "binv ps cap X Z (set_residue i True ((?s ?w1)\<lparr>bo_pool := p\<rparr>))"
        by (rule park_one [OF ev z b1(1), where e = "parked (bo_ent b) (bo_size b)"])
          (use None g b1 L False in \<open>simp_all add: parked_def\<close>)
      then show ?thesis using None w2 by (simp add: set_bo_pool)
    next
      case (Some e)
      have "binv ps cap X Z (bo_free_mem ps i (?s ?w1))" by (rule free_one [OF ev z b1(1)]) (use False in simp)
      then have "binv ps cap X Z ((bo_free_mem ps i (?s ?w1))\<lparr>bo_pool := p\<rparr>)"
        using binv_pool_list [of _ _ _ _ _ p] g(3) Some b1(2) free_same(2) by simp
      then show ?thesis using Some w2 by (simp add: set_bo_pool free_pool)
    qed
    then show ?thesis using park L False by (simp add: ane_t6021_bo_release_def Let_def)
  qed
qed


lemma nrefs_add: "nrefs (add_mset i X) w j = (if j = i then Suc (nrefs X w j) else nrefs X w j)"
  by (simp add: nrefs_def)

lemma nrefs_pos: "i \<in># refs w \<Longrightarrow> 0 < nrefs X w i"
  by (simp add: nrefs_def)

text \<open>A referenced buffer has its structure and memory.\<close>

lemma binv_held:
  assumes I: "binv ps cap X Z w" and n: "0 < nrefs X w i"
  obtains b m where "bos w i = Some b" "mem w i = Some m" "refcount b = nrefs X w i" "parks (bo_pool w) i = {#}" "i \<notin> Z"
    "ent_addr (bo_ent b) = i" "flags_ok (nprog w i) b" "i \<in> io_pub w \<Longrightarrow> fw_io b"
    "PAGE_ALIGN ps (msize m) = PAGE_ALIGN ps (bo_size b)" "mdma m = dma b" "\<not> residue m"
proof -
  have "cell ps i (bos w i) (mem w i) (nrefs X w i) (nprog w i) (parks (bo_pool w) i) (i \<in> Z) (i \<in> io_pub w)"
    using binvD(1) [OF I, of i] by (simp add: cell_at_def)
  then show thesis using that n by (auto simp: cell_def block_ok_def split: option.splits)
qed

lemma held_cell:
  assumes "bos w' i = Some b" "mem w' i = Some m" "refcount b = nrefs X' w' i" "0 < nrefs X' w' i" "parks (bo_pool w') i = {#}"
    "i \<notin> Z'" "ent_addr (bo_ent b) = i" "flags_ok (nprog w' i) b" "i \<in> io_pub w' \<Longrightarrow> fw_io b"
    "PAGE_ALIGN ps (msize m) = PAGE_ALIGN ps (bo_size b)" "mdma m = dma b" "\<not> residue m"
  shows "cell_at ps X' Z' w' i"
  using assms by (auto simp: cell_at_def cell_def block_ok_def)

lemma kref_get_inv:
  assumes I: "binv ps cap X Z w" and n: "0 < nrefs X w i"
  shows "binv ps cap (add_mset i X) Z (kref_get i w)"
proof (rule binv_held [OF I n])
  fix b m assume L: "bos w i = Some b" "mem w i = Some m" "refcount b = nrefs X w i" "parks (bo_pool w) i = {#}" "i \<notin> Z"
    "ent_addr (bo_ent b) = i" "flags_ok (nprog w i) b" "i \<in> io_pub w \<Longrightarrow> fw_io b"
    "PAGE_ALIGN ps (msize m) = PAGE_ALIGN ps (bo_size b)" "mdma m = dma b" "\<not> residue m"
  show ?thesis
  proof (rule binv_local [OF I, where A = "{i}"])
    fix j assume "j \<in> {i}"
    then show "cell_at ps (add_mset i X) Z (kref_get i w) j"
      using L by (auto simp: kref_get_def nrefs_add flags_ok_def intro!: held_cell)
  qed (use binvD(3) [OF I] in \<open>auto simp: kref_get_def nrefs_add\<close>)
qed

lemma kref_put_inv:
  assumes I: "binv ps cap (add_mset i X) Z w"
  shows "binv ps cap X Z (kref_put ps q i w)"
proof (rule binv_held [OF I])
  show "0 < nrefs (add_mset i X) w i" by (simp add: nrefs_add)
  fix b m assume L: "bos w i = Some b" "mem w i = Some m" "refcount b = nrefs (add_mset i X) w i" "parks (bo_pool w) i = {#}" "i \<notin> Z"
    "ent_addr (bo_ent b) = i" "flags_ok (nprog w i) b" "i \<in> io_pub w \<Longrightarrow> fw_io b"
    "PAGE_ALIGN ps (msize m) = PAGE_ALIGN ps (bo_size b)" "mdma m = dma b" "\<not> residue m"
  let ?w = "set_bo i (\<lambda>b. b\<lparr>refcount := refcount b - 1\<rparr>) w"
  have n: "refcount b = Suc (nrefs X w i)" using L(3) by (simp add: nrefs_add)
  have put: "kref_put ps q i w = (if nrefs X w i = 0 then ane_t6021_bo_release ps q i ?w else ?w)"
    using L(1) n by (simp add: kref_put_def Let_def)
  show ?thesis
  proof (cases "nrefs X w i = 0")
    case True
    have "binv ps cap X (insert i Z) ?w"
    proof (rule binv_local [OF I, where A = "{i}"])
      fix j assume "j \<in> {i}"
      then show "cell_at ps X (insert i Z) ?w j"
        using L n True by (auto simp: cell_at_def cell_def block_ok_def flags_ok_def)
    qed (use binvD(3) [OF I] in \<open>auto simp: nrefs_add\<close>)
    then show ?thesis using put True release_limbo [OF _ L(5)] by simp
  next
    case False
    have "binv ps cap X Z ?w"
    proof (rule binv_local [OF I, where A = "{i}"])
      fix j assume "j \<in> {i}"
      then show "cell_at ps X Z ?w j"
        using L n False by (auto simp: flags_ok_def intro!: held_cell)
    qed (use binvD(3) [OF I] in \<open>auto simp: nrefs_add\<close>)
    then show ?thesis using put False by simp
  qed
qed

text \<open>Moving references between the lists and the hands of the code.\<close>

lemma binv_lists:
  assumes I: "binv ps cap X Z w" and n: "\<And>j. nrefs X' w' j = nrefs X w j"
    and s: "bos w' = bos w" "mem w' = mem w" "bo_pool w' = bo_pool w" "total w' = total w" "next_bo w' = next_bo w"
      "prog_held w' = prog_held w" "io_pub w' = io_pub w" "distinct (map fst (files w'))"
  shows "binv ps cap X' Z w'"
  using I n s unfolding binv_def cell_at_def by (simp add: accounted_def nprog_def)

definition on_fd :: "nat \<Rightarrow> (nat list \<Rightarrow> nat list) \<Rightarrow> (nat \<times> nat list) list \<Rightarrow> (nat \<times> nat list) list" where
  "on_fd fd g fs = map (\<lambda>(f, l). if f = fd then (f, g l) else (f, l)) fs"

lemma on_fd_fst [simp]: "map fst (on_fd fd g fs) = map fst fs"
  by (induction fs) (auto simp: on_fd_def)

lemma on_fd_other: "fd \<notin> fst ` set fs \<Longrightarrow> on_fd fd g fs = fs"
  by (induction fs) (auto simp: on_fd_def)

lemma on_fd_refs:
  assumes "distinct (map fst fs)" "map_of fs fd = Some l"
  shows "mset (concat (map snd (on_fd fd g fs))) + mset l = mset (concat (map snd fs)) + mset (g l)"
  using assms
proof (induction fs)
  case (Cons x fs)
  obtain f l' where x: "x = (f, l')" by fastforce
  show ?case
  proof (cases "f = fd")
    case True
    then have "on_fd fd g fs = fs" using Cons.prems x by (intro on_fd_other) auto
    then show ?thesis using True Cons.prems x by (simp add: on_fd_def)
  next
    case False
    then show ?thesis using Cons x by (simp add: on_fd_def)
  qed
qed simp

lemma map_of_on_fd: "map_of (on_fd fd g fs) f = (if f = fd then map_option g (map_of fs f) else map_of fs f)"
  by (induction fs) (auto simp: on_fd_def)

lemma fd_refs:
  assumes "binv ps cap X Z w" "fd_list w fd = Some l"
  shows "nrefs X (w\<lparr>files := on_fd fd g (files w)\<rparr>) j + count (mset l) j = nrefs X w j + count (mset (g l)) j"
proof -
  have "count (mset (concat (map snd (on_fd fd g (files w)))) + mset l) j = count (mset (concat (map snd (files w))) + mset (g l)) j"
    using on_fd_refs [OF binvD(2) [OF assms(1)]] assms(2) by (simp only: fd_list_def)
  then show ?thesis by (simp add: nrefs_def refs_def)
qed

lemma fd_member:
  assumes "fd_list w fd = Some l" "i \<in> set l"
  shows "i \<in># refs w"
proof -
  have "(fd, l) \<in> set (files w)" using assms(1) by (simp add: fd_list_def map_of_SomeD)
  then show ?thesis using assms(2) by (force simp: refs_def)
qed

text \<open>What a put leaves alone.\<close>

lemma release_same: "lists_same w (ane_t6021_bo_release ps q i w)"
proof -
  have "lists_same (w\<lparr>bo_pool := p\<rparr>) (set_bo i f (fold (ane_t6021_pool_release_ent ps) rs (w\<lparr>bo_pool := p\<rparr>)))" for p f rs
    using release_ents_same [of "w\<lparr>bo_pool := p\<rparr>" ps rs] by (simp add: lists_same_def)
  then have a: "lists_same w (set_bo i f (fold (ane_t6021_pool_release_ent ps) rs (w\<lparr>bo_pool := p\<rparr>)))" for p f rs
    by (simp add: lists_same_def)
  have b: "lists_same w (bo_free_mem ps i (set_bo i f (fold (ane_t6021_pool_release_ent ps) rs (w\<lparr>bo_pool := p\<rparr>))))" for p f rs
    using lists_same_trans [OF a free_same(1)] .
  have c: "lists_same w (set_residue i True (set_bo i f (fold (ane_t6021_pool_release_ent ps) rs (w\<lparr>bo_pool := p\<rparr>))))" for p f rs
    using a [of f rs p] by (simp add: lists_same_def set_residue_def)
  show ?thesis using b c
    by (auto simp: ane_t6021_bo_release_def Let_def lists_same_def [of w w] split: option.splits prod.splits)
      (simp_all add: lists_same_def set_residue_def)
qed

lemma put_same: "lists_same w (kref_put ps q i w)"
  using release_same [of "set_bo i (\<lambda>b. b\<lparr>refcount := refcount b - 1\<rparr>) w" ps q i]
  by (auto simp: kref_put_def Let_def lists_same_def split: option.splits)

lemma get_same: "lists_same w (kref_get i w)"
  by (simp add: kref_get_def lists_same_def)

lemma shift_ref: "A + C = B + (D :: nat) \<Longrightarrow> C = (if b then Suc D else D) \<Longrightarrow> (if b then Suc A else A) = B"
  by (cases b) auto

lemma count_remove1: "i \<in> set l \<Longrightarrow> count (mset l) j = (if j = i then Suc (count (mset (remove1 i l)) j) else count (mset (remove1 i l)) j)"
  by (induction l) auto

lemma drop_inv:
  assumes I: "binv ps cap X Z w" and l: "fd_list w fd = Some l" "i \<in> set l"
  shows "binv ps cap X Z (ane_t6021_bo_drop ps q fd i w)"
    and "fd_list (ane_t6021_bo_drop ps q fd i w) fd = Some (remove1 i l)"
proof -
  let ?w = "w\<lparr>files := on_fd fd (remove1 i) (files w)\<rparr>"
  have d: "ane_t6021_bo_drop ps q fd i w = kref_put ps q i ?w" by (simp add: ane_t6021_bo_drop_def on_fd_def)
  have "binv ps cap (add_mset i X) Z ?w"
  proof (rule binv_lists [OF I])
    show "nrefs (add_mset i X) ?w j = nrefs X w j" for j
      unfolding nrefs_add by (rule shift_ref [OF fd_refs [OF I l(1), of "remove1 i" j] count_remove1 [OF l(2), of j]])
  qed (use binvD(2) [OF I] in simp_all)
  then show "binv ps cap X Z (ane_t6021_bo_drop ps q fd i w)" unfolding d by (rule kref_put_inv)
  show "fd_list (ane_t6021_bo_drop ps q fd i w) fd = Some (remove1 i l)"
    using put_same [of ?w ps q i] l(1) by (simp add: d lists_same_def fd_list_def map_of_on_fd)
qed

lemma drops_inv:
  assumes "binv ps cap X Z w" "fd_list w fd = Some l" "mset l = mset ds + mset rest"
  shows "binv ps cap X Z (fold (ane_t6021_bo_drop ps q fd) ds w) \<and>
    (\<exists>l'. fd_list (fold (ane_t6021_bo_drop ps q fd) ds w) fd = Some l' \<and> mset l' = mset rest)"
  using assms
proof (induction ds arbitrary: w l)
  case (Cons d ds)
  have d: "d \<in> set l" using Cons.prems(3) by (metis insert_iff mset_append mset.simps(2) set_mset_mset set_mset_add_mset_insert union_mset_add_mset_left)
  note D = drop_inv [OF Cons.prems(1,2) d, of q]
  have "mset (remove1 d l) = mset ds + mset rest" using Cons.prems(3) by simp
  from Cons.IH [OF D this] show ?case by simp
qed simp

lemma close_bos_inv:
  assumes I: "binv ps cap X Z w"
  shows "binv ps cap X Z (close_bos ps q fd w)"
proof (cases "fd_list w fd")
  case (Some l)
  let ?w = "fold (ane_t6021_bo_drop ps q fd) l w"
  have D: "binv ps cap X Z ?w" "fd_list ?w fd = Some []"
    using drops_inv [OF I Some, of l "[]" q] by auto
  have "mset (concat (map snd (filter (\<lambda>x. fst x \<noteq> fd) fs))) = mset (concat (map snd fs))"
    if "map_of fs fd = Some []" "distinct (map fst fs)" for fs :: "(nat \<times> nat list) list"
    using that
  proof (induction fs)
    case (Cons x fs)
    show ?case
    proof (cases "fst x = fd")
      case True
      then have "filter (\<lambda>x. fst x \<noteq> fd) fs = fs" using Cons.prems by (intro filter_True) (metis distinct.simps(2) image_eqI list.simps(9) set_map)
      then show ?thesis using True Cons.prems by (cases x) simp
    qed (use Cons in \<open>cases x; simp\<close>)
  qed simp
  from this [of "files ?w"] D(2) binvD(2) [OF D(1)]
  have "binv ps cap X Z (?w\<lparr>files := filter (\<lambda>x. fst x \<noteq> fd) (files ?w)\<rparr>)"
    by (intro binv_lists [OF D(1)]) (simp_all add: nrefs_def refs_def fd_list_def distinct_map_filter)
  then show ?thesis by (simp add: close_bos_def Some Let_def)
qed (use I in \<open>simp add: close_bos_def\<close>)

lemma find_member: "find P l = Some i \<Longrightarrow> i \<in> set l \<and> P i"
  by (induction l) (auto split: if_splits)

lemma by_handle_member:
  assumes "bo_by_handle w fd h = Some i"
  obtains l where "fd_list w fd = Some l" "i \<in> set l"
  using assms find_member that by (fastforce simp: bo_by_handle_def split: option.splits)

lemma bo_free_inv:
  assumes I: "binv ps cap X Z w"
  shows "binv ps cap X Z (snd (ane_t6021_bo_free_ioctl ps q fd h w))"
  using drop_inv(1) [OF I] I by (auto simp: ane_t6021_bo_free_ioctl_def split: option.splits elim!: by_handle_member)

lemma mmap_inv:
  assumes I: "binv ps cap X Z w"
  shows "binv ps cap X Z (snd (ane_t6021_mmap ps q fd pgoff sz r w))"
proof -
  have put: "binv ps cap X Z (kref_put ps q i (kref_get i w))" "binv ps cap X Z ((kref_get i w)\<lparr>vmas := vmas (kref_get i w) @ [i]\<rparr>)"
    if "fd_list w fd = Some l" "i \<in> set l" for i l
  proof -
    have g: "binv ps cap (add_mset i X) Z (kref_get i w)"
      by (rule kref_get_inv [OF I nrefs_pos [OF fd_member [OF that]]])
    then show "binv ps cap X Z (kref_put ps q i (kref_get i w))" by (rule kref_put_inv)
    show "binv ps cap X Z ((kref_get i w)\<lparr>vmas := vmas (kref_get i w) @ [i]\<rparr>)"
      by (rule binv_lists [OF g]) (use binvD(2) [OF g] in \<open>simp_all add: nrefs_def refs_def\<close>)
  qed
  show ?thesis
  proof (cases "fd_list w fd")
    case (Some l)
    show ?thesis
    proof (cases "find (\<lambda>i. case bos w i of None \<Rightarrow> False | Some b \<Rightarrow> handle b = (ucast pgoff :: u32) \<and> owner b = fd) l")
      case (Some i)
      have m: "i \<in> set l" and b: "bos w i \<noteq> None" using find_member [OF Some] by (auto split: option.splits)
      show ?thesis using I put [OF \<open>fd_list w fd = Some l\<close> m] b Some \<open>fd_list w fd = Some l\<close>
        by (auto simp: ane_t6021_mmap_def Let_def kref_get_def)
    qed (use I Some in \<open>simp add: ane_t6021_mmap_def Let_def\<close>)
  qed (use I in \<open>simp add: ane_t6021_mmap_def\<close>)
qed

lemma vm_open_inv:
  assumes I: "binv ps cap X Z w"
  shows "binv ps cap X Z (ane_t6021_vm_open k w)"
proof (cases "k < length (vmas w)")
  case True
  have "vmas w ! k \<in># refs w" using True by (simp add: refs_def)
  from kref_get_inv [OF I nrefs_pos [OF this]]
  have g: "binv ps cap (add_mset (vmas w ! k) X) Z (kref_get (vmas w ! k) w)" .
  have "binv ps cap X Z ((kref_get (vmas w ! k) w)\<lparr>vmas := vmas w @ [vmas w ! k]\<rparr>)"
    by (rule binv_lists [OF g]) (use binvD(2) [OF g] in \<open>simp_all add: nrefs_def refs_def kref_get_def\<close>)
  then show ?thesis using True by (simp add: ane_t6021_vm_open_def)
qed (use I in \<open>simp add: ane_t6021_vm_open_def\<close>)

lemma vm_close_inv:
  assumes I: "binv ps cap X Z w"
  shows "binv ps cap X Z (ane_t6021_vm_close ps q k w)"
proof (cases "k < length (vmas w)")
  case True
  have "binv ps cap (add_mset (vmas w ! k) X) Z (w\<lparr>vmas := del_at k (vmas w)\<rparr>)"
    by (rule binv_lists [OF I]) (use binvD(2) [OF I] mset_del_at [OF True] in \<open>simp_all add: nrefs_def refs_def\<close>)
  then show ?thesis using True kref_put_inv by (simp add: ane_t6021_vm_close_def)
qed (use I in \<open>simp add: ane_t6021_vm_close_def\<close>)

lemma open_inv:
  assumes I: "binv ps cap X Z w"
  shows "binv ps cap X Z (ane_t6021_open fd w)"
  using I by (auto simp: ane_t6021_open_def fd_list_def map_of_eq_None_iff nrefs_def refs_def binvD(2) [OF I]
      intro!: binv_lists [OF I])

lemma pool_max_inv:
  assumes I: "binv ps cap X Z w"
  shows "binv ps cap X Z (snd (ane_t6021_bo_pool_max_mb_set ps val w))"
proof -
  have J: "binv ps cap X Z (w\<lparr>bo_pool := (bo_pool w)\<lparr>max_mb := mb\<rparr>\<rparr>)" for mb
    by (rule binv_pool_list [OF I]) simp
  have "binv ps cap X Z (fold (ane_t6021_pool_release_ent ps) rs (w\<lparr>bo_pool := p\<rparr>))"
    if "pool_drain ps ((bo_pool w)\<lparr>max_mb := mb\<rparr>) = (rs, p)" for rs p mb
    using evicted(1) [OF J, of mb rs p] drain_gave [OF that] by simp
  then show ?thesis using I J
    by (auto simp: ane_t6021_bo_pool_max_mb_set_def Let_def split: sum.splits prod.splits)
qed


section \<open>Allocation\<close>

lemma fresh_cell:
  assumes I: "binv ps cap X Z w"
  shows "bos w (next_bo w) = None \<and> nrefs X w (next_bo w) = 0 \<and> nprog w (next_bo w) = 0 \<and>
    parks (bo_pool w) (next_bo w) = {#} \<and> next_bo w \<notin> Z \<and> next_bo w \<notin> io_pub w"
proof -
  have "mem w (next_bo w) = None" using binvD(3) [OF I] by (simp add: accounted_def)
  then show ?thesis using binvD(1) [OF I, of "next_bo w"] held_le [of w "next_bo w" X]
    by (auto simp: cell_at_def cell_def block_ok_def split: option.splits)
qed

abbreviation sized :: "nat \<Rightarrow> u64 \<Rightarrow> bw \<Rightarrow> bw" where
  "sized i sz \<equiv> set_bo i (\<lambda>b. b\<lparr>bo_size := sz\<rparr>)"

lemma fresh_inv:
  assumes I: "binv ps cap X Z w" and c: "total w + int (unat (PAGE_ALIGN ps sz)) \<le> cap"
  shows "binv ps cap X (insert (next_bo w) Z)
    (sized (next_bo w) sz (w\<lparr>total := total w + int (unat (PAGE_ALIGN ps sz)), bos := (bos w)(next_bo w \<mapsto> new_bo (next_bo w) d),
       mem := (mem w)(next_bo w \<mapsto> \<lparr>mdma = d, msize = sz, residue = False\<rparr>), next_bo := next_bo w + 1\<rparr>))"
proof (rule binv_local [OF I, where A = "{next_bo w}"], goal_cases)
  case (2 j)
  then show ?case using fresh_cell [OF I]
    by (simp add: cell_at_def cell_def block_ok_def flags_ok_def new_bo_def)
next
  case 4
  have "(\<Sum>i<next_bo w. mem_bytes ps (((mem w)(next_bo w \<mapsto> m)) i)) = (\<Sum>i<next_bo w. mem_bytes ps (mem w i))" for m
    by (rule sum.cong) auto
  then show ?case using binvD(3) [OF I] c by (auto simp: accounted_def mem_bytes_def simp del: fun_upd_apply) auto
qed auto

lemma attempt_inv:
  assumes I: "binv ps cap X Z (w\<lparr>bo_pool := p\<rparr>)"
    and a: "ane_t6021_bo_alloc_attempt ps cap alias_ok sz p (w, ts, out) = (r, w', ts', out')"
  shows "files w' = files w" "r \<noteq> None \<Longrightarrow> out' = out \<and> binv ps cap X Z (w'\<lparr>bo_pool := p\<rparr>)"
    and "r = None \<Longrightarrow> \<exists>i m. out' = Some i \<and> i \<notin> Z \<and> mem w' i = Some m \<and> msize m = sz \<and> \<not> residue m \<and>
       binv ps cap X (insert i Z) (sized i sz (w'\<lparr>bo_pool := p\<rparr>))"
proof -
  show "files w' = files w" "r \<noteq> None \<Longrightarrow> out' = out \<and> binv ps cap X Z (w'\<lparr>bo_pool := p\<rparr>)"
    using a I by (auto simp: ane_t6021_bo_alloc_attempt_def Let_def split: if_splits list.splits alloc_try.splits)
  assume "r = None"
  then obtain d where "total w + int (unat (PAGE_ALIGN ps sz)) \<le> cap" "out' = Some (next_bo w)"
    and w': "w' = w\<lparr>total := total w + int (unat (PAGE_ALIGN ps sz)), bos := (bos w)(next_bo w \<mapsto> new_bo (next_bo w) d),
       mem := (mem w)(next_bo w \<mapsto> \<lparr>mdma = d, msize = sz, residue = False\<rparr>), next_bo := next_bo w + 1\<rparr>"
    using a by (auto simp: ane_t6021_bo_alloc_attempt_def Let_def split: if_splits list.splits alloc_try.splits)
  moreover have e: "w'\<lparr>bo_pool := p\<rparr> = w\<lparr>bo_pool := p, total := total w + int (unat (PAGE_ALIGN ps sz)),
       bos := (bos w)(next_bo w \<mapsto> new_bo (next_bo w) d),
       mem := (mem w)(next_bo w \<mapsto> \<lparr>mdma = d, msize = sz, residue = False\<rparr>), next_bo := next_bo w + 1\<rparr>"
    by (cases w) (simp add: w')
  ultimately have "out' = Some (next_bo w)" "binv ps cap X (insert (next_bo w) Z) (sized (next_bo w) sz (w'\<lparr>bo_pool := p\<rparr>))"
    using fresh_inv [OF I, of sz d] by (simp_all only: e) simp
  moreover have "mem w' (next_bo w) = Some \<lparr>mdma = d, msize = sz, residue = False\<rparr>" by (simp add: w')
  ultimately show "\<exists>i m. out' = Some i \<and> i \<notin> Z \<and> mem w' i = Some m \<and> msize m = sz \<and> \<not> residue m \<and>
       binv ps cap X (insert i Z) (sized i sz (w'\<lparr>bo_pool := p\<rparr>))"
    using fresh_cell [OF I] by auto
qed

lemma retry_inv:
  assumes "ane_t6021_pool_alloc_retry ps (ane_t6021_bo_alloc_attempt ps cap alias_ok sz)
      (release_ctx ps) p (w, ts, None) = (r, (w', ts', out), p')"
    and "binv ps cap X Z (w\<lparr>bo_pool := p\<rparr>)"
  shows "files w' = files w \<and> (r \<noteq> None \<longrightarrow> binv ps cap X Z (w'\<lparr>bo_pool := p'\<rparr>)) \<and>
    (r = None \<longrightarrow> (\<exists>i m. out = Some i \<and> i \<notin> Z \<and> mem w' i = Some m \<and> msize m = sz \<and> \<not> residue m \<and>
       binv ps cap X (insert i Z) (sized i sz (w'\<lparr>bo_pool := p'\<rparr>))))"
  using assms
proof (induction "length (pool_list p)" arbitrary: p w ts rule: less_induct)
  case less
  let ?att = "ane_t6021_bo_alloc_attempt ps cap alias_ok sz"
  obtain r1 w1 ts1 o1 where a: "?att p (w, ts, None) = (r1, w1, ts1, o1)" by (metis prod_cases3)
  note A = attempt_inv [OF less.prems(2) a]
  show ?case
  proof (cases "r1 = Some ENOMEM \<or> r1 = Some ENOSPC")
    case False
    then show ?thesis using less.prems(1) a A by (auto simp: ane_t6021_pool_alloc_retry.simps [of ps _ _ p])
  next
    case True
    then have A2: "o1 = None" "binv ps cap X Z (w1\<lparr>bo_pool := p\<rparr>)" using A(2) by auto
    obtain e q where ev: "ane_t6021_pool_evict_oldest ps p = (e, q)" by fastforce
    show ?thesis
    proof (cases e)
      case None
      then show ?thesis using less.prems(1) a A A2 True ev evict_None [of ps p q]
        by (auto simp: ane_t6021_pool_alloc_retry.simps [of ps _ _ p])
    next
      case (Some x)
      have "gave p [x] q" using gave_more [OF ev [unfolded Some] gave_none [of q q]] by simp
      then have J: "binv ps cap X Z ((ane_t6021_pool_release_ent ps x w1)\<lparr>bo_pool := q\<rparr>)"
        using evicted(1) [OF A2(2), of "[x]" q] by (simp add: ane_t6021_pool_release_ent_def free_pool)
      have lt: "length (pool_list q) < length (pool_list p)" using evict_oldest_shrinks ev Some by metis
      have "files (ane_t6021_pool_release_ent ps x w1) = files w1"
        using free_same(1) [of w1 ps "ent_addr x"] by (simp add: ane_t6021_pool_release_ent_def lists_same_def)
      then show ?thesis using less.prems(1) less.hyps [OF lt _ J, of ts1] a A(1) A2(1) True ev Some
        by (auto simp: ane_t6021_pool_alloc_retry.simps [of ps _ _ p])
    qed
  qed
qed

lemma set_bo_twice: "set_bo i f (set_bo i g w) = set_bo i (\<lambda>b. f (g b)) w"
  by (simp add: set_bo_def split: option.splits)

lemma publish_sized: "bo_publish fd sz i (sized i sz w) = bo_publish fd sz i w"
  by (simp add: bo_publish_def set_bo_twice)

lemma pick_handle_only: "\<exists>h'. snd (pick_handle w) = w\<lparr>next_handle := h'\<rparr>"
  by (auto simp: pick_handle_def Let_def)

lemma publish_inv:
  assumes I: "binv ps cap X (insert i Z) w" and z: "i \<notin> Z"
    and m: "mem w i = Some m" "\<not> residue m" "PAGE_ALIGN ps (msize m) = PAGE_ALIGN ps sz"
    and l: "fd_list w fd = Some l"
  shows "binv ps cap X Z (snd (bo_publish fd sz i w))"
proof (rule binv_limbo [OF I])
  fix b x assume L: "bos w i = Some b" "mem w i = Some x" "nrefs X w i = 0" "nprog w i = 0"
    "parks (bo_pool w) i = {#}" "ent_addr (bo_ent b) = i"
    "mdma x = dma b" "prog_refs b = 0" "fw_ref b = fw_io b" "\<not> fw_program b" "i \<in> io_pub w \<Longrightarrow> fw_io b"
  obtain h h' where p: "pick_handle (set_bo i (\<lambda>b. b\<lparr>bo_size := sz, owner := fd, refcount := 1\<rparr>) w) =
      (h, (set_bo i (\<lambda>b. b\<lparr>bo_size := sz, owner := fd, refcount := 1\<rparr>) w)\<lparr>next_handle := h'\<rparr>)"
    using pick_handle_only by (metis prod.collapse)
  define w3 where "w3 = set_bo i (\<lambda>b. b\<lparr>handle := h\<rparr>) ((set_bo i (\<lambda>b. b\<lparr>bo_size := sz, owner := fd, refcount := 1\<rparr>) w)\<lparr>next_handle := h'\<rparr>)"
  let ?w = "w3\<lparr>files := on_fd fd (\<lambda>l. l @ [i]) (files w)\<rparr>"
  have s: "files w3 = files w" "vmas w3 = vmas w" "prog_held w3 = prog_held w" "mem w3 = mem w" "bo_pool w3 = bo_pool w"
    "io_pub w3 = io_pub w" "accounted ps cap w3 = accounted ps cap w" "nprog w3 = nprog w"
    "bos w3 i = Some (b\<lparr>bo_size := sz, owner := fd, refcount := 1, handle := h\<rparr>)" "\<And>j. j \<noteq> i \<Longrightarrow> bos w3 j = bos w j"
    using L(1) by (simp_all add: w3_def)
  have refs: "nrefs X ?w j = (if j = i then Suc (nrefs X w j) else nrefs X w j)" for j
  proof -
    have "nrefs X (w\<lparr>files := on_fd fd (\<lambda>l. l @ [i]) (files w)\<rparr>) j + count (mset l) j =
        nrefs X w j + count (mset (l @ [i])) j" by (rule fd_refs [OF I l])
    moreover have "nrefs X ?w j = nrefs X (w\<lparr>files := on_fd fd (\<lambda>l. l @ [i]) (files w)\<rparr>) j"
      by (simp add: nrefs_def refs_def s)
    ultimately show ?thesis by auto
  qed
  have "binv ps cap X Z ?w"
  proof (rule binv_local [OF I, where A = "{i}"])
    fix j assume "j \<in> {i}"
    then have j: "j = i" by simp
    show "cell_at ps X Z ?w j"
      unfolding j by (rule held_cell [where m = m and b = "b\<lparr>bo_size := sz, owner := fd, refcount := 1, handle := h\<rparr>"]) (use L m z in \<open>simp_all add: refs s flags_ok_def\<close>)
  next
    show "accounted ps cap ?w" using binvD(3) [OF I] by (simp add: s)
  next
    show "map fst (files ?w) = map fst (files w)" by (simp add: s)
  qed (auto simp: refs s)
  then show ?thesis by (simp add: bo_publish_def p [simplified] Let_def on_fd_def w3_def)
qed

lemma bo_init_inv:
  assumes I: "binv ps cap X Z w"
  shows "binv ps cap X Z (snd (ane_t6021_bo_init_ioctl ps q cap alias_ok fd sz ts w))"
proof (cases "sz = 0 \<or> sz > ANE_T6021_BO_MAX \<or> fd_list w fd = None")
  case True
  then show ?thesis using I by (auto simp: ane_t6021_bo_init_ioctl_def)
next
  case False
  then obtain l where l: "fd_list w fd = Some l" by auto
  obtain t p where t: "ane_t6021_pool_take ps (bo_pool w) sz q = (t, p)" by fastforce
  show ?thesis
  proof (cases t)
    case None
    have p: "p = bo_pool w" using t None take_None by simp
    obtain r w' ts' out p' where rt: "ane_t6021_pool_alloc_retry ps (ane_t6021_bo_alloc_attempt ps cap alias_ok sz)
      (release_ctx ps) p (w, ts, None) = (r, (w', ts', out), p')"
      by (metis prod_cases3)
    have R: "files w' = files w" "r \<noteq> None \<Longrightarrow> binv ps cap X Z (w'\<lparr>bo_pool := p'\<rparr>)"
      "r = None \<Longrightarrow> \<exists>i m. out = Some i \<and> i \<notin> Z \<and> mem w' i = Some m \<and> msize m = sz \<and> \<not> residue m \<and>
       binv ps cap X (insert i Z) (sized i sz (w'\<lparr>bo_pool := p'\<rparr>))"
      using retry_inv [OF rt, of X Z] I p by auto
    show ?thesis
    proof (cases r)
      case None
      then obtain i m where i: "out = Some i" "i \<notin> Z" "mem w' i = Some m" "msize m = sz" "\<not> residue m"
        "binv ps cap X (insert i Z) (sized i sz (w'\<lparr>bo_pool := p'\<rparr>))" using R(3) by auto
      have "binv ps cap X Z (snd (bo_publish fd sz i (w'\<lparr>bo_pool := p'\<rparr>)))"
        using publish_inv [OF i(6,2), of m sz fd l] i l R(1) by (simp add: publish_sized fd_list_def)
      then show ?thesis using False t \<open>t = None\<close> rt None i(1)
        by (auto simp: ane_t6021_bo_init_ioctl_def split: prod.splits)
    next
      case (Some e)
      then show ?thesis using False t None rt R(2) by (auto simp: ane_t6021_bo_init_ioctl_def)
    qed
  next
    case (Some ent)
    obtain x where x: "ent = unch x" "PAGE_ALIGN ps (ent_size x) = PAGE_ALIGN ps sz"
      "mset (pool_list (bo_pool w)) = mset [x] + mset (pool_list p)"
      using take_moves t Some by fastforce
    define i where "i = ent_addr x"
    have ix: "ent_addr ent = i" by (simp add: x(1) unch_def i_def)
    have "x \<in># parks (bo_pool w) i" using x(3) by (simp add: parks_def i_def)
    then obtain M where M: "parks (bo_pool w) i = add_mset x M" by (metis mset_add)
    have c: "cell ps i (bos w i) (mem w i) (nrefs X w i) (nprog w i) (add_mset x M) (i \<in> Z) (i \<in> io_pub w)"
      using binvD(1) [OF I, of i] by (simp add: cell_at_def M)
    obtain b where b: "bos w i = Some b" "ent_size x = bo_size b" "i \<notin> Z" using cell_parked [OF c] by metis
    have U: "binv ps cap X (insert i Z) (set_bo i (\<lambda>b. b\<lparr>bo_ent := ent\<rparr>) (w\<lparr>bo_pool := p\<rparr>))"
      using set_ent [OF unpark [OF I x(3)] ix] by (simp add: i_def)
    obtain m where m: "mem w i = Some m" "PAGE_ALIGN ps (msize m) = PAGE_ALIGN ps sz"
      using c b x(2) by (auto simp: cell_def block_ok_def split: option.splits)
    let ?w2 = "set_residue i False (set_bo i (\<lambda>b. b\<lparr>bo_ent := ent\<rparr>) (w\<lparr>bo_pool := p\<rparr>))"
    have "binv ps cap X (insert i Z) ?w2"
    proof (rule binv_local [OF U, where A = "{i}"])
      fix j assume "j \<in> {i}"
      then show "cell_at ps X (insert i Z) ?w2 j"
        using binvD(1) [OF U, of i] by (auto simp: cell_at_def cell_def block_ok_def split: option.splits if_splits)
    qed (use binvD(3) [OF U] in auto)
    then have "binv ps cap X Z (snd (bo_publish fd sz i ?w2))"
      by (rule publish_inv [where m = "m\<lparr>residue := False\<rparr>"]) (use b m l in \<open>simp_all add: fd_list_def\<close>)
    then show ?thesis using False t Some m ix
      by (auto simp: ane_t6021_bo_init_ioctl_def Let_def split: prod.splits)
  qed
qed


section \<open>Buffers the firmware is given\<close>

lemma nprog_cons: "nprog (w\<lparr>prog_held := i # l\<rparr>) j = (if j = i then 1 else 0) + nprog (w\<lparr>prog_held := l\<rparr>) j"
  by (simp add: nprog_def)

lemma nrefs_cons: "nrefs X (w\<lparr>prog_held := i # l\<rparr>) j = (if j = i then 1 else 0) + nrefs X (w\<lparr>prog_held := l\<rparr>) j"
  by (simp add: nrefs_def refs_def)

lemma mark_section_inv:
  assumes I: "binv ps cap X Z w"
  shows "binv ps cap X Z (snd (mark_section fd h off sz w))"
proof (cases "fst (mark_section fd h off sz w)")
  case None
  then have "snd (mark_section fd h off sz w) = w"
    by (auto simp: mark_section_def Let_def split: option.splits if_splits)
  then show ?thesis using I by simp
next
  case (Some r)
  then obtain i b0 where i: "bo_by_handle w fd h = Some i" "bos w i = Some b0"
    by (auto simp: mark_section_def Let_def split: option.splits if_splits)
  then obtain l where l: "fd_list w fd = Some l" "i \<in> set l" by (auto elim: by_handle_member)
  define f :: "bo \<Rightarrow> bo" where "f = (\<lambda>b. b\<lparr>fw_ref := True, fw_program := True, refcount := refcount b + 1, prog_refs := prog_refs b + 1\<rparr>)"
  have fs: "refcount (f b) = Suc (refcount b)" "prog_refs (f b) = prog_refs b + 1" "fw_ref (f b)" "fw_program (f b)"
    "fw_io (f b) = fw_io b" "bo_ent (f b) = bo_ent b" "bo_size (f b) = bo_size b" "dma (f b) = dma b" for b
    by (simp_all add: f_def)
  let ?w = "(set_bo i f w)\<lparr>prog_held := i # prog_held w\<rparr>"
  have e: "snd (mark_section fd h off sz w) = ?w"
    using Some i by (auto simp: mark_section_def Let_def kref_get_def set_bo_twice f_def split: if_splits)
  have n: "nrefs X ?w j = (if j = i then Suc (nrefs X w j) else nrefs X w j)" 
    "nprog ?w j = (if j = i then Suc (nprog w j) else nprog w j)" for j
    by (simp_all add: nrefs_def refs_def nprog_def)
  show ?thesis unfolding e
  proof (rule binv_held [OF I nrefs_pos [OF fd_member [OF l]]])
    fix b m assume L: "bos w i = Some b" "mem w i = Some m" "refcount b = nrefs X w i" "parks (bo_pool w) i = {#}" "i \<notin> Z"
      "ent_addr (bo_ent b) = i" "flags_ok (nprog w i) b" "i \<in> io_pub w \<Longrightarrow> fw_io b"
      "PAGE_ALIGN ps (msize m) = PAGE_ALIGN ps (bo_size b)" "mdma m = dma b" "\<not> residue m"
    show "binv ps cap X Z ?w"
    proof (rule binv_local [OF I, where A = "{i}"])
      fix j assume "j \<in> {i}"
      then have j: "j = i" by simp
      show "cell_at ps X Z ?w j"
        unfolding j by (rule held_cell [where m = m and b = "f b"])
          (use L in \<open>simp_all add: n flags_ok_def fs\<close>)
    qed (use binvD(3) [OF I] in \<open>auto simp: n\<close>)
  qed
qed

lemma mark_io_inv:
  assumes I: "binv ps cap X Z w"
  shows "binv ps cap X Z (snd (mark_io fd h sz w))"
proof (cases "fst (mark_io fd h sz w)")
  case None
  then have "snd (mark_io fd h sz w) = w" by (auto simp: mark_io_def split: option.splits if_splits)
  then show ?thesis using I by simp
next
  case (Some r)
  then obtain i b0 where i: "bo_by_handle w fd h = Some i" "bos w i = Some b0"
    by (auto simp: mark_io_def split: option.splits if_splits)
  then obtain l where l: "fd_list w fd = Some l" "i \<in> set l" by (auto elim: by_handle_member)
  let ?w = "(set_bo i (\<lambda>b. b\<lparr>fw_ref := True, fw_io := True\<rparr>) w)\<lparr>io_pub := insert i (io_pub w)\<rparr>"
  have e: "snd (mark_io fd h sz w) = ?w" using Some i by (auto simp: mark_io_def split: if_splits)
  show ?thesis unfolding e
  proof (rule binv_held [OF I nrefs_pos [OF fd_member [OF l]]])
    fix b m assume L: "bos w i = Some b" "mem w i = Some m" "refcount b = nrefs X w i" "parks (bo_pool w) i = {#}" "i \<notin> Z"
      "ent_addr (bo_ent b) = i" "flags_ok (nprog w i) b"
      "PAGE_ALIGN ps (msize m) = PAGE_ALIGN ps (bo_size b)" "mdma m = dma b" "\<not> residue m"
    show "binv ps cap X Z ?w"
    proof (rule binv_local [OF I, where A = "{i}"])
      fix j assume "j \<in> {i}"
      then have j: "j = i" by simp
      show "cell_at ps X Z ?w j"
        unfolding j by (rule held_cell [where m = m and b = "b\<lparr>fw_ref := True, fw_io := True\<rparr>"])
          (use L nrefs_pos [OF fd_member [OF l]] in \<open>simp_all add: flags_ok_def\<close>)
    qed (use binvD(3) [OF I] in auto)
  qed
qed

text \<open>A section gives its reference back.\<close>

lemma section_release_inv:
  assumes I: "binv ps cap X Z w" and h: "i \<in> set (prog_held w)"
  shows "binv ps cap X Z (section_release ps q (Some i) w)"
proof (rule binv_held [OF I])
  show "0 < nrefs X w i" using h by (simp add: nrefs_def refs_def)
  fix b m assume L: "bos w i = Some b" "mem w i = Some m" "refcount b = nrefs X w i" "parks (bo_pool w) i = {#}" "i \<notin> Z"
    "ent_addr (bo_ent b) = i" "flags_ok (nprog w i) b" "i \<in> io_pub w \<Longrightarrow> fw_io b"
    "PAGE_ALIGN ps (msize m) = PAGE_ALIGN ps (bo_size b)" "mdma m = dma b" "\<not> residue m"
  have gs: "refcount (g b) = refcount b" "bo_ent (g b) = bo_ent b" "bo_size (g b) = bo_size b" "dma (g b) = dma b" "fw_io (g b) = fw_io b" 
    if "g = (\<lambda>b. if prog_refs b - 1 = 0 then b\<lparr>prog_refs := prog_refs b - 1, fw_program := False, fw_ref := fw_io b\<rparr>
      else b\<lparr>prog_refs := prog_refs b - 1\<rparr>)" for g :: "bo \<Rightarrow> bo"
    by (simp_all add: that)
  define g :: "bo \<Rightarrow> bo" where "g = (\<lambda>b. if prog_refs b - 1 = 0 then b\<lparr>prog_refs := prog_refs b - 1, fw_program := False, fw_ref := fw_io b\<rparr>
      else b\<lparr>prog_refs := prog_refs b - 1\<rparr>)"
  let ?w = "(set_bo i g w)\<lparr>prog_held := remove1 i (prog_held w)\<rparr>"
  obtain k where k: "nprog w i = Suc k" using h by (metis count_mset_0_iff gr0_implies_Suc neq0_conv nprog_def)
  have np: "nprog ?w i = k" "\<And>j. j \<noteq> i \<Longrightarrow> nprog ?w j = nprog w j"
    using k by (simp_all add: nprog_def)
  have r: "nrefs (add_mset i X) ?w j = nrefs X w j" for j
  proof -
    have "count (mset (prog_held w)) j = (if j = i then Suc (count (mset (remove1 i (prog_held w))) j)
        else count (mset (remove1 i (prog_held w))) j)" by (rule count_remove1 [OF h])
    then show ?thesis by (simp add: nrefs_def refs_def del: mset_remove1)
  qed
  have f: "flags_ok k (g b)"
    using L(7) k by (auto simp: flags_ok_def g_def)
  have "binv ps cap (add_mset i X) Z ?w"
  proof (rule binv_local [OF I, where A = "{i}"])
    fix j assume "j \<in> {i}"
    then have j: "j = i" by simp
    show "cell_at ps (add_mset i X) Z ?w j"
      unfolding j by (rule held_cell [where m = m and b = "g b"])
        (use L f h gs [OF g_def] in \<open>simp_all add: r np nrefs_pos refs_def\<close>)
  qed (use binvD(3) [OF I] in \<open>auto simp: r np\<close>)
  from kref_put_inv [OF this]
  show ?thesis by (simp add: section_release_def Let_def set_bo_twice g_def cong: if_cong)
qed

end
