(* ===== verification/Ane_Ioctl.thy ===== *)
theory Ane_Ioctl
  imports Ane_Command Ane_Bo
begin


text \<open>
  The file operations of the M2 driver (\<^verbatim>\<open>ane/t6021/ane_t6021_rtclient_main.c\<close>): program
  load, lookup and unload, process creation, execution, open and close, and the two control
  commands.  Each holds \<^verbatim>\<open>ane_t6021_fw_lock\<close>, so they follow one another; what other
  threads do to buffers under \<^verbatim>\<open>ane_t6021_bo_lock\<close> alone happens in between, at every point
  where the code takes that lock and after every firmware command, and is chosen by the
  environment (\<open>others\<close>).

  The environment also supplies the kernel's SHA-256, the bytes clients put in their buffers, the
  page shift and the byte cap.
\<close>

definition ANE_T6021_LOAD_SEC_COUNT :: u32 where "ANE_T6021_LOAD_SEC_COUNT = 9"
definition ANE_M2_MAX_BINDS :: u32 where "ANE_M2_MAX_BINDS = 64"
definition ANE_T6021_BO_HASH_CHUNK :: nat where "ANE_T6021_BO_HASH_CHUNK = 0x100000"

text \<open>What another thread can do to buffers.\<close>

datatype bo_op =
    BoInit nat u64 "alloc_try list"
  | BoFree nat u32
  | BoMmap nat u64 u64 "errno option"
  | VmOpen nat
  | VmClose nat
  | FileOpen nat
  | FileBos nat                   \<comment> \<open>the second half of a close\<close>
  | PoolMax "errno + u32"

record m2_env = cmd_env +
  page_shift :: nat
  bo_total_max_mb :: u32
  others :: "trace \<Rightarrow> bo_op list"
  sha256 :: "u8 list \<Rightarrow> u8 list"
  bo_byte :: "trace \<Rightarrow> nat \<Rightarrow> nat \<Rightarrow> u8"

definition bo_cap :: "'e m2_env_scheme \<Rightarrow> int" where
  "bo_cap E = int (unat (bo_total_max_mb E)) * 2 ^ 20"

record m2 = drv +
  bw :: bw
  ptab :: progtab
  fprogs :: "nat \<Rightarrow> fdprogs"
  unload_on_close :: bool
  fw_perf_mode :: bool

definition alias_clear :: "'m rtc_scheme \<Rightarrow> u64 \<Rightarrow> u64 \<Rightarrow> bool" where
  "alias_clear s d sz \<longleftrightarrow> (fw_present s \<longrightarrow> ane_t6021_fw_alias_iova_ok s d sz)"

definition run_bo_op :: "'e m2_env_scheme \<Rightarrow> 'm m2_scheme \<Rightarrow> bo_op \<Rightarrow> bw \<Rightarrow> bw" where
  "run_bo_op E s op w = (let ps = page_shift E; q = quarantined s in
     case op of
       BoInit fd sz ts \<Rightarrow> snd (ane_t6021_bo_init_ioctl ps q (bo_cap E) (alias_clear s) fd sz ts w)
     | BoFree fd h \<Rightarrow> snd (ane_t6021_bo_free_ioctl ps q fd h w)
     | BoMmap fd pgoff sz r \<Rightarrow> snd (ane_t6021_mmap ps q fd pgoff sz r w)
     | VmOpen k \<Rightarrow> ane_t6021_vm_open k w
     | VmClose k \<Rightarrow> ane_t6021_vm_close ps q k w
     | FileOpen fd \<Rightarrow> ane_t6021_open fd w
     | FileBos fd \<Rightarrow> close_bos ps q fd w
     | PoolMax v \<Rightarrow> snd (ane_t6021_bo_pool_max_mb_set ps v w))"

definition bo_lock :: "'e m2_env_scheme \<Rightarrow> ('m m2_scheme, unit) state" where
  "bo_lock E = do {
     s \<leftarrow> get_st;
     emit (Phase ''bo_lock'');
     modify (\<lambda>s'. s'\<lparr>bw := fold (run_bo_op E s) (others E (trace s)) (bw s')\<rparr>) }"

definition cmd_clear :: "('m m2_scheme, unit) state" where
  "cmd_clear = emit (Phase ''cmd_clear'')"

definition m2_command :: "'e m2_env_scheme \<Rightarrow> nat \<Rightarrow> u64 \<Rightarrow> u16 \<Rightarrow> ('m m2_scheme, errno option) state" where
  "m2_command E c len opcode = do {
     r \<leftarrow> ane_rtclient_command E c len opcode 1;
     bo_lock E;
     ret r }"

section \<open>Unload\<close>

definition unload_step :: "'e m2_env_scheme \<Rightarrow> nat \<Rightarrow> u64 \<Rightarrow> u16 \<Rightarrow> ('m m2_scheme, errno option) state" where
  "unload_step E c len opcode = do {
     r \<leftarrow> m2_command E c len opcode;
     r' \<leftarrow> (if r = None then ane_rtclient_malloc_settle E else ret r);
     guarded (r' \<noteq> None) (modify (\<lambda>s. s\<lparr>quarantined := True\<rparr>));
     ret r' }"

definition ane_t6021_prog_unload_op :: "'e m2_env_scheme \<Rightarrow> prog \<Rightarrow> ('m m2_scheme, errno option) state" where
  "ane_t6021_prog_unload_op E p = do {
     s \<leftarrow> get_st;
     case cmd_buf s of
       None \<Rightarrow> ret (Some ENODEV)
     | Some c \<Rightarrow>
         if quarantined s then ret (Some ENODEV)
         else do {
           r \<leftarrow> (if proc_id p \<noteq> 0xffffffff then do {
                    cmd_clear;
                    wrl (Cmd 0x08) (ucast (prog_id p));
                    wrl (Cmd 0x0c) (ucast (proc_id p));
                    unload_step E c 0x10 CSNE_CMD_TERMINATE_PROCESS }
                  else ret None);
           if r \<noteq> None then ret r
           else do {
             cmd_clear;
             wrl (Cmd 0x08) (ucast (prog_id p));
             unload_step E c 0x0c CSNE_CMD_DESTROY_PROGRAM } } }"

definition prog_release :: "'e m2_env_scheme \<Rightarrow> prog \<Rightarrow> ('m m2_scheme, unit) state" where
  "prog_release E p = do {
     bo_lock E;
     modify (\<lambda>s. s\<lparr>bw := ane_t6021_prog_release_op (page_shift E) (quarantined s) p (bw s)\<rparr>) }"

definition m2_progtab_ops :: "'e m2_env_scheme \<Rightarrow> 'm m2_scheme progtab_ops" where
  "m2_progtab_ops E = \<lparr>unload = (\<lambda>s p. run_state (ane_t6021_prog_unload_op E p) s),
                       release = (\<lambda>s p. snd (run_state (prog_release E p) s))\<rparr>"

definition ane_t6021_postclose :: "'e m2_env_scheme \<Rightarrow> nat \<Rightarrow> ('m m2_scheme, unit) state" where
  "ane_t6021_postclose E fd = do {
     s \<leftarrow> get_st;
     if fd_list (bw s) fd = None then ret ()
     else do {
       (case ane_t6021_progtab_fd_close (ptab s) (fprogs s fd) (unload_on_close s) (m2_progtab_ops E) s of
          (n, t, f, s') \<Rightarrow> State_Monad.set (s'\<lparr>ptab := t, fprogs := (fprogs s')(fd := f)\<rparr>));
       bo_lock E;
       modify (\<lambda>s. s\<lparr>bw := close_bos (page_shift E) (quarantined s) fd (bw s)\<rparr>) } }"

section \<open>Load\<close>

record sec_arg =
  s_id :: u32
  s_handle :: u32
  s_size :: u64
  s_offset :: u64

text \<open>The load arguments: the user's array, and whether the kernel's allocations and copies
  succeed.\<close>

record load_args =
  section_count :: u32
  generic_count :: u32
  user_sec :: "nat \<Rightarrow> sec_arg"
  arrays_ok :: bool
  sections_copied :: bool
  binds_copied :: bool
  scratch_ok :: bool

fun ids_ok :: "sec_arg list \<Rightarrow> bool" where
  "ids_ok [] = True"
| "ids_ok (s # ss) \<longleftrightarrow> \<not> (s_id s < 1 \<or> s_id s > ANE_T6021_LOAD_SEC_COUNT) \<and>
     list_all (\<lambda>t. s_id s \<noteq> s_id t) ss \<and> ids_ok ss"

definition sec_buffer :: "bw \<Rightarrow> nat \<Rightarrow> sec_arg \<Rightarrow> nat option" where
  "sec_buffer w fd a =
     (case bo_by_handle w fd (s_handle a) of
        None \<Rightarrow> None
      | Some i \<Rightarrow>
          (case bos w i of
             None \<Rightarrow> None
           | Some b \<Rightarrow> if s_size a > bo_size b \<or> s_offset a > bo_size b - s_size a then None else Some i))"

text \<open>The bytes of a section reach the hash in slices of 1 MiB.\<close>

function hash_slices :: "(nat \<Rightarrow> u8) \<Rightarrow> nat \<Rightarrow> nat \<Rightarrow> nat \<Rightarrow> u8 list" where
  "hash_slices m off sz left =
     (if left = 0 then []
      else let n = min left ANE_T6021_BO_HASH_CHUNK
           in map (\<lambda>k. m (off + (sz - left) + k)) [0..<n] @ hash_slices m off sz (left - n))"
  by pat_completeness auto
termination
  by (relation "measure (\<lambda>(m, off, sz, left). left)") (auto simp: ANE_T6021_BO_HASH_CHUNK_def)

declare hash_slices.simps [simp del]

definition le_bytes :: "nat \<Rightarrow> u64 \<Rightarrow> u8 list" where
  "le_bytes n v = map (\<lambda>k. ucast (drop_bit (8 * k) v)) [0..<n]"

primrec hash_loop ::
  "'e m2_env_scheme \<Rightarrow> nat \<Rightarrow> sec_arg list \<Rightarrow> u8 list \<Rightarrow> ('m m2_scheme, errno + u8 list) state" where
  "hash_loop E fd [] acc = ret (Inr acc)"
| "hash_loop E fd (a # as) acc = do {
     bo_lock E;
     s \<leftarrow> get_st;
     case sec_buffer (bw s) fd a of
       None \<Rightarrow> ret (Inl EINVAL)
     | Some i \<Rightarrow> hash_loop E fd as (acc @ le_bytes 8 (ucast (s_id a)) @ le_bytes 8 (s_size a) @
         hash_slices (bo_byte E (trace s) i) (unat (s_offset a)) (unat (s_size a)) (unat (s_size a))) }"

definition slot_base :: "u32 \<Rightarrow> nat" where
  "slot_base sid = 0x8 + (unat sid - 1) * 0x30"

primrec mark_loop ::
  "'e m2_env_scheme \<Rightarrow> nat \<Rightarrow> sec_arg list \<Rightarrow> nat option list \<Rightarrow> ('m m2_scheme, errno + nat option list) state" where
  "mark_loop E fd [] sl = ret (Inr sl)"
| "mark_loop E fd (a # as) sl = do {
     bo_lock E;
     s \<leftarrow> get_st;
     case mark_section fd (s_handle a) (s_offset a) (s_size a) (bw s) of
       (None, w) \<Rightarrow> ret (Inl EINVAL)
     | (Some (i, iova), w) \<Rightarrow> do {
         modify (\<lambda>s. s\<lparr>bw := w\<rparr>);
         wrl (Cmd (slot_base (s_id a) + 0x00)) 1;
         wrl (Cmd (slot_base (s_id a) + 0x04)) (ucast (s_id a));
         wrl (Cmd (slot_base (s_id a) + 0x18)) iova;
         wrl (Cmd (slot_base (s_id a) + 0x20)) (s_size a);
         mark_loop E fd as (sl[unat (s_id a) - 1 := Some i]) } }"

definition file_ref :: "nat \<Rightarrow> nat \<Rightarrow> ('m m2_scheme, bool) state" where
  "file_ref fd i = do {
     s \<leftarrow> get_st;
     case ane_t6021_fdprogs_ref (fprogs s fd) (ptab s) i of
       (ok, f, t) \<Rightarrow> do {
         modify (\<lambda>s. s\<lparr>ptab := t, fprogs := (fprogs s)(fd := f)\<rparr>);
         ret ok } }"

definition load_register :: "nat \<Rightarrow> u8 list \<Rightarrow> u32 \<Rightarrow> nat option list \<Rightarrow> ('m m2_scheme, errno + u32) state" where
  "load_register fd d pid sl = do {
     s \<leftarrow> get_st;
     case ane_t6021_progtab_add (ptab s) d pid of
       None \<Rightarrow> ret (Inl ENOSPC)
     | Some (i, t) \<Rightarrow> do {
         modify (\<lambda>s. s\<lparr>ptab := put_prog t i ((progs t ! i)\<lparr>sec := sl\<rparr>)\<rparr>);
         ok \<leftarrow> file_ref fd i;
         ret (if ok then Inr pid else Inl ENOSPC) } }"

definition load_send ::
  "'e m2_env_scheme \<Rightarrow> nat \<Rightarrow> nat \<Rightarrow> u8 list \<Rightarrow> nat option list \<Rightarrow> ('m m2_scheme, errno + u32) state" where
  "load_send E fd c d sl = do {
     wrl (Cmd 0x1b8) 0xffffffff;
     r \<leftarrow> m2_command E c 0x1c0 CSNE_CMD_LOAD_PROGRAM;
     case r of
       Some e \<Rightarrow> ret (Inl e)
     | None \<Rightarrow> do {
         v \<leftarrow> rdl E (Cmd 0x1b8);
         if (ucast v :: u32) = 0xffffffff then ret (Inl EPROTO)
         else load_register fd d (ucast v) sl } }"

definition load_new_program ::
  "'e m2_env_scheme \<Rightarrow> nat \<Rightarrow> sec_arg list \<Rightarrow> u8 list \<Rightarrow> ('m m2_scheme, errno + u32) state" where
  "load_new_program E fd as d = do {
     s \<leftarrow> get_st;
     case cmd_buf s of
       None \<Rightarrow> ret (Inl ENODEV)
     | Some c \<Rightarrow> do {
         cmd_clear;
         m \<leftarrow> mark_loop E fd as (replicate ANE_T6021_PROG_SECS None);
         case m of Inl e \<Rightarrow> ret (Inl e) | Inr sl \<Rightarrow> load_send E fd c d sl } }"

definition load_digest ::
  "'e m2_env_scheme \<Rightarrow> nat \<Rightarrow> sec_arg list \<Rightarrow> u8 list \<Rightarrow> ('m m2_scheme, errno + u32) state" where
  "load_digest E fd as d = do {
     s \<leftarrow> get_st;
     case ane_t6021_progtab_find (ptab s) d of
       Some i \<Rightarrow> do {
         ok \<leftarrow> file_ref fd i;
         ret (if ok then Inr (prog_id (progs (ptab s) ! i)) else Inl ENOSPC) }
     | None \<Rightarrow>
         if \<not> ane_t6021_progtab_has_room (ptab s) then ret (Inl ENOSPC)
         else load_new_program E fd as d }"

definition ane_rtclient_load_program ::
  "'e m2_env_scheme \<Rightarrow> nat \<Rightarrow> load_args \<Rightarrow> ('m m2_scheme, errno + u32) state" where
  "ane_rtclient_load_program E fd u = do {
     s \<leftarrow> get_st;
     let as = map (user_sec u) [0..<unat (section_count u)];
     if section_count u < 1 \<or> section_count u > ANE_T6021_LOAD_SEC_COUNT \<or>
        generic_count u > ANE_M2_MAX_BINDS \<or> fd_list (bw s) fd = None then ret (Inl EINVAL)
     else if \<not> arrays_ok u then ret (Inl ENOMEM)
     else if \<not> sections_copied u then ret (Inl EFAULT)
     else if generic_count u \<noteq> 0 \<and> \<not> binds_copied u then ret (Inl EFAULT)
     else if \<not> ids_ok as then ret (Inl EINVAL)
     else if \<not> scratch_ok u then ret (Inl ENOMEM)
     else do {
       h \<leftarrow> hash_loop E fd as [];
       case h of Inl e \<Rightarrow> ret (Inl e) | Inr bytes \<Rightarrow> load_digest E fd as (sha256 E bytes) } }"

definition ane_t6021_prog_load_ioctl ::
  "'e m2_env_scheme \<Rightarrow> nat \<Rightarrow> load_args \<Rightarrow> ('m m2_scheme, errno + u32) state" where
  "ane_t6021_prog_load_ioctl E fd u = do {
     s \<leftarrow> get_st;
     if quarantined s then ret (Inl ETIMEDOUT) else ane_rtclient_load_program E fd u }"

section \<open>Lookup and process creation\<close>

text \<open>\<open>digest_arg\<close> is \<open>None\<close> when the copy from the user fails.\<close>

definition ane_t6021_prog_lookup_ioctl ::
  "nat \<Rightarrow> u32 \<Rightarrow> u32 \<Rightarrow> u8 list option \<Rightarrow> ('m m2_scheme, errno + u32 option) state" where
  "ane_t6021_prog_lookup_ioctl fd digest_len pad digest_arg = do {
     s \<leftarrow> get_st;
     if pad \<noteq> 0 \<or> digest_len \<noteq> 32 then ret (Inl EINVAL)
     else case digest_arg of
       None \<Rightarrow> ret (Inl EFAULT)
     | Some d \<Rightarrow>
         if quarantined s then ret (Inl ENODEV)
         else (case ane_t6021_progtab_find (ptab s) d of
             None \<Rightarrow> ret (Inr None)
           | Some i \<Rightarrow> do {
               ok \<leftarrow> file_ref fd i;
               ret (if ok then Inr (Some (prog_id (progs (ptab s) ! i))) else Inl ENOSPC) }) }"

definition create_send :: "'e m2_env_scheme \<Rightarrow> u32 \<Rightarrow> nat \<Rightarrow> nat \<Rightarrow> ('m m2_scheme, errno + u32) state" where
  "create_send E pid i c = do {
     cmd_clear;
     wrl (Cmd 0x08) (ucast pid);
     wrl (Cmd 0x0c) 0xffffffff;
     r \<leftarrow> m2_command E c 0x10 CSNE_CMD_CREATE_PROCESS;
     case r of
       Some e \<Rightarrow> ret (Inl e)
     | None \<Rightarrow> do {
         v \<leftarrow> rdl E (Cmd 0x0c);
         if (ucast v :: u32) = 0xffffffff then ret (Inl EPROTO)
         else do {
           modify (\<lambda>s. s\<lparr>ptab := put_prog (ptab s) i ((progs (ptab s) ! i)\<lparr>proc_id := ucast v\<rparr>)\<rparr>);
           ret (Inr (ucast v)) } } }"

definition ane_rtclient_create_process :: "'e m2_env_scheme \<Rightarrow> u32 \<Rightarrow> ('m m2_scheme, errno + u32) state" where
  "ane_rtclient_create_process E pid = do {
     s \<leftarrow> get_st;
     case ane_t6021_progtab_by_id (ptab s) pid of
       None \<Rightarrow> ret (Inl ENOENT)
     | Some i \<Rightarrow>
         if proc_id (progs (ptab s) ! i) \<noteq> 0xffffffff then ret (Inr (proc_id (progs (ptab s) ! i)))
         else (case cmd_buf s of
             None \<Rightarrow> ret (Inl ENODEV)
           | Some c \<Rightarrow> create_send E pid i c) }"

definition ane_t6021_proc_create_ioctl :: "'e m2_env_scheme \<Rightarrow> nat \<Rightarrow> u32 \<Rightarrow> ('m m2_scheme, errno + u32) state" where
  "ane_t6021_proc_create_ioctl E fd pid = do {
     s \<leftarrow> get_st;
     if quarantined s then ret (Inl ETIMEDOUT)
     else if fd_list (bw s) fd = None \<or> \<not> ane_t6021_fdprogs_has (fprogs s fd) pid then ret (Inl ENOENT)
     else ane_rtclient_create_process E pid }"

section \<open>Execution\<close>

record io_arg =
  io_buffer_id :: u32
  io_handle :: u32
  io_type :: u32
  io_size :: u64

record exec_args =
  x_prog_id :: u32
  x_proc_id :: u32
  x_priority :: u32
  x_count :: u32
  user_io :: "nat \<Rightarrow> io_arg"
  ios_ok :: bool
  ios_copied :: bool

primrec io_loop :: "'e m2_env_scheme \<Rightarrow> nat \<Rightarrow> nat \<Rightarrow> io_arg list \<Rightarrow> ('m m2_scheme, errno option) state" where
  "io_loop E fd k [] = ret None"
| "io_loop E fd k (a # as) = do {
     bo_lock E;
     s \<leftarrow> get_st;
     case mark_io fd (io_handle a) (io_size a) (bw s) of
       (None, w) \<Rightarrow> ret (Some EINVAL)
     | (Some iova, w) \<Rightarrow> do {
         modify (\<lambda>s. s\<lparr>bw := w\<rparr>);
         wrl (Cmd (0x60 + k * 0x30 + 0x00)) 1;
         wrl (Cmd (0x60 + k * 0x30 + 0x04)) (ucast (io_buffer_id a));
         wrl (Cmd (0x60 + k * 0x30 + 0x08)) (ucast (io_type a));
         wrl (Cmd (0x60 + k * 0x30 + 0x18)) iova;
         wrl (Cmd (0x60 + k * 0x30 + 0x20)) (io_size a);
         io_loop E fd (Suc k) as } }"

definition ane_rtclient_procedure_call :: "'e m2_env_scheme \<Rightarrow> nat \<Rightarrow> exec_args \<Rightarrow> ('m m2_scheme, errno option) state" where
  "ane_rtclient_procedure_call E fd u = do {
     s \<leftarrow> get_st;
     let as = map (user_io u) [0..<unat (x_count u)];
     let cmd_size = (0x60 + ucast (x_count u) * 0x30 :: u64);
     if x_count u < 1 \<or> x_count u > ANE_M2_MAX_BINDS \<or> x_priority u < 2 \<or> x_priority u > 7 \<or>
        fd_list (bw s) fd = None then ret (Some EINVAL)
     else if \<not> ios_ok u then ret (Some ENOMEM)
     else if \<not> ios_copied u then ret (Some EFAULT)
     else if cmd_size > 0x4000 then ret (Some E2BIG)
     else if quarantined s then ret (Some ETIMEDOUT)
     else case cmd_buf s of
       None \<Rightarrow> ret (Some ENODEV)
     | Some c \<Rightarrow>
         if \<not> ane_t6021_fdprogs_has (fprogs s fd) (x_prog_id u) then ret (Some ENOENT)
         else do {
           cmd_clear;
           wrl (Cmd 0x08) (ucast (x_prog_id u));
           wrl (Cmd 0x0c) (ucast (x_proc_id u));
           wrl (Cmd 0x10) 0;
           wrl (Cmd 0x18) (ucast (x_priority u));
           wrl (Cmd 0x20) ANE_CALL_COOKIE;
           wrl (Cmd 0x28) (ucast (x_count u));
           r \<leftarrow> io_loop E fd 0 as;
           if r \<noteq> None then ret r
           else do {
             emit Barrier;
             m2_command E c cmd_size CSNE_CMD_PROCEDURE_CALL } } }"

definition ane_t6021_exec_ioctl :: "'e m2_env_scheme \<Rightarrow> nat \<Rightarrow> exec_args \<Rightarrow> ('m m2_scheme, errno option) state" where
  "ane_t6021_exec_ioctl E fd u = ane_rtclient_procedure_call E fd u"

definition ane_t6021_submit_ioctl :: "('m m2_scheme, errno option) state" where
  "ane_t6021_submit_ioctl = ret (Some ENOTTY)"

section \<open>Control commands\<close>

text \<open>\<open>val\<close> is what \<^verbatim>\<open>kstrtobool\<close> made of the text, \<open>bound\<close> whether a device was
  probed.\<close>

definition ane_t6021_perf_mode_set :: "'e m2_env_scheme \<Rightarrow> errno + bool \<Rightarrow> bool \<Rightarrow> ('m m2_scheme, errno option) state" where
  "ane_t6021_perf_mode_set E val bound = do {
     s \<leftarrow> get_st;
     case val of
       Inl e \<Rightarrow> ret (Some e)
     | Inr on \<Rightarrow>
         if \<not> on \<or> fw_perf_mode s then ret (if on then None else Some EINVAL)
         else if \<not> bound then ret (Some ENODEV)
         else if quarantined s then ret (Some ETIMEDOUT)
         else (case cmd_buf s of
             None \<Rightarrow> ret (Some ENODEV)
           | Some c \<Rightarrow> do {
               cmd_clear;
               wrl (Cmd 0x08) 0;
               wrl (Cmd 0x0c) 0x10aa;
               wrl (Cmd 0x10) 1;
               r \<leftarrow> m2_command E c 0x14 0x1f;
               guarded (r = None) (modify (\<lambda>s. s\<lparr>fw_perf_mode := True\<rparr>));
               ret r }) }"

definition ane_t6021_dyn_pg_on :: "'e m2_env_scheme \<Rightarrow> nat \<Rightarrow> ('m m2_scheme, errno option) state" where
  "ane_t6021_dyn_pg_on E c = do {
     cmd_clear;
     wrl (Cmd 0x08) 1;
     m2_command E c 0x0c CSNE_CMD_SET_DYNAMIC_POWERGATE }"


section \<open>What buffer operations leave alone\<close>

definition kept :: "bw \<Rightarrow> bw \<Rightarrow> bool" where
  "kept w w' \<longleftrightarrow> prog_held w' = prog_held w \<and> io_pub w' = io_pub w"

lemma kept_refl [simp]: "kept w w"
  by (simp add: kept_def)

lemma kept_trans: "kept w w' \<Longrightarrow> kept w' w'' \<Longrightarrow> kept w w''"
  by (simp add: kept_def)

lemma same_kept: "lists_same w w' \<Longrightarrow> kept w w'"
  by (simp add: lists_same_def kept_def)

lemma kept_put: "kept w (kref_put ps q i w)" "kept w (kref_get i w)"
  using same_kept [OF put_same] same_kept [OF get_same] by auto

lemma kept_files [simp]: "kept w (w\<lparr>files := fs\<rparr>)" "kept w (w\<lparr>vmas := vs\<rparr>)" "kept w (w\<lparr>bo_pool := p\<rparr>)"
  "kept (w\<lparr>files := fs\<rparr>) w' = kept w w'" "kept (w\<lparr>vmas := vs\<rparr>) w' = kept w w'" "kept (w\<lparr>bo_pool := p\<rparr>) w' = kept w w'"
  "kept w (w'\<lparr>files := fs\<rparr>) = kept w w'" "kept w (w'\<lparr>vmas := vs\<rparr>) = kept w w'" "kept w (w'\<lparr>bo_pool := p\<rparr>) = kept w w'"
  by (simp_all add: kept_def)

lemma kept_drop: "kept w (ane_t6021_bo_drop ps q fd i w)"
  using kept_put(1) [of "w\<lparr>files := fs\<rparr>" ps q i for fs] by (simp add: ane_t6021_bo_drop_def)

lemma kept_fold: "(\<And>x w. kept w (f x w)) \<Longrightarrow> kept w (fold f xs w)"
  by (induction xs arbitrary: w) (auto intro: kept_trans)

lemma kept_evict: "kept w (fold (ane_t6021_pool_release_ent ps) rs w)"
  using release_ents_same [of w ps rs] by (auto intro: same_kept)

lemma kept_publish: "kept w (snd (bo_publish fd sz i w))"
  using pick_handle_only [of "set_bo i (\<lambda>b. b\<lparr>bo_size := sz, owner := fd, refcount := 1\<rparr>) w"]
  by (auto simp: bo_publish_def Let_def kept_def split: prod.splits)

lemma kept_retry:
  assumes "ane_t6021_pool_alloc_retry ps (ane_t6021_bo_alloc_attempt ps cap alias_ok sz)
      (release_ctx ps) p (w, ts, o0) = (r, (w', ts', out), p')"
  shows "kept w w'"
  using assms
proof (induction "length (pool_list p)" arbitrary: p w ts o0 rule: less_induct)
  case less
  obtain r1 w1 ts1 o1 where a: "ane_t6021_bo_alloc_attempt ps cap alias_ok sz p (w, ts, o0) = (r1, w1, ts1, o1)"
    by (metis prod_cases3)
  have k: "kept w w1"
    using a by (auto simp: ane_t6021_bo_alloc_attempt_def Let_def kept_def split: if_splits list.splits alloc_try.splits)
  obtain e q where ev: "ane_t6021_pool_evict_oldest ps p = (e, q)" by fastforce
  show ?case
  proof (cases "(r1 = Some ENOMEM \<or> r1 = Some ENOSPC) \<and> e \<noteq> None")
    case True
    then obtain x where x: "e = Some x" by auto
    have lt: "length (pool_list q) < length (pool_list p)" using evict_oldest_shrinks ev x by metis
    have "kept (ane_t6021_pool_release_ent ps x w1) w'"
      using less.prems True a ev x by (intro less.hyps [OF lt, of _ ts1 o1]) (auto simp: ane_t6021_pool_alloc_retry.simps [of ps _ _ p])
    then show ?thesis
      using kept_trans [OF k kept_trans [OF same_kept [OF free_same(1)]]] by (simp add: ane_t6021_pool_release_ent_def)
  next
    case False
    then show ?thesis using less.prems a ev k
      by (auto simp: ane_t6021_pool_alloc_retry.simps [of ps _ _ p] split: if_splits option.splits)
  qed
qed

lemma kept_bo_init: "kept w (snd (ane_t6021_bo_init_ioctl ps q cap alias_ok fd sz ts w))"
proof -
  have pub: "kept w x" if "bo_publish fd sz i w' = (h, x)" "kept w w'" for i w' h x
    using kept_trans [OF that(2) kept_publish] that(1) by (metis snd_conv)
  obtain t p where t: "ane_t6021_pool_take ps (bo_pool w) sz q = (t, p)" by fastforce
  obtain r w' ts' out p' where rt: "ane_t6021_pool_alloc_retry ps (ane_t6021_bo_alloc_attempt ps cap alias_ok sz)
      (release_ctx ps) p (w, ts, None) = (r, (w', ts', out), p')"
    by (metis prod_cases3)
  have k: "kept w w'" by (rule kept_retry [OF rt])
  have k2: "kept w (w'\<lparr>bo_pool := p'\<rparr>)" using k by simp
  have k3: "kept w (set_bo i f (w\<lparr>bo_pool := p\<rparr>))" "kept w (set_residue i b (set_bo i f (w\<lparr>bo_pool := p\<rparr>)))" for i f b
    by (simp_all add: kept_def)
  show ?thesis
    using k
    by (auto dest: pub [OF _ k2] pub [OF _ k3(1)] pub [OF _ k3(2)]
        simp: ane_t6021_bo_init_ioctl_def Let_def t rt split: option.splits prod.splits if_splits)
qed

lemma kept_op: "kept w (run_bo_op E s op w)"
proof (cases op)
  case (BoMmap fd pgoff sz r)
  have "kept w (kref_put ps q i (kref_get i w))" "kept w (kref_get i w)" for ps q i
    using kept_trans [OF kept_put(2) kept_put(1)] kept_put(2) by auto
  then show ?thesis using BoMmap by (auto simp: run_bo_op_def ane_t6021_mmap_def Let_def split: option.splits)
next
  case (FileBos fd)
  then show ?thesis
    by (auto simp: run_bo_op_def close_bos_def Let_def kept_fold kept_drop split: option.splits)
next
  case (PoolMax v)
  have "kept w (fold (ane_t6021_pool_release_ent ps) rs (w\<lparr>bo_pool := p\<rparr>))" for ps rs p
    using kept_evict [of "w\<lparr>bo_pool := p\<rparr>" ps rs] by simp
  then show ?thesis using PoolMax
    by (auto simp: run_bo_op_def ane_t6021_bo_pool_max_mb_set_def Let_def split: sum.splits prod.splits)
next
  case (BoInit fd sz ts)
  then show ?thesis by (simp add: run_bo_op_def Let_def kept_bo_init)
next
  case (VmClose k)
  have "kept w (kref_put ps q i (w\<lparr>vmas := vs\<rparr>))" for ps q i vs
    using kept_put(1) [of "w\<lparr>vmas := vs\<rparr>"] by simp
  then show ?thesis using VmClose by (auto simp: run_bo_op_def Let_def ane_t6021_vm_close_def)
qed (auto simp: run_bo_op_def Let_def ane_t6021_bo_free_ioctl_def ane_t6021_vm_open_def ane_t6021_open_def
    kept_drop kept_put split: option.splits)

lemma binv_op:
  assumes "binv (page_shift E) (bo_cap E) X Z w"
  shows "binv (page_shift E) (bo_cap E) X Z (run_bo_op E s op w)"
  using assms
  by (cases op) (simp_all add: run_bo_op_def Let_def bo_init_inv bo_free_inv mmap_inv vm_open_inv vm_close_inv
      open_inv close_bos_inv pool_max_inv)


section \<open>The invariant of the file operations\<close>

definition sec_refs :: "nat option list \<Rightarrow> nat multiset" where
  "sec_refs sl = mset (List.map_filter (\<lambda>x. x) sl)"

definition prog_refs_of :: "prog \<Rightarrow> nat multiset" where
  "prog_refs_of p = (if pstate p = PROG_FREE then {#} else sec_refs (sec p))"

definition tab_refs :: "progtab \<Rightarrow> nat multiset" where
  "tab_refs t = sum_list (map prog_refs_of (progs t))"

text \<open>The buffers are consistent, the references \<open>T\<close> are among those that programs hold, and the
  buffers of \<open>P\<close> were passed to the firmware; the program table and the references of the files
  are \<open>R\<close>.\<close>

definition guarded_bufs ::
  "'e m2_env_scheme \<Rightarrow> nat multiset \<Rightarrow> nat set \<Rightarrow> progtab \<times> (nat \<Rightarrow> fdprogs) \<Rightarrow> 'm m2_scheme \<Rightarrow> bool" where
  "guarded_bufs E T P R s \<longleftrightarrow> binv (page_shift E) (bo_cap E) {#} {} (bw s) \<and> T \<subseteq># mset (prog_held (bw s)) \<and>
     P \<subseteq> io_pub (bw s) \<and> (ptab s, fprogs s) = R"

lemma guarded_bufs_bw: "bw s' = bw s \<Longrightarrow> ptab s' = ptab s \<Longrightarrow> fprogs s' = fprogs s \<Longrightarrow> guarded_bufs E T P R s \<Longrightarrow> guarded_bufs E T P R s'"
  by (simp add: guarded_bufs_def)

lemma guarded_bufs_op:
  assumes "guarded_bufs E T P R s" shows "guarded_bufs E T P R (s\<lparr>bw := fold (run_bo_op E s0) ops (bw s)\<rparr>)"
proof -
  have "binv (page_shift E) (bo_cap E) {#} {} (fold (run_bo_op E s0) ops w) \<and> kept w (fold (run_bo_op E s0) ops w)"
    if "binv (page_shift E) (bo_cap E) {#} {} w" for w
    using that by (induction ops arbitrary: w) (auto intro: kept_trans [OF kept_op] binv_op)
  then show ?thesis using assms by (auto simp: guarded_bufs_def kept_def)
qed

lemma gb_machine [keep]:
  "keeps (guarded_bufs E T P R) (emit e)" "keeps (guarded_bufs E T P R) (wrl l v)" "keeps (guarded_bufs E T P R) (rdl E' l)"
  by (auto simp: keeps_def wp guarded_bufs_def)

lemma gb_modify [keep]: "(\<And>s. bw (f s) = bw s \<and> ptab (f s) = ptab s \<and> fprogs (f s) = fprogs s) \<Longrightarrow> keeps (guarded_bufs E T P R) (modify f)"
  by (auto simp: keeps_def wp guarded_bufs_def)

lemma gb_lock [keep]: "keeps (guarded_bufs E T P R) (bo_lock E)"
  unfolding keeps_def bo_lock_def
  by (auto simp: wp intro: guarded_bufs_bw [OF _ _ _ guarded_bufs_op])

lemma gb_clear [keep]: "keeps (guarded_bufs E T P R) cmd_clear"
  unfolding cmd_clear_def by (intro keep)

lemma over_command_bw: "over_command s s' \<Longrightarrow> bw (s' :: 'm m2_scheme) = bw s \<and> ptab s' = ptab s \<and> fprogs s' = fprogs s"
  by (cases s; cases s') (auto simp: over_command_def)

lemma gb_command: "keeps (guarded_bufs E T P R) (ane_rtclient_command E c len opcode ch)"
  unfolding keeps_def
proof (intro allI impI)
  fix s :: "'a m2_scheme"
  assume "guarded_bufs E T P R s"
  then show "wp (ane_rtclient_command E c len opcode ch) (\<lambda>_. guarded_bufs E T P R) s"
    by (intro wp_mono [OF command_outcome]) (auto simp: outcome_def dest: over_command_bw intro: guarded_bufs_bw)
qed

lemma gb_m2_command [keep]: "keeps (guarded_bufs E T P R) (m2_command E c len opcode)"
  unfolding m2_command_def by (intro keep gb_command)

lemma gb_settle [keep]: "keeps (guarded_bufs E T P R) (ane_rtclient_malloc_settle E)"
proof (rule keeps_framedI [OF framed_settle])
  fix s s' :: "'a m2_scheme" assume "guarded_bufs E T P R s" "framed s s'"
  then show "guarded_bufs E T P R s'"
    by (cases s; cases s') (auto simp: framed_def guarded_bufs_def)
qed

lemma gb_unload_step [keep]: "keeps (guarded_bufs E T P R) (unload_step E c len opcode)"
  unfolding unload_step_def by (intro keep) simp_all

lemma gb_unload [keep]: "keeps (guarded_bufs E T P R) (ane_t6021_prog_unload_op E p)"
  unfolding ane_t6021_prog_unload_op_def by (intro keep)

lemma gb_hash [keep]: "keeps (guarded_bufs E T P R) (hash_loop E fd as acc)"
  by (induction as arbitrary: acc) (auto intro!: keep)

text \<open>The two kinds of marks.\<close>

lemma gb_mark_io:
  assumes "guarded_bufs E T P R s"
  shows "guarded_bufs E T P R (s\<lparr>bw := snd (mark_io fd h sz (bw s))\<rparr>)"
  using assms by (auto simp: guarded_bufs_def mark_io_inv) (auto simp: mark_io_def split: option.splits)

lemma gb_mark_section:
  assumes "guarded_bufs E T P R s" "mark_section fd h off sz (bw s) = (Some (i, iova), w)"
  shows "guarded_bufs E (add_mset i T) P R (s\<lparr>bw := w\<rparr>)"
proof -
  have "binv (page_shift E) (bo_cap E) {#} {} w"
    using mark_section_inv [of "page_shift E" "bo_cap E" "{#}" "{}" "bw s" fd h off sz] assms
    by (simp add: guarded_bufs_def)
  moreover have "prog_held w = i # prog_held (bw s)" "io_pub w = io_pub (bw s)"
    using assms(2) by (auto simp: mark_section_def kref_get_def Let_def split: option.splits if_splits)
  ultimately show ?thesis using assms(1) by (simp add: guarded_bufs_def)
qed

lemma gb_set:
  fixes s s' :: "'m m2_scheme"
  assumes "guarded_bufs E T P R (s\<lparr>bw := w\<rparr>)" "(ptab s', fprogs s') = R"
  shows "wp (modify (\<lambda>s. s\<lparr>bw := w\<rparr>)) (\<lambda>_. guarded_bufs E T P R) s'"
  using assms by (simp add: wp guarded_bufs_def)

lemma gb_ios [keep]: "keeps (guarded_bufs E T P R) (io_loop E fd k as)"
proof (induction as arbitrary: k)
  case (Cons a as)
  show ?case
    unfolding io_loop.simps
  proof (rule keeps_bind [OF gb_lock], rule keeps_get_bind)
    fix s :: "'a m2_scheme"
    assume s: "guarded_bufs E T P R s"
    obtain r w where m: "mark_io fd (io_handle a) (io_size a) (bw s) = (r, w)" by fastforce
    have g: "guarded_bufs E T P R (s\<lparr>bw := w\<rparr>)" using gb_mark_io [OF s, of fd "io_handle a" "io_size a"] by (simp add: m)
    have k: "keeps (guarded_bufs E T P R) (modify (\<lambda>s. s\<lparr>bw := w\<rparr>) :: ('a m2_scheme, unit) state)"
      using gb_set [OF g] by (simp add: keeps_def guarded_bufs_def [of E T P R])
    show "keeps (guarded_bufs E T P R :: 'a m2_scheme \<Rightarrow> bool) (case mark_io fd (io_handle a) (io_size a) (bw s) of
         (None, w) \<Rightarrow> ret (Some EINVAL)
       | (Some iova, w) \<Rightarrow> do {
           modify (\<lambda>s. s\<lparr>bw := w\<rparr>);
           wrl (Cmd (0x60 + k * 0x30 + 0x00)) 1;
           wrl (Cmd (0x60 + k * 0x30 + 0x04)) (ucast (io_buffer_id a));
           wrl (Cmd (0x60 + k * 0x30 + 0x08)) (ucast (io_type a));
           wrl (Cmd (0x60 + k * 0x30 + 0x18)) iova;
           wrl (Cmd (0x60 + k * 0x30 + 0x20)) (io_size a);
           io_loop E fd (Suc k) as })"
    proof (cases r)
      case None
      then show ?thesis by (simp add: m keep)
    next
      case (Some iova)
      show ?thesis unfolding m Some prod.case option.case by (rule keeps_bind [OF k]) (intro keep Cons.IH)
    qed
  qed
qed (simp add: keep)

lemma sec_refs_put: "k < length sl \<Longrightarrow> sec_refs (sl[k := Some i]) \<subseteq># add_mset i (sec_refs sl)"
proof (induction sl arbitrary: k)
  case (Cons x sl)
  show ?case
  proof (cases k)
    case 0
    then show ?thesis by (cases x) (simp_all add: sec_refs_def map_filter_simps)
  next
    case (Suc j)
    have "sec_refs (sl[j := Some i]) \<subseteq># add_mset i (sec_refs sl)" using Cons Suc by simp
    then show ?thesis using Suc by (cases x) (simp_all add: sec_refs_def map_filter_simps)
  qed
qed simp

lemma sec_refs_None [simp]: "sec_refs (replicate n None) = {#}"
  by (induction n) (simp_all add: sec_refs_def map_filter_simps)

lemma gb_mono: "guarded_bufs E T P R s \<Longrightarrow> T' \<subseteq># T \<Longrightarrow> guarded_bufs E T' P R s"
  by (auto simp: guarded_bufs_def)

lemma put_at_refs: "sec_refs (sl[k := Some i]) \<subseteq># add_mset i (sec_refs sl)"
  using sec_refs_put [of k sl i] by (cases "k < length sl") (simp_all add: list_update_beyond not_less)

lemma mark_loop_wp:
  fixes s :: "'m m2_scheme"
  assumes "guarded_bufs E (T + sec_refs sl) P R s"
  shows "wp (mark_loop E fd as sl) (\<lambda>r s'. guarded_bufs E (case r of Inl _ \<Rightarrow> T | Inr sl' \<Rightarrow> T + sec_refs sl') P R s') s"
  using assms
proof (induction as arbitrary: sl s)
  case Nil
  then show ?case by (simp add: wp)
next
  case (Cons a as)
  show ?case unfolding mark_loop.simps wp_bind
  proof (rule wp_mono [OF keepsD [OF gb_lock Cons.prems]])
    fix u and s :: "'m m2_scheme"
    assume s: "guarded_bufs E (T + sec_refs sl) P R s"
    obtain r w where m: "mark_section fd (s_handle a) (s_offset a) (s_size a) (bw s) = (r, w)" by fastforce
    let ?Q = "\<lambda>r s'. guarded_bufs E (case r of Inl _ \<Rightarrow> T | Inr sl' \<Rightarrow> T + sec_refs sl') P R s'"
    have step: "wp (mark_loop E fd as (sl[k := Some i])) ?Q s'"
      if "r = Some (i, iova)" "bw s' = w" "ptab s' = ptab s" "fprogs s' = fprogs s" for i iova k and s' :: "'m m2_scheme"
    proof (rule Cons.IH)
      have "guarded_bufs E (add_mset i (T + sec_refs sl)) P R (s\<lparr>bw := w\<rparr>)"
        by (rule gb_mark_section [OF s m [unfolded that(1)]])
      then have "guarded_bufs E (T + sec_refs (sl[k := Some i])) P R (s\<lparr>bw := w\<rparr>)"
        by (rule gb_mono) (use put_at_refs in \<open>auto intro: mset_subset_eq_mono_add_left_cancel simp flip: union_mset_add_mset_right\<close>)
      then show "guarded_bufs E (T + sec_refs (sl[k := Some i])) P R s'"
        by (rule guarded_bufs_bw [rotated 3]) (simp_all add: that)
    qed
    show "wp get_st (\<lambda>t. wp (case mark_section fd (s_handle a) (s_offset a) (s_size a) (bw t) of
         (None, w) \<Rightarrow> ret (Inl EINVAL)
       | (Some (i, iova), w) \<Rightarrow> do {
           modify (\<lambda>s. s\<lparr>bw := w\<rparr>);
           wrl (Cmd (slot_base (s_id a) + 0x00)) 1;
           wrl (Cmd (slot_base (s_id a) + 0x04)) (ucast (s_id a));
           wrl (Cmd (slot_base (s_id a) + 0x18)) iova;
           wrl (Cmd (slot_base (s_id a) + 0x20)) (s_size a);
           mark_loop E fd as (sl[unat (s_id a) - 1 := Some i]) }) ?Q) s"
      using s step by (auto simp: wp m gb_mono split: option.splits prod.splits)
  qed
qed


section \<open>Closing a file\<close>

lemma sum_list_put:
  fixes f :: "'a \<Rightarrow> nat multiset"
  shows "i < length xs \<Longrightarrow> sum_list (map f (xs[i := y])) + f (xs ! i) = sum_list (map f xs) + f y"
  by (induction xs arbitrary: i) (auto split: nat.splits simp: ac_simps)

lemma tab_refs_put:
  "i < length (progs t) \<Longrightarrow> tab_refs (put_prog t i p) + prog_refs_of (progs t ! i) = tab_refs t + prog_refs_of p"
  by (simp add: tab_refs_def put_prog_def sum_list_put)

lemma tab_refs_same:
  "i < length (progs t) \<Longrightarrow> prog_refs_of p = prog_refs_of (progs t ! i) \<Longrightarrow> tab_refs (put_prog t i p) = tab_refs t"
  using tab_refs_put [of i t p] by simp

text \<open>What the table asks of its callbacks: an unload keeps every section reference, a release gives
  back those of the program it is called for.\<close>

locale unload_contract =
  fixes J :: "nat multiset \<Rightarrow> 'c \<Rightarrow> bool" and ops :: "'c progtab_ops"
  assumes unload_keeps: "J T c \<Longrightarrow> J T (snd (unload ops c p))"
    and release_gives: "J (T + sec_refs (sec p)) c \<Longrightarrow> J T (release ops c p)"
begin

lemma close_loop:
  assumes "fd_close_loop uoc ops t ids c h = (t', c', h')" "J (tab_refs t) c" "progtab_wf t"
  shows "J (tab_refs t') c' \<and> progtab_wf t'"
  using assms
proof (induction ids arbitrary: t c h uoc)
  case (Cons pid ids)
  show ?case
  proof (cases "ane_t6021_progtab_by_id t pid")
    case None
    then show ?thesis using Cons by simp
  next
    case (Some i)
    note L = by_id_SomeD [OF Some Cons.prems(3)]
    have lt: "i < hi t" "i < length (progs t)" "pstate (progs t ! i) = PROG_LIVE"
      using L Cons.prems(3) by (auto simp: live_def progtab_wf_def)
    define p where "p = (progs t ! i)\<lparr>users := users (progs t ! i) - 1\<rparr>"
    have wf: "progtab_wf (put_prog t i p)" for p by (rule progtab_wf_put [OF Cons.prems(3) lt(1)])
    have r: "tab_refs (put_prog t i p) = tab_refs t" "tab_refs (put_prog t i (p\<lparr>pstate := PROG_HELD\<rparr>)) = tab_refs t"
      using lt(3) by (auto intro!: tab_refs_same [OF lt(2)] simp: prog_refs_of_def p_def)
    have z: "tab_refs t = tab_refs (put_prog t i zero_prog) + sec_refs (sec p)"
      using tab_refs_put [OF lt(2), of zero_prog] lt(3) by (simp add: prog_refs_of_def zero_prog_def p_def)
    obtain res c1 where u: "unload ops c p = (res, c1)" by fastforce
    have c1: "J (tab_refs t) c1" using unload_keeps [OF Cons.prems(2), of p] by (simp add: u)
    have c2: "J (tab_refs (put_prog t i zero_prog)) (release ops c1 p)" using c1 unfolding z by (rule release_gives)
    have e: "fd_close_loop uoc ops t (pid # ids) c h =
        (if users (progs t ! i) = 0 then fd_close_loop uoc ops t ids c h
         else if users p \<noteq> 0 \<or> \<not> uoc then fd_close_loop uoc ops (put_prog t i p) ids c h
         else case res of Some e \<Rightarrow> fd_close_loop uoc ops (put_prog t i (p\<lparr>pstate := PROG_HELD\<rparr>)) ids c1 (h + 1)
              | None \<Rightarrow> fd_close_loop uoc ops (put_prog t i zero_prog) ids (release ops c1 p) h)"
      by (simp add: Some Let_def u flip: p_def split: option.splits)
    from Cons.prems(1) show ?thesis unfolding e
      by (auto split: if_splits option.splits elim!: Cons.IH simp: r wf Cons.prems(2,3) c1 c2)
  qed
qed simp

end

lemma put_held: "prog_held (kref_put ps q i w) = prog_held w" "io_pub (kref_put ps q i w) = io_pub w"
  using put_same [of w ps q i] by (auto simp: lists_same_def)

lemma section_held:
  assumes "guarded_bufs E (add_mset i T) P R s"
  shows "guarded_bufs E T P R (s\<lparr>bw := section_release (page_shift E) q (Some i) (bw s)\<rparr>)"
proof -
  let ?w = "section_release (page_shift E) q (Some i) (bw s)"
  have h: "i \<in> set (prog_held (bw s))"
    using assms by (auto simp: guarded_bufs_def dest: mset_subset_eqD)
  have "binv (page_shift E) (bo_cap E) {#} {} ?w"
    using section_release_inv [OF _ h] assms by (simp add: guarded_bufs_def)
  moreover have "prog_held ?w = remove1 i (prog_held (bw s)) \<and> io_pub ?w = io_pub (bw s)"
    unfolding section_release_def Let_def option.case
    by (simp add: put_held)
  ultimately show ?thesis
    using assms by (auto simp: guarded_bufs_def insert_subset_eq_iff)
qed

lemma sections_held:
  assumes "guarded_bufs E (T + sec_refs sl) P R s"
  shows "guarded_bufs E T P R (s\<lparr>bw := fold (section_release (page_shift E) q) sl (bw s)\<rparr>)"
  using assms
proof (induction sl arbitrary: s)
  case Nil
  then show ?case by (simp add: sec_refs_def map_filter_simps)
next
  case (Cons x sl)
  have "guarded_bufs E (T + sec_refs sl) P R (s\<lparr>bw := section_release (page_shift E) q x (bw s)\<rparr>)"
  proof (cases x)
    case None
    then show ?thesis using Cons.prems by (simp add: section_release_def sec_refs_def map_filter_simps)
  next
    case (Some i)
    then show ?thesis using Cons.prems section_held [of E i "T + sec_refs sl"]
      by (simp add: sec_refs_def map_filter_simps)
  qed
  from Cons.IH [OF this] show ?case by simp
qed

lemma prog_release_wp:
  assumes "guarded_bufs E (T + sec_refs (sec p)) P R s"
  shows "wp (prog_release E p) (\<lambda>_. guarded_bufs E T P R) s"
  unfolding prog_release_def wp_bind
  by (rule wp_mono [OF keepsD [OF gb_lock assms]])
    (auto simp: wp ane_t6021_prog_release_op_def intro: sections_held)

interpretation m2_close: unload_contract "\<lambda>T. guarded_bufs E T P R" "m2_progtab_ops E" for E P R
proof
  fix T and c :: "'b m2_scheme" and p
  show "guarded_bufs E T P R c \<Longrightarrow> guarded_bufs E T P R (snd (unload (m2_progtab_ops E) c p))"
    using keepsD [OF gb_unload, of E T P R c p] by (auto simp: m2_progtab_ops_def wp_def split: prod.splits)
  show "guarded_bufs E (T + sec_refs (sec p)) P R c \<Longrightarrow> guarded_bufs E T P R (release (m2_progtab_ops E) c p)"
    using prog_release_wp [of E T p P R c] by (auto simp: m2_progtab_ops_def wp_def split: prod.splits)
qed

section \<open>Every operation\<close>

definition m2_inv :: "'e m2_env_scheme \<Rightarrow> nat set \<Rightarrow> 'm m2_scheme \<Rightarrow> bool" where
  "m2_inv E P s \<longleftrightarrow> guarded_bufs E (tab_refs (ptab s)) P (ptab s, fprogs s) s \<and> progtab_wf (ptab s)"

lemma m2_inv_gb:
  assumes "guarded_bufs E (tab_refs t) P (t, f) s" "progtab_wf t" shows "m2_inv E P s"
  using assms by (simp add: m2_inv_def guarded_bufs_def)

lemma keeps_m2:
  assumes "\<And>T R. keeps (guarded_bufs E T P R) m"
  shows "keeps (m2_inv E P) m"
  unfolding keeps_def
proof (intro allI impI)
  fix s :: "'a m2_scheme" assume "m2_inv E P s"
  then show "wp m (\<lambda>_. m2_inv E P) s"
    unfolding m2_inv_def by (elim conjE, intro wp_mono [OF keepsD [OF assms]]) (auto simp: guarded_bufs_def)
qed

lemma close_inv: "keeps (m2_inv E P) (ane_t6021_postclose E fd)"
  unfolding keeps_def
proof (intro allI impI)
  fix s :: "'a m2_scheme"
  assume I: "m2_inv E P s"
  obtain n t f s' where c: "ane_t6021_progtab_fd_close (ptab s) (fprogs s fd) (unload_on_close s) (m2_progtab_ops E) s = (n, t, f, s')"
    by (metis prod_cases4)
  obtain n' where l: "fd_close_loop (unload_on_close s) (m2_progtab_ops E) (ptab s) (fprogs s fd) s 0 = (t, s', n')"
    using c by (auto simp: ane_t6021_progtab_fd_close_def split: prod.splits)
  have J: "guarded_bufs E (tab_refs t) P (ptab s, fprogs s) s' \<and> progtab_wf t"
    using m2_close.close_loop [OF l] I by (auto simp: m2_inv_def)
  let ?s = "s'\<lparr>ptab := t, fprogs := (fprogs s')(fd := f)\<rparr>"
  have "m2_inv E P ?s" using J by (auto simp: m2_inv_def guarded_bufs_def)
  then have "wp (bo_lock E) (\<lambda>_. m2_inv E P) ?s" by (rule keepsD [OF keeps_m2 [OF gb_lock]])
  then have "wp (bo_lock E) (\<lambda>_ u. m2_inv E P (u\<lparr>bw := close_bos (page_shift E) (quarantined u) fd (bw u)\<rparr>)) ?s"
  proof (rule wp_mono)
    fix u :: "'a m2_scheme" assume "m2_inv E P u"
    then have "guarded_bufs E (tab_refs (ptab u)) P (ptab u, fprogs u) (u\<lparr>bw := fold (run_bo_op E u) [FileBos fd] (bw u)\<rparr>)"
      "progtab_wf (ptab u)"
      unfolding m2_inv_def by (auto intro!: guarded_bufs_op simp del: fold.simps)
    then show "m2_inv E P (u\<lparr>bw := close_bos (page_shift E) (quarantined u) fd (bw u)\<rparr>)"
      by (simp add: m2_inv_def run_bo_op_def Let_def)
  qed
  then show "wp (ane_t6021_postclose E fd) (\<lambda>_. m2_inv E P) s"
    using I c by (simp add: ane_t6021_postclose_def wp State_Monad.set_def wp_def [of "State _"])
qed


lemma users_refs: "prog_refs_of (p\<lparr>users := u\<rparr>) = prog_refs_of p" "prog_refs_of (p\<lparr>proc_id := v\<rparr>) = prog_refs_of p"
  by (simp_all add: prog_refs_of_def)

lemma file_ref_wp:
  assumes I: "m2_inv E P s" and i: "i < hi (ptab s)"
  shows "wp (file_ref fd i) (\<lambda>_. m2_inv E P) s"
proof -
  obtain ok f t where r: "ane_t6021_fdprogs_ref (fprogs s fd) (ptab s) i = (ok, f, t)" by (metis prod_cases3)
  have wf: "progtab_wf (ptab s)" using I by (simp add: m2_inv_def)
  then have lt: "i < length (progs (ptab s))" using i by (simp add: progtab_wf_def)
  have "tab_refs t = tab_refs (ptab s) \<and> progtab_wf t"
    using r wf lt i by (auto simp: ane_t6021_fdprogs_ref_def Let_def users_refs progtab_wf_put
        intro: tab_refs_same split: if_splits)
  then show ?thesis using I by (simp add: file_ref_def wp r m2_inv_def guarded_bufs_def)
qed

lemma register_wp:
  assumes I: "guarded_bufs E (tab_refs (ptab s) + sec_refs sl) P (ptab s, fprogs s) s" and wf: "progtab_wf (ptab s)"
  shows "wp (load_register fd d pid sl) (\<lambda>_. m2_inv E P) s"
proof (cases "ane_t6021_progtab_add (ptab s) d pid")
  case None
  have "m2_inv E P s" using I wf gb_mono by (fastforce simp: m2_inv_def)
  then show ?thesis by (simp add: load_register_def wp None)
next
  case (Some x)
  obtain i t where x: "x = (i, t)" by fastforce
  note A = add_SomeD [OF Some [unfolded x] wf]
  have lt: "i < length (progs (ptab s))" "i < length (progs t)"
    using A(1,2) arg_cong [OF A(4), of length] by (auto simp: progtab_wf_def)
  let ?p = "(progs t ! i)\<lparr>sec := sl\<rparr>" and ?t = "put_prog t i ((progs t ! i)\<lparr>sec := sl\<rparr>)"
  have "tab_refs t + prog_refs_of (progs (ptab s) ! i) = tab_refs (ptab s) + prog_refs_of (progs t ! i)"
    using tab_refs_put [OF lt(1), of "progs t ! i"] arg_cong [OF A(4), of "\<lambda>x. sum_list (map prog_refs_of x)"]
    by (simp add: tab_refs_def put_prog_def)
  moreover have "prog_refs_of (progs (ptab s) ! i) = {#}" "prog_refs_of (progs t ! i) = {#}" "prog_refs_of ?p = sec_refs sl"
    using A(3,5) by (simp_all add: prog_refs_of_def zero_prog_def)
  ultimately have "tab_refs ?t = tab_refs (ptab s) + sec_refs sl" using tab_refs_put [OF lt(2), of ?p] by simp
  then have J: "m2_inv E P (s\<lparr>ptab := ?t\<rparr>)"
    using I progtab_wf_put [OF A(1,2)] by (simp add: m2_inv_def guarded_bufs_def)
  have "wp (file_ref fd i) (\<lambda>ok s'. m2_inv E P s') (s\<lparr>ptab := ?t\<rparr>)"
    by (rule file_ref_wp [OF J]) (use A(2) in \<open>simp add: put_prog_def\<close>)
  then show ?thesis by (simp add: load_register_def wp Some x)
qed

lemma m2_keeps [keep]:
  "keeps (m2_inv E P) (emit e)" "keeps (m2_inv E P) (wrl l v)" "keeps (m2_inv E P) (rdl E' l)" "keeps (m2_inv E P) cmd_clear"
  "keeps (m2_inv E P) (bo_lock E)" "keeps (m2_inv E P) (m2_command E c len opcode)" "keeps (m2_inv E P) (io_loop E fd k xs)"
  "keeps (m2_inv E P) (hash_loop E fd as acc)"
  by (rule keeps_m2, intro keep)+

lemma load_send_wp:
  assumes I: "guarded_bufs E (tab_refs t + sec_refs sl) P (t, f) s" and wf: "progtab_wf t"
  shows "wp (load_send E fd c d sl) (\<lambda>_. m2_inv E P) (s :: 'm m2_scheme)"
proof -
  let ?I = "guarded_bufs E (tab_refs t + sec_refs sl) P (t, f)"
  have k: "keeps ?I (do { wrl (Cmd 0x1b8) 0xffffffff; m2_command E c 0x1c0 CSNE_CMD_LOAD_PROGRAM } :: ('m m2_scheme, errno option) state)"
    by (intro keep)
  have send: "load_send E fd c d sl = do {
      r \<leftarrow> (do { wrl (Cmd 0x1b8) 0xffffffff; m2_command E c 0x1c0 CSNE_CMD_LOAD_PROGRAM });
      case r of
       Some e \<Rightarrow> ret (Inl e)
     | None \<Rightarrow> do {
         v \<leftarrow> rdl E (Cmd 0x1b8);
         if (ucast v :: u32) = 0xffffffff then ret (Inl EPROTO)
         else load_register fd d (ucast v) sl } }"
    by (simp add: load_send_def)
  show ?thesis unfolding send wp_bind [of "do { _ \<leftarrow> _; _ }"]
  proof (rule wp_mono [OF keepsD [OF k I]])
    fix r :: "errno option" and u :: "'m m2_scheme"
    assume u: "?I u"
    have m: "m2_inv E P u" using u wf gb_mono [OF u, of "tab_refs t"] by (auto intro: m2_inv_gb)
    have u': "guarded_bufs E (tab_refs (ptab v) + sec_refs sl) P (ptab v, fprogs v) v" "progtab_wf (ptab v)"
      if "bw v = bw u" "ptab v = ptab u" "fprogs v = fprogs u" for v :: "'m m2_scheme"
      using u wf that by (auto simp: guarded_bufs_def)
    show "wp (case r of
       Some e \<Rightarrow> ret (Inl e)
     | None \<Rightarrow> do {
         v \<leftarrow> rdl E (Cmd 0x1b8);
         if (ucast v :: u32) = 0xffffffff then ret (Inl EPROTO)
         else load_register fd d (ucast v) sl }) (\<lambda>_. m2_inv E P) u"
    proof (cases r)
      case None
      have "m2_inv E P (u\<lparr>trace := tr\<rparr>)" for tr using m by (simp add: m2_inv_def guarded_bufs_def)
      then show ?thesis using None by (auto simp: wp intro!: register_wp u')
    qed (simp add: wp m)
  qed
qed


lemma load_new_inv [keep]: "keeps (m2_inv E P) (load_new_program E fd as d)"
proof -
  have mark: "keeps (m2_inv E P) (State_Monad.bind (mark_loop E fd as (replicate ANE_T6021_PROG_SECS None))
      (\<lambda>m. case m of Inl e \<Rightarrow> ret (Inl e) | Inr sl \<Rightarrow> load_send E fd c d sl) :: ('m m2_scheme, errno + u32) state)" for c
    unfolding keeps_def wp_bind
  proof (intro allI impI)
    fix s :: "'m m2_scheme" assume I: "m2_inv E P s"
    then have "guarded_bufs E (tab_refs (ptab s) + sec_refs (replicate ANE_T6021_PROG_SECS None)) P (ptab s, fprogs s) s"
      by (simp add: m2_inv_def)
    from mark_loop_wp [OF this]
    show "wp (mark_loop E fd as (replicate ANE_T6021_PROG_SECS None)) (\<lambda>m. wp (case m of Inl e \<Rightarrow> ret (Inl e) | Inr sl \<Rightarrow> load_send E fd c d sl) (\<lambda>_. m2_inv E P)) s"
    proof (rule wp_mono)
      fix r :: "errno + nat option list" and u :: "'m m2_scheme"
      assume u: "guarded_bufs E (case r of Inl _ \<Rightarrow> tab_refs (ptab s) | Inr sl' \<Rightarrow> tab_refs (ptab s) + sec_refs sl') P (ptab s, fprogs s) u"
      have wf: "progtab_wf (ptab s)" using I by (simp add: m2_inv_def)
      show "wp (case r of Inl e \<Rightarrow> ret (Inl e) | Inr sl \<Rightarrow> load_send E fd c d sl) (\<lambda>_. m2_inv E P) u"
        using u wf by (cases r) (auto simp: wp intro: m2_inv_gb load_send_wp)
    qed
  qed
  show ?thesis unfolding load_new_program_def by (intro keep mark)
qed

lemma file_ref_find:
  assumes "m2_inv E P s" "ane_t6021_progtab_find (ptab s) d = Some i"
  shows "wp (file_ref fd i) (\<lambda>_. m2_inv E P) s"
  using file_ref_wp [OF assms(1)] find_SomeD(1) [OF assms(2)] assms(1) by (simp add: m2_inv_def live_def)

lemma load_digest_inv [keep]: "keeps (m2_inv E P) (load_digest E fd as d)"
  unfolding load_digest_def keeps_def
proof (intro allI impI)
  fix s :: "'m m2_scheme" assume I: "m2_inv E P s"
  show "wp (do { s \<leftarrow> get_st;
     case ane_t6021_progtab_find (ptab s) d of
       Some i \<Rightarrow> do {
         ok \<leftarrow> file_ref fd i;
         ret (if ok then Inr (prog_id (progs (ptab s) ! i)) else Inl ENOSPC) }
     | None \<Rightarrow>
         if \<not> ane_t6021_progtab_has_room (ptab s) then ret (Inl ENOSPC)
         else load_new_program E fd as d }) (\<lambda>_. m2_inv E P) s"
    using I file_ref_find [OF I] keepsD [OF load_new_inv I] by (auto simp: wp split: option.splits)
qed

lemma load_ioctl_inv: "keeps (m2_inv E P) (ane_t6021_prog_load_ioctl E fd u)"
  unfolding ane_t6021_prog_load_ioctl_def ane_rtclient_load_program_def by (intro keep)

lemma lookup_inv: "keeps (m2_inv E P) (ane_t6021_prog_lookup_ioctl fd len pad d)"
  unfolding keeps_def ane_t6021_prog_lookup_ioctl_def
  using file_ref_find by (auto simp: wp split: option.splits)

lemma create_process_inv [keep]: "keeps (m2_inv E P) (ane_rtclient_create_process E pid)"
  unfolding keeps_def ane_rtclient_create_process_def
proof (intro allI impI)
  fix s :: "'m m2_scheme" assume I: "m2_inv E P s"
  let ?I = "guarded_bufs E (tab_refs (ptab s)) P (ptab s, fprogs s)"
  have wf: "progtab_wf (ptab s)" and g: "?I s" using I by (auto simp: m2_inv_def)
  have fin: "m2_inv E P u" if "?I u" for u :: "'m m2_scheme" using that wf by (rule m2_inv_gb)
  have put: "m2_inv E P (u\<lparr>ptab := put_prog (ptab u) i ((progs (ptab u) ! i)\<lparr>proc_id := v\<rparr>)\<rparr>)"
    if u: "?I u" and i: "ane_t6021_progtab_by_id (ptab s) pid = Some i" for u :: "'m m2_scheme" and i v
  proof -
    have "i < hi (ptab u)" "ptab u = ptab s" "i < length (progs (ptab s))"
      using by_id_SomeD(1) [OF i wf] u wf by (auto simp: guarded_bufs_def live_def progtab_wf_def)
    then show ?thesis using u wf
      by (auto simp: m2_inv_def guarded_bufs_def users_refs tab_refs_same progtab_wf_put)
  qed
  have send: "wp (create_send E pid i c) (\<lambda>_. m2_inv E P) s"
    if i: "ane_t6021_progtab_by_id (ptab s) pid = Some i" for c i
    unfolding create_send_def
  proof (intro keeps_wp_bind [where I = ?I] keep g)
    fix r and u :: "'m m2_scheme" assume u: "?I u"
    have tr: "?I (u\<lparr>trace := tr\<rparr>)" for tr using u by (simp add: guarded_bufs_def)
    have p: "m2_inv E P (u\<lparr>trace := tr, ptab := put_prog (ptab u) i ((progs (ptab u) ! i)\<lparr>proc_id := v\<rparr>)\<rparr>)" for tr v
      using put [OF tr i] by simp
    show "wp (case r of
         Some e \<Rightarrow> ret (Inl e)
       | None \<Rightarrow> do {
           v \<leftarrow> rdl E (Cmd 0x0c);
           if (ucast v :: u32) = 0xffffffff then ret (Inl EPROTO)
           else do {
             modify (\<lambda>s. s\<lparr>ptab := put_prog (ptab s) i ((progs (ptab s) ! i)\<lparr>proc_id := ucast v\<rparr>)\<rparr>);
             ret (Inr (ucast v)) } }) (\<lambda>_. m2_inv E P) u"
      using fin [OF u] fin [OF tr] p by (cases r) (simp_all add: wp)
  qed
  then show "wp (do { s \<leftarrow> get_st;
     case ane_t6021_progtab_by_id (ptab s) pid of
       None \<Rightarrow> ret (Inl ENOENT)
     | Some i \<Rightarrow>
         if proc_id (progs (ptab s) ! i) \<noteq> 0xffffffff then ret (Inr (proc_id (progs (ptab s) ! i)))
         else (case cmd_buf s of
             None \<Rightarrow> ret (Inl ENODEV)
           | Some c \<Rightarrow> create_send E pid i c) }) (\<lambda>_. m2_inv E P) s"
    using I by (auto simp: wp split: option.splits)
qed

lemma create_inv: "keeps (m2_inv E P) (ane_t6021_proc_create_ioctl E fd pid)"
  unfolding ane_t6021_proc_create_ioctl_def by (intro keep)

lemma exec_inv: "keeps (m2_inv E P) (ane_t6021_exec_ioctl E fd u)"
  unfolding ane_t6021_exec_ioctl_def ane_rtclient_procedure_call_def by (intro keep)

lemma control_inv: "keeps (m2_inv E P) (ane_t6021_perf_mode_set E val bound)" "keeps (m2_inv E P) (ane_t6021_dyn_pg_on E c)"
  "keeps (m2_inv E P) ane_t6021_submit_ioctl"
  unfolding ane_t6021_perf_mode_set_def ane_t6021_dyn_pg_on_def ane_t6021_submit_ioctl_def
  by (intro keep; simp add: m2_inv_def guarded_bufs_def)+


section \<open>Reachable states\<close>

definition bw_init :: "u32 \<Rightarrow> u32 \<Rightarrow> bw" where
  "bw_init mx mn = \<lparr>bos = (\<lambda>_. None), mem = (\<lambda>_. None), next_bo = 0, files = [], vmas = [],
     bo_pool = ane_t6021_pool_init mx mn, total = 0, next_handle = 1, prog_held = [], io_pub = {}\<rparr>"

text \<open>The driver after probe: no file open, no program loaded.\<close>

definition m2_start :: "'m m2_scheme \<Rightarrow> bool" where
  "m2_start s \<longleftrightarrow> (\<exists>mx mn. bw s = bw_init mx mn) \<and> ptab s = progtab_init \<and> fprogs s = (\<lambda>_. [])"

inductive m2_step :: "'e m2_env_scheme \<Rightarrow> 'm m2_scheme \<Rightarrow> 'm m2_scheme \<Rightarrow> bool" for E where
  bo_op: "m2_step E s (s\<lparr>bw := run_bo_op E s op (bw s)\<rparr>)"
| load: "run_state (ane_t6021_prog_load_ioctl E fd u) s = (r, s') \<Longrightarrow> m2_step E s s'"
| lookup: "run_state (ane_t6021_prog_lookup_ioctl fd len pad d) s = (r, s') \<Longrightarrow> m2_step E s s'"
| create: "run_state (ane_t6021_proc_create_ioctl E fd pid) s = (r, s') \<Longrightarrow> m2_step E s s'"
| exec: "run_state (ane_t6021_exec_ioctl E fd x) s = (r, s') \<Longrightarrow> m2_step E s s'"
| submit: "run_state ane_t6021_submit_ioctl s = (r, s') \<Longrightarrow> m2_step E s s'"
| close: "run_state (ane_t6021_postclose E fd) s = (r, s') \<Longrightarrow> m2_step E s s'"
| perf_mode: "run_state (ane_t6021_perf_mode_set E val bound) s = (r, s') \<Longrightarrow> m2_step E s s'"
| unload_param: "m2_step E s (s\<lparr>unload_on_close := b\<rparr>)"

inductive m2_steps :: "'e m2_env_scheme \<Rightarrow> 'm m2_scheme \<Rightarrow> 'm m2_scheme \<Rightarrow> bool" for E s where
  here: "m2_steps E s s"
| further: "m2_steps E s s' \<Longrightarrow> m2_step E s' s'' \<Longrightarrow> m2_steps E s s''"

lemma keeps_run: "keeps I m \<Longrightarrow> I s \<Longrightarrow> run_state m s = (r, s') \<Longrightarrow> I s'"
  by (auto simp: keeps_def wp_def)

lemma m2_step_inv: "m2_step E s s' \<Longrightarrow> m2_inv E P s \<Longrightarrow> m2_inv E P s'"
proof (induction rule: m2_step.induct)
  case (bo_op s op)
  then have "guarded_bufs E (tab_refs (ptab s)) P (ptab s, fprogs s) (s\<lparr>bw := fold (run_bo_op E s) [op] (bw s)\<rparr>)"
    unfolding m2_inv_def by (intro guarded_bufs_op) simp
  then show ?case using bo_op by (simp add: m2_inv_def)
next
  case (unload_param s b)
  then show ?case by (simp add: m2_inv_def guarded_bufs_def)
qed (auto intro: keeps_run [OF load_ioctl_inv] keeps_run [OF lookup_inv] keeps_run [OF create_inv] keeps_run [OF exec_inv]
    keeps_run [OF control_inv(3)] keeps_run [OF close_inv] keeps_run [OF control_inv(1)])

lemma m2_steps_inv: "m2_steps E s s' \<Longrightarrow> m2_inv E P s \<Longrightarrow> m2_inv E P s'"
  by (induction rule: m2_steps.induct) (auto intro: m2_step_inv)

lemma m2_steps_trans: "m2_steps E s' s'' \<Longrightarrow> m2_steps E s s' \<Longrightarrow> m2_steps E s s''"
  by (induction rule: m2_steps.induct) (auto intro: m2_steps.intros)

lemma binv_init: "0 \<le> cap \<Longrightarrow> binv ps cap {#} {} (bw_init mx mn)"
  by (simp add: binv_def cell_at_def cell_def bw_init_def nrefs_def refs_def nprog_def parks_def
      ane_t6021_pool_init_def accounted_def)

lemma m2_start_inv: "m2_start s \<Longrightarrow> m2_inv E {} s"
proof -
  assume "m2_start s"
  moreover have "tab_refs progtab_init = {#}"
  proof -
    have "sum_list (replicate n ({#} :: nat multiset)) = {#}" for n by (induction n) simp_all
    then show ?thesis by (simp add: tab_refs_def progtab_init_def prog_refs_of_def zero_prog_def)
  qed
  moreover have "0 \<le> bo_cap E" by (simp add: bo_cap_def)
  ultimately show ?thesis
    using binv_init by (auto simp: m2_start_def m2_inv_def guarded_bufs_def progtab_wf_init)
qed

lemma m2_inv_pub: "m2_inv E P s \<Longrightarrow> m2_inv E (io_pub (bw s)) s"
  by (simp add: m2_inv_def guarded_bufs_def)

text \<open>What the invariant says of one buffer.\<close>

lemma binv_mem: "binv ps cap X Z w \<Longrightarrow> bos w i \<noteq> None \<Longrightarrow> mem w i \<noteq> None"
  using binvD(1) [of ps cap X Z w i] by (auto simp: cell_at_def cell_def block_ok_def split: option.splits)

lemma binv_ref: "binv ps cap {#} {} w \<Longrightarrow> i \<in># refs w \<Longrightarrow> \<exists>b. bos w i = Some b \<and> refcount b = count (refs w) i \<and> mem w i \<noteq> None"
  using binv_held [OF _ nrefs_pos, of ps cap "{#}" "{}" w i] by (metis nrefs_def option.distinct(1) add.right_neutral)

lemma tab_member:
  assumes "p \<in> set (progs t)" "pstate p \<noteq> PROG_FREE" "Some i \<in> set (sec p)"
  shows "i \<in># tab_refs t"
proof -
  have "i \<in># sec_refs (sec p)" using assms(3) by (force simp: sec_refs_def List.map_filter_def)
  then have "i \<in># prog_refs_of p" using assms(2) by (simp add: prog_refs_of_def)
  moreover have "i \<in># sum_list (map prog_refs_of ps)" if "p \<in> set ps" "i \<in># prog_refs_of p" for ps
    using that by (induction ps) auto
  ultimately show ?thesis using assms(1) by (simp add: tab_refs_def)
qed

text \<open>C1: memory whose address the firmware was given is never freed behind its back: a buffer
  passed to the firmware by an execution keeps its memory in every later state, whatever clients
  do, and a section buffer keeps its memory and its structure as long as its program is in the
  table, loaded or held, and so does a section buffer of a load that failed.\<close>

theorem firmware_memory_stays:
  assumes "m2_start s0" "m2_steps E s0 s" "m2_steps E s s'"
  shows "(\<forall>i\<in>io_pub (bw s). mem (bw s') i \<noteq> None) \<and>
    (\<forall>i\<in>set (prog_held (bw s')). mem (bw s') i \<noteq> None \<and> bos (bw s') i \<noteq> None) \<and>
    (\<forall>p\<in>set (progs (ptab s')). pstate p \<noteq> PROG_FREE \<longrightarrow>
       (\<forall>i. Some i \<in> set (sec p) \<longrightarrow> i \<in> set (prog_held (bw s'))))"
proof -
  have "m2_inv E (io_pub (bw s)) s" by (rule m2_inv_pub [OF m2_steps_inv [OF assms(2) m2_start_inv [OF assms(1)]]])
  then have I: "m2_inv E (io_pub (bw s)) s'" by (rule m2_steps_inv [OF assms(3)])
  then have b: "binv (page_shift E) (bo_cap E) {#} {} (bw s')" and p: "io_pub (bw s) \<subseteq> io_pub (bw s')"
    and t: "tab_refs (ptab s') \<subseteq># mset (prog_held (bw s'))" by (auto simp: m2_inv_def guarded_bufs_def)
  have "mem (bw s') i \<noteq> None" if "i \<in> io_pub (bw s)" for i
    using binvD(1) [OF b, of i] p that by (auto simp: cell_at_def cell_def block_ok_def split: option.splits)
  moreover have "mem (bw s') i \<noteq> None \<and> bos (bw s') i \<noteq> None" if "i \<in> set (prog_held (bw s'))" for i
    using binv_ref [OF b, of i] that by (auto simp: refs_def)
  moreover have "i \<in> set (prog_held (bw s'))" if "p \<in> set (progs (ptab s'))" "pstate p \<noteq> PROG_FREE" "Some i \<in> set (sec p)" for p i
    using mset_subset_eqD [OF t tab_member [OF that]] by simp
  ultimately show ?thesis by blast
qed

text \<open>C11: in every reachable state the buffer world is consistent: each handle, each mapping and each
  parked entry names a live structure, its reference count is the number of handles, mappings and
  program sections that refer to it, an unreferenced structure is in the pool exactly once, and
  the byte counter is the sum of all allocated memory, page-aligned, and within the cap.\<close>

theorem bo_world_consistent:
  assumes "m2_start s0" "m2_steps E s0 s"
  shows "(\<forall>i. i \<in># refs (bw s) \<longrightarrow> (\<exists>b. bos (bw s) i = Some b \<and> refcount b = count (refs (bw s)) i)) \<and>
    (\<forall>i b. bos (bw s) i = Some b \<and> count (refs (bw s)) i = 0 \<longrightarrow> size (parks (bo_pool (bw s)) i) = 1) \<and>
    (\<forall>e\<in>set (pool_list (bo_pool (bw s))). \<exists>b. bos (bw s) (ent_addr e) = Some b \<and> refcount b = 0) \<and>
    total (bw s) = (\<Sum>i<next_bo (bw s). mem_bytes (page_shift E) (mem (bw s) i)) \<and> total (bw s) \<le> bo_cap E"
proof -
  have b: "binv (page_shift E) (bo_cap E) {#} {} (bw s)"
    using m2_steps_inv [OF assms(2) m2_start_inv [OF assms(1)]] by (simp add: m2_inv_def guarded_bufs_def)
  have c: "cell (page_shift E) i (bos (bw s) i) (mem (bw s) i) (count (refs (bw s)) i) (nprog (bw s) i)
      (parks (bo_pool (bw s)) i) False (i \<in> io_pub (bw s))" for i
    using binvD(1) [OF b, of i] by (simp add: cell_at_def nrefs_def)
  have "size (parks (bo_pool (bw s)) i) = 1" if "bos (bw s) i = Some b" "count (refs (bw s)) i = 0" for i b
    using c [of i] that by (auto simp: cell_def)
  moreover have "\<exists>b. bos (bw s) (ent_addr e) = Some b \<and> refcount b = 0" if "e \<in> set (pool_list (bo_pool (bw s)))" for e
  proof -
    have "e \<in># parks (bo_pool (bw s)) (ent_addr e)" using that by (simp add: parks_def)
    then obtain M where "parks (bo_pool (bw s)) (ent_addr e) = add_mset e M" by (metis mset_add)
    then show ?thesis using c [of "ent_addr e"] by (metis cell_parked)
  qed
  moreover have "\<exists>b. bos (bw s) i = Some b \<and> refcount b = count (refs (bw s)) i" if "i \<in># refs (bw s)" for i
    using binv_ref [OF b that] by blast
  ultimately show ?thesis using binvD(3) [OF b] by (auto simp: accounted_def)
qed

text \<open>C2: a client never gets at bytes of an earlier one through recycled memory: in every reachable
  state the memory of each buffer that some file or mapping refers to was allocated fresh or
  cleared in full after it was last parked.\<close>

theorem client_memory_cleared:
  assumes "m2_start s0" "m2_steps E s0 s" "i \<in># refs (bw s)"
  shows "\<exists>m. mem (bw s) i = Some m \<and> \<not> residue m"
proof -
  have b: "binv (page_shift E) (bo_cap E) {#} {} (bw s)"
    using m2_steps_inv [OF assms(2) m2_start_inv [OF assms(1)]] by (simp add: m2_inv_def guarded_bufs_def)
  show ?thesis by (rule binv_held [OF b nrefs_pos [OF assms(3)]]) blast
qed


section \<open>Quarantine\<close>

definition unwritten :: "ev \<Rightarrow> bool" where
  "unwritten e \<longleftrightarrow> (case e of Write _ _ \<Rightarrow> False | _ \<Rightarrow> True)"

definition silenced :: "trace \<Rightarrow> 'm m2_scheme \<Rightarrow> bool" where
  "silenced tr s \<longleftrightarrow> quarantined s \<and> grown tr unwritten s"

lemma silenced_lock [keep]: "keeps (silenced tr) (bo_lock E)"
  unfolding keeps_def bo_lock_def
  by (auto simp: wp silenced_def unwritten_def elim!: grown_snoc)

lemma silenced_modify: "(\<And>s. trace (f s) = trace s \<and> quarantined (f s) = quarantined s) \<Longrightarrow> keeps (silenced tr) (modify f)"
  by (simp add: keeps_def wp silenced_def grown_def)

lemma silenced_file_ref [keep]: "keeps (silenced tr) (file_ref fd i)"
  unfolding file_ref_def by (intro keep silenced_modify) simp

text \<open>Code that returns before its first access when the device is quarantined.\<close>

lemma silenced_stop: "(\<And>s. quarantined s \<Longrightarrow> \<exists>r. run_state m s = (r, s)) \<Longrightarrow> keeps (silenced tr) m"
  unfolding keeps_def wp_def silenced_def by fastforce

lemma silenced_ioctls:
  "keeps (silenced tr) (ane_t6021_prog_load_ioctl E fd u)"
  "keeps (silenced tr) (ane_t6021_proc_create_ioctl E fd pid)"
  "keeps (silenced tr) (ane_t6021_exec_ioctl E fd x)"
  "keeps (silenced tr) (ane_t6021_perf_mode_set E val bound)"
  "keeps (silenced tr) (ane_t6021_prog_unload_op E p)"
  "keeps (silenced tr) ane_t6021_submit_ioctl"
  by (rule silenced_stop, simp add: ane_t6021_prog_load_ioctl_def ane_t6021_proc_create_ioctl_def ane_t6021_exec_ioctl_def
      ane_rtclient_procedure_call_def ane_t6021_perf_mode_set_def ane_t6021_prog_unload_op_def ane_t6021_submit_ioctl_def
      Let_def split: option.splits sum.splits)+

lemma silenced_lookup: "keeps (silenced tr) (ane_t6021_prog_lookup_ioctl fd len pad d)"
  unfolding ane_t6021_prog_lookup_ioctl_def by (intro keep)

interpretation m2_silent: unload_contract "\<lambda>T. silenced tr" "m2_progtab_ops E" for E tr
proof
  fix c :: "'a m2_scheme" and p
  show "silenced tr c \<Longrightarrow> silenced tr (snd (unload (m2_progtab_ops E) c p))"
    using keepsD [OF silenced_ioctls(5), of tr c E p] by (auto simp: m2_progtab_ops_def wp_def split: prod.splits)
  have "keeps (silenced tr) (prog_release E p :: ('a m2_scheme, unit) state)"
    unfolding prog_release_def by (intro keep silenced_modify) simp
  from keepsD [OF this, of c] show "silenced tr c \<Longrightarrow> silenced tr (release (m2_progtab_ops E) c p)"
    by (auto simp: m2_progtab_ops_def wp_def split: prod.splits)
qed

lemma silenced_close:
  assumes "silenced tr s" "progtab_wf (ptab s)"
  shows "wp (ane_t6021_postclose E fd) (\<lambda>_. silenced tr) s"
proof -
  obtain n t f s' where c: "ane_t6021_progtab_fd_close (ptab s) (fprogs s fd) (unload_on_close s) (m2_progtab_ops E) s = (n, t, f, s')"
    by (metis prod_cases4)
  obtain n' where l: "fd_close_loop (unload_on_close s) (m2_progtab_ops E) (ptab s) (fprogs s fd) s 0 = (t, s', n')"
    using c by (auto simp: ane_t6021_progtab_fd_close_def split: prod.splits)
  have "silenced tr s'" using m2_silent.close_loop [OF l] assms by blast
  then have J: "silenced tr (s'\<lparr>ptab := t, fprogs := (fprogs s')(fd := f)\<rparr>)" by (simp add: silenced_def grown_def)
  have "wp (bo_lock E) (\<lambda>_ u. silenced tr (u\<lparr>bw := close_bos (page_shift E) (quarantined u) fd (bw u)\<rparr>))
      (s'\<lparr>ptab := t, fprogs := (fprogs s')(fd := f)\<rparr>)"
    by (rule wp_mono [OF keepsD [OF silenced_lock J]]) (simp add: silenced_def grown_def)
  then show ?thesis
    using assms c by (simp add: ane_t6021_postclose_def wp State_Monad.set_def wp_def [of "State _"])
qed

lemma silenced_step: "m2_step E s s' \<Longrightarrow> m2_inv E P s \<Longrightarrow> silenced tr s \<Longrightarrow> silenced tr s'"
proof (induction rule: m2_step.induct)
  case (close fd s r s')
  then show ?case using silenced_close [of tr s E fd] by (simp add: m2_inv_def wp_def)
next
  case (bo_op s op)
  then show ?case by (simp add: silenced_def grown_def)
next
  case (unload_param s b)
  then show ?case by (simp add: silenced_def grown_def)
qed (auto intro: keeps_run [OF silenced_ioctls(1)] keeps_run [OF silenced_ioctls(2)] keeps_run [OF silenced_ioctls(3)]
    keeps_run [OF silenced_ioctls(4)] keeps_run [OF silenced_ioctls(6)] keeps_run [OF silenced_lookup])

lemma silenced_steps: "m2_steps E s s' \<Longrightarrow> m2_inv E P s \<Longrightarrow> silenced tr s \<Longrightarrow> silenced tr s'"
proof (induction rule: m2_steps.induct)
  case (further s' s'')
  then show ?case using silenced_step [OF further(2) m2_steps_inv [OF further(1)]] by blast
qed

text \<open>C4: quarantine is final: once a command failed, the driver writes no register, no ring slot and
  no command word any more, whatever the clients call, load, execute or close, and the flag stays
  set.\<close>

theorem quarantine_is_final:
  assumes "m2_start s0" "m2_steps E s0 s" "quarantined s" "m2_steps E s s'"
  shows "quarantined s' \<and> (\<exists>es. trace s' = trace s @ es \<and> (\<forall>l v. Write l v \<notin> set es))"
proof -
  have "m2_inv E {} s" by (rule m2_steps_inv [OF assms(2) m2_start_inv [OF assms(1)]])
  then have "silenced (trace s) s'"
    by (rule silenced_steps [OF assms(4)]) (simp add: silenced_def assms(3))
  then show ?thesis by (force simp: silenced_def grown_def unwritten_def list_all_iff)
qed

section \<open>The hash of a load\<close>

lemma hash_slices_whole:
  assumes "left \<le> sz"
  shows "hash_slices m off sz left = map (\<lambda>k. m (off + k)) [sz - left..<sz]"
  using assms
proof (induction left rule: less_induct)
  case (less left)
  show ?case
  proof (cases "left = 0")
    case False
    let ?n = "min left ANE_T6021_BO_HASH_CHUNK"
    have n: "0 < ?n" "?n \<le> left" using False by (auto simp: ANE_T6021_BO_HASH_CHUNK_def)
    have "map (\<lambda>k. m (off + (sz - left) + k)) [0..<?n] = map (\<lambda>k. m (off + k)) [sz - left..<sz - left + ?n]"
      by (rule nth_equalityI) (simp_all add: ac_simps)
    moreover have "hash_slices m off sz (left - ?n) = map (\<lambda>k. m (off + k)) [sz - left + ?n..<sz]"
      using less.IH [of "left - ?n"] less.prems n by simp
    moreover have "[sz - left..<sz] = [sz - left..<sz - left + ?n] @ [sz - left + ?n..<sz]"
      using upt_add_eq_append [of "sz - left" "sz - left + ?n" "left - ?n"] n less.prems by simp
    ultimately show ?thesis using False by (simp add: hash_slices.simps [of m off sz left] Let_def)
  qed (simp add: hash_slices.simps)
qed

definition sec_hash_input :: "sec_arg \<Rightarrow> (nat \<Rightarrow> u8) \<Rightarrow> u8 list" where
  "sec_hash_input a m = le_bytes 8 (ucast (s_id a)) @ le_bytes 8 (s_size a) @
     map (\<lambda>k. m (unat (s_offset a) + k)) [0..<unat (s_size a)]"



section \<open>The image of a load command\<close>

text \<open>The word a reader of the command buffer finds at an offset: the last write since the buffer was
  cleared.\<close>

definition cmd_word :: "trace \<Rightarrow> nat \<Rightarrow> u64" where
  "cmd_word tr off = foldl (\<lambda>v e. case e of
      Write (Cmd k) x \<Rightarrow> if k = off then x else v
    | Phase p \<Rightarrow> if p = ''cmd_clear'' then 0 else v
    | _ \<Rightarrow> v) 0 tr"

lemma cmd_word_snoc [simp]:
  "cmd_word (tr @ [Write (Cmd k) x]) off = (if k = off then x else cmd_word tr off)"
  "cmd_word (tr @ [Phase ''bo_lock'']) off = cmd_word tr off"
  "cmd_word (tr @ [Phase ''cmd_clear'']) off = 0"
  by (simp_all add: cmd_word_def)

definition rec_offs :: "u32 \<Rightarrow> nat set" where
  "rec_offs sid = {slot_base sid, slot_base sid + 0x04, slot_base sid + 0x18, slot_base sid + 0x20}"

text \<open>The record of section \<open>a\<close> names a range inside a buffer of the file; the section slot keeps
  that buffer.\<close>

definition rec_ok :: "nat \<Rightarrow> trace \<Rightarrow> nat option list \<Rightarrow> sec_arg \<Rightarrow> bool" where
  "rec_ok fd tr sl a \<longleftrightarrow>
     cmd_word tr (slot_base (s_id a)) = 1 \<and> cmd_word tr (slot_base (s_id a) + 0x04) = ucast (s_id a) \<and>
     cmd_word tr (slot_base (s_id a) + 0x20) = s_size a \<and>
     (\<exists>w i b. bo_by_handle w fd (s_handle a) = Some i \<and> bos w i = Some b \<and> s_size a \<le> bo_size b \<and>
        s_offset a \<le> bo_size b - s_size a \<and> cmd_word tr (slot_base (s_id a) + 0x18) = dma b + s_offset a \<and>
        unat (s_id a) - 1 < length sl \<and> sl ! (unat (s_id a) - 1) = Some i)"

lemma rec_disjoint:
  assumes "1 \<le> s_id a" "1 \<le> s_id b" "s_id a \<noteq> s_id b"
  shows "rec_offs (s_id a) \<inter> rec_offs (s_id b) = {}" "unat (s_id a) - 1 \<noteq> unat (s_id b) - 1"
proof -
  have p: "1 \<le> unat (s_id a)" "1 \<le> unat (s_id b)" using assms(1,2) by (simp_all add: word_le_nat_alt)
  have "unat (s_id a) \<noteq> unat (s_id b)" using assms(3) by (simp add: word_unat_eq_iff)
  then show ne: "unat (s_id a) - 1 \<noteq> unat (s_id b) - 1" using p by linarith
  then have "(unat (s_id a) - 1) * 0x30 + 0x30 \<le> (unat (s_id b) - 1) * 0x30 \<or> (unat (s_id b) - 1) * 0x30 + 0x30 \<le> (unat (s_id a) - 1) * 0x30"
    by (cases "unat (s_id a) - 1 < unat (s_id b) - 1") auto
  then show "rec_offs (s_id a) \<inter> rec_offs (s_id b) = {}"
    by (auto simp: rec_offs_def slot_base_def)
qed

lemma rec_ok_cong:
  assumes "rec_ok fd tr sl a" "\<And>off. off \<in> rec_offs (s_id a) \<Longrightarrow> cmd_word tr' off = cmd_word tr off"
    "length sl' = length sl" "sl' ! (unat (s_id a) - 1) = sl ! (unat (s_id a) - 1)"
  shows "rec_ok fd tr' sl' a"
  using assms by (simp add: rec_ok_def rec_offs_def)

lemma mark_section_found:
  assumes "mark_section fd h off sz w = (Some (i, iova), w')"
  shows "\<exists>b. bo_by_handle w fd h = Some i \<and> bos w i = Some b \<and> sz \<le> bo_size b \<and> off \<le> bo_size b - sz \<and> iova = dma b + off"
  using assms by (auto simp: mark_section_def Let_def split: option.splits if_splits)

text \<open>The records written so far, and zero everywhere else.\<close>

definition image_ok :: "nat \<Rightarrow> sec_arg list \<Rightarrow> trace \<Rightarrow> nat option list \<Rightarrow> bool" where
  "image_ok fd as tr sl \<longleftrightarrow> length sl = 9 \<and> (\<forall>a\<in>set as. rec_ok fd tr sl a) \<and>
     (\<forall>off. (\<forall>a\<in>set as. off \<notin> rec_offs (s_id a)) \<longrightarrow> cmd_word tr off = 0)"

lemma ids_ok_mid:
  assumes "ids_ok (xs @ a # ys)"
  shows "1 \<le> s_id a" "unat (s_id a) - 1 < 9" "\<And>b. b \<in> set xs \<Longrightarrow> 1 \<le> s_id b \<and> s_id b \<noteq> s_id a"
  using assms
proof (induction xs)
  case Nil
  { case 1 then show ?case by (simp add: word_le_nat_alt Suc_le_eq unat_gt_0) }
  { case 2
    then have "s_id a \<le> 9" by (simp add: not_less ANE_T6021_LOAD_SEC_COUNT_def)
    then show ?case by (simp add: word_le_nat_alt) }
qed (auto simp: word_le_nat_alt Suc_le_eq unat_gt_0)

lemma bo_lock_trace: "run_state (bo_lock E) s = (u, t) \<Longrightarrow> trace t = trace s @ [Phase ''bo_lock'']"
  by (auto simp: bo_lock_def emit_def State_Monad.update_def)

lemma mark_loop_Cons_run:
  fixes s s' :: "'m m2_scheme"
  assumes "run_state (mark_loop E fd (a # as) sl) s = (Inr sl', s')"
  obtains i iova w0 w t where
    "mark_section fd (s_handle a) (s_offset a) (s_size a) w0 = (Some (i, iova), w)"
    "trace t = trace s @ [Phase ''bo_lock'', Write (Cmd (slot_base (s_id a) + 0x00)) 1,
       Write (Cmd (slot_base (s_id a) + 0x04)) (ucast (s_id a)), Write (Cmd (slot_base (s_id a) + 0x18)) iova,
       Write (Cmd (slot_base (s_id a) + 0x20)) (s_size a)]"
    "run_state (mark_loop E fd as (sl[unat (s_id a) - 1 := Some i])) t = (Inr sl', s')"
proof -
  obtain u t where l: "run_state (bo_lock E) s = (u, t)" by (metis surj_pair)
  note tr = bo_lock_trace [OF l]
  obtain i iova w where m: "mark_section fd (s_handle a) (s_offset a) (s_size a) (bw t) = (Some (i, iova), w)"
    using assms by (auto simp: l split: option.splits prod.splits)
  let ?tr = "trace s @ [Phase ''bo_lock'', Write (Cmd (slot_base (s_id a) + 0x00)) 1,
       Write (Cmd (slot_base (s_id a) + 0x04)) (ucast (s_id a)), Write (Cmd (slot_base (s_id a) + 0x18)) iova,
       Write (Cmd (slot_base (s_id a) + 0x20)) (s_size a)]"
  show thesis
    using assms by (intro that [of "bw t" i iova w "t\<lparr>bw := w, trace := ?tr\<rparr>"])
      (simp_all add: l m tr wrl_def emit_def State_Monad.update_def)
qed

lemma cmd_word_record:
  "cmd_word (tr @ [Phase ''bo_lock'', Write (Cmd (b + 0x00)) x, Write (Cmd (b + 0x04)) y, Write (Cmd (b + 0x18)) z,
     Write (Cmd (b + 0x20)) v]) off =
   (if off = b + 0x20 then v else if off = b + 0x18 then z else if off = b + 0x04 then y else if off = b then x
    else cmd_word tr off)"
  by (simp add: cmd_word_def)

lemma mark_loop_image:
  fixes s s' :: "'m m2_scheme"
  assumes "run_state (mark_loop E fd as sl) s = (Inr sl', s')" "ids_ok (rev pre @ as)" "image_ok fd pre (trace s) sl"
  shows "image_ok fd (rev as @ pre) (trace s') sl'"
  using assms
proof (induction as arbitrary: sl s pre)
  case (Cons a as)
  obtain i iova w0 w t where m: "mark_section fd (s_handle a) (s_offset a) (s_size a) w0 = (Some (i, iova), w)"
    and tr: "trace t = trace s @ [Phase ''bo_lock'', Write (Cmd (slot_base (s_id a) + 0x00)) 1,
       Write (Cmd (slot_base (s_id a) + 0x04)) (ucast (s_id a)), Write (Cmd (slot_base (s_id a) + 0x18)) iova,
       Write (Cmd (slot_base (s_id a) + 0x20)) (s_size a)]"
    and run: "run_state (mark_loop E fd as (sl[unat (s_id a) - 1 := Some i])) t = (Inr sl', s')"
    using mark_loop_Cons_run [OF Cons.prems(1)] by metis
  have len: "length sl = 9" using Cons.prems(3) by (simp add: image_ok_def)
  have rng: "1 \<le> s_id a" "unat (s_id a) - 1 < 9" "\<And>b. b \<in> set pre \<Longrightarrow> 1 \<le> s_id b \<and> s_id b \<noteq> s_id a"
    using ids_ok_mid [OF Cons.prems(2)] by auto
  have word: "cmd_word (trace t) off = cmd_word (trace s) off" if "off \<notin> rec_offs (s_id a)" for off
    using that unfolding tr cmd_word_record by (auto simp: rec_offs_def)
  have "rec_ok fd (trace t) (sl[unat (s_id a) - 1 := Some i]) a"
    using mark_section_found [OF m] rng(2) len unfolding rec_ok_def tr cmd_word_record by auto
  moreover have "rec_ok fd (trace t) (sl[unat (s_id a) - 1 := Some i]) b" if b: "b \<in> set pre" for b
  proof (rule rec_ok_cong)
    show "rec_ok fd (trace s) sl b" using Cons.prems(3) b by (simp add: image_ok_def)
    show "cmd_word (trace t) off = cmd_word (trace s) off" if "off \<in> rec_offs (s_id b)" for off
      using word rec_disjoint(1) [of b a] rng b that by blast
  qed (use rec_disjoint(2) [of b a] rng b in auto)
  moreover have "cmd_word (trace t) off = 0" if "\<forall>b\<in>set (a # pre). off \<notin> rec_offs (s_id b)" for off
    using word that Cons.prems(3) by (simp add: image_ok_def)
  ultimately have "image_ok fd (a # pre) (trace t) (sl[unat (s_id a) - 1 := Some i])"
    using len by (simp add: image_ok_def)
  from Cons.IH [OF run _ this] Cons.prems(2) show ?case by simp
qed simp


definition filling :: "ev \<Rightarrow> bool" where
  "filling e = (case e of Write (Cmd k) v \<Rightarrow> True | Phase p \<Rightarrow> p = ''bo_lock'' \<or> p = ''cmd_clear'' | _ \<Rightarrow> False)"

lemma extends_bo_lock_fill [exts]: "extends filling (bo_lock E)"
  unfolding bo_lock_def by (intro exts) (simp_all add: filling_def)

lemma mark_loop_fails:
  fixes s :: "'m m2_scheme"
  shows "wp (mark_loop E fd as sl) (\<lambda>r s'. (\<forall>e. r = Inl e \<longrightarrow> e = EINVAL)) s"
  by (induction as arbitrary: sl s) (auto simp: wp bo_lock_def split: option.splits prod.splits)

lemma extends_mark_loop: "extends filling (mark_loop E fd as sl)"
  by (induction as arbitrary: sl) (auto intro!: exts simp: filling_def split: option.splits prod.splits)

lemma rec_offs_below: "ids_ok as \<Longrightarrow> a \<in> set as \<Longrightarrow> off \<in> rec_offs (s_id a) \<Longrightarrow> off < 0x1b8"
  using ids_ok_mid(2) by (fastforce simp: rec_offs_def slot_base_def in_set_conv_decomp)


end
