(* ===== verification/Ane_Ioctl_Runs.thy ===== *)
theory Ane_Ioctl_Runs
  imports Ane_Runs Ane_Ioctl
begin

text \<open>
  A concrete client session on the driver, and the properties of the client interface applied to it.
\<close>

section \<open>A concrete client session\<close>

text \<open>The firmware of the transport runs, which answers a load with program id 7; the driver after
  probe; one client that opens the device, allocates one 16 KiB buffer and loads a program whose
  section 2 is eight bytes of that buffer.\<close>

definition ex_m2_rd :: "trace \<Rightarrow> loc \<Rightarrow> u64" where
  "ex_m2_rd tr l =
     (if l = Cmd 4 then ucast CSNE_CMD_LOAD_PROGRAM
      else if l = Cmd 0x1b8 then 7
      else ex_rd tr l)"

definition ex_m2_env :: m2_env where
  "ex_m2_env = \<lparr>rd = ex_m2_rd, dmalloc = (\<lambda>_ _. None), polls = (\<lambda>_. Suc (Suc 0)),
             chman_table = (\<lambda>_. map ex_desc ane_t6021_chman_layout),
             now_ns = (\<lambda>tr. of_nat (length tr)), ps_mapped = (\<lambda>_. True),
             page_shift = 14, bo_total_max_mb = 64, others = (\<lambda>_. []), sha256 = (\<lambda>bs. take 32 (bs @ replicate 32 0)),
             bo_byte = (\<lambda>_ _ _. 0)\<rparr>"

definition ex_m2 :: m2 where
  "ex_m2 = drv.extend ex_drv \<lparr>bw = bw_init 0 0, ptab = progtab_init, fprogs = (\<lambda>_. []), unload_on_close = False, fw_perf_mode = False\<rparr>"

definition ex_sec :: sec_arg where
  "ex_sec = \<lparr>s_id = 2, s_handle = 1, s_size = 8, s_offset = 16\<rparr>"

definition ex_load :: load_args where
  "ex_load = \<lparr>section_count = 1, generic_count = 0, user_sec = (\<lambda>_. ex_sec),
     arrays_ok = True, sections_copied = True, binds_copied = True, scratch_ok = True\<rparr>"

definition ex_open :: m2 where
  "ex_open = ex_m2\<lparr>bw := run_bo_op ex_m2_env ex_m2 (FileOpen 0) (bw ex_m2)\<rparr>"

definition ex_alloc :: m2 where
  "ex_alloc = ex_open\<lparr>bw := run_bo_op ex_m2_env ex_open (BoInit 0 0x4000 [Got 0x100000]) (bw ex_open)\<rparr>"

definition ex_bo :: bo where
  "ex_bo = \<lparr>handle = 1, owner = 0, refcount = 1, dma = 0x100000, bo_size = 0x4000, fw_ref = False,
     fw_program = False, fw_io = False, prog_refs = 0, bo_ent = \<lparr>ent_addr = 0, ent_size = 0, pooled_sec = False\<rparr>\<rparr>"

lemma ex_m2_start: "m2_start ex_m2" "m2_start (ex_m2\<lparr>quarantined := True\<rparr>)"
  by (auto simp: m2_start_def ex_m2_def drv.defs m2.defs)

lemma ex_open_bw: "bw ex_open = (bw_init 0 0)\<lparr>files := [(0, [])]\<rparr>"
  by (simp add: ex_open_def ex_m2_def run_bo_op_def drv.defs ane_t6021_open_def bw_init_def fd_list_def)

lemma ex_open_alias: "alias_clear ex_open d sz" "quarantined ex_open = False"
  by (simp_all add: ex_open_def ex_m2_def alias_clear_def ane_t6021_fw_alias_iova_ok_def ex_drv_def drv.defs)

lemma ex_alloc_bw:
  "bw ex_alloc = (bw_init 0 0)\<lparr>files := [(0, [0])], bos := [0 \<mapsto> ex_bo],
     mem := [0 \<mapsto> \<lparr>mdma = 0x100000, msize = 0x4000, residue = False\<rparr>], total := 0x4000, next_bo := 1, next_handle := 2\<rparr>"
  by (simp add: ex_alloc_def run_bo_op_def ex_open_bw ex_open_alias Let_def ex_m2_env_def ane_t6021_bo_init_ioctl_def
      ANE_T6021_BO_MAX_def bw_init_def ane_t6021_pool_take_def ane_t6021_pool_init_def fd_list_def
      ane_t6021_bo_alloc_attempt_def bo_cap_def is_aligned_16k_def new_bo_def bo_publish_def pick_handle_def set_bo_def
      ex_bo_def ane_simps ane_t6021_pool_alloc_retry.simps)

lemma ex_session: "m2_steps ex_m2_env ex_m2 ex_alloc"
proof -
  have "m2_step ex_m2_env ex_m2 ex_open" unfolding ex_open_def by (rule m2_step.bo_op)
  moreover have "m2_step ex_m2_env ex_open ex_alloc" unfolding ex_alloc_def by (rule m2_step.bo_op)
  ultimately show ?thesis by (blast intro: m2_steps.intros)
qed

lemma ex_then_load:
  "\<exists>r s. run_state (ane_t6021_prog_load_ioctl ex_m2_env 0 ex_load) ex_alloc = (r, s) \<and> m2_steps ex_m2_env ex_alloc s"
  by (metis m2_steps.intros m2_step.load surj_pair)

theorem firmware_memory_stays_witness:
  "\<exists>r s. run_state (ane_t6021_prog_load_ioctl ex_m2_env 0 ex_load) ex_alloc = (r, s) \<and>
     (\<forall>i\<in>set (prog_held (bw s)). mem (bw s) i \<noteq> None)"
proof -
  obtain r s where "run_state (ane_t6021_prog_load_ioctl ex_m2_env 0 ex_load) ex_alloc = (r, s)" "m2_steps ex_m2_env ex_alloc s"
    using ex_then_load by blast
  with firmware_memory_stays [OF ex_m2_start(1) ex_session, of s] show ?thesis by blast
qed

theorem bo_world_consistent_witness:
  "refs (bw ex_alloc) = {#0#} \<and> refcount ex_bo = 1 \<and> total (bw ex_alloc) = 0x4000 \<and> total (bw ex_alloc) \<le> bo_cap ex_m2_env"
  using bo_world_consistent [OF ex_m2_start(1) ex_session]
  by (simp add: ex_alloc_bw refs_def bw_init_def ex_bo_def)

theorem client_memory_cleared_witness:
  "0 \<in># refs (bw ex_alloc) \<and> (\<exists>m. mem (bw ex_alloc) 0 = Some m \<and> \<not> residue m)"
proof -
  have "0 \<in># refs (bw ex_alloc)" by (simp add: ex_alloc_bw refs_def bw_init_def)
  with client_memory_cleared [OF ex_m2_start(1) ex_session this] show ?thesis by blast
qed

theorem quarantine_is_final_witness:
  "\<exists>r s. run_state (ane_t6021_prog_load_ioctl ex_m2_env 0 ex_load) (ex_m2\<lparr>quarantined := True\<rparr>) = (r, s) \<and>
     quarantined s \<and> (\<exists>es. trace s = es \<and> (\<forall>l v. Write l v \<notin> set es))"
proof -
  let ?q = "ex_m2\<lparr>quarantined := True\<rparr>"
  obtain r s where run: "run_state (ane_t6021_prog_load_ioctl ex_m2_env 0 ex_load) ?q = (r, s)" by (metis surj_pair)
  then have "m2_steps ex_m2_env ?q s" by (metis m2_steps.intros m2_step.load)
  from quarantine_is_final [OF ex_m2_start(2) m2_steps.here _ this] run show ?thesis
    by (simp add: ex_m2_def drv.defs ex_drv_def)
qed



end
