(* ===== verification/Ane_Fw.thy ===== *)
theory Ane_Fw
  imports Ane_Prelude "HOL-Library.Monad_Syntax"
begin

text \<open>
  The pinned firmware images of the M2 driver, their validator and the boot-time patches
  (\<^verbatim>\<open>ane_fw_validate.h\<close>).

  A blob or a staged image is a function from byte offsets to bytes; a load of the validator
  outside the \<open>size\<close> bytes of the blob is \<open>None\<close>, and so is a store outside the caller's segment
  array and a thread-state walk that exceeds its fuel, so a validator run that is \<open>Some\<close> read and
  wrote in bounds and came to an end.  \<open>Inl\<close> is the reason of a refusal.
\<close>

type_synonym bytes = "nat \<Rightarrow> u8"

section \<open>Little-endian fields\<close>

primrec le_val :: "nat \<Rightarrow> bytes \<Rightarrow> nat \<Rightarrow> u64" where
  "le_val 0 m i = 0"
| "le_val (Suc n) m i = ucast (m i) OR push_bit 8 (le_val n m (i + 1))"

definition get_unaligned_le32 :: "bytes \<Rightarrow> u64 \<Rightarrow> nat \<Rightarrow> u32 option" where
  "get_unaligned_le32 m sz i = (if i + 4 \<le> unat sz then Some (ucast (le_val 4 m i)) else None)"

definition get_unaligned_le64 :: "bytes \<Rightarrow> u64 \<Rightarrow> nat \<Rightarrow> u64 option" where
  "get_unaligned_le64 m sz i = (if i + 8 \<le> unat sz then Some (le_val 8 m i) else None)"

primrec ane_fw_put_le :: "nat \<Rightarrow> bytes \<Rightarrow> nat \<Rightarrow> u64 \<Rightarrow> bytes" where
  "ane_fw_put_le 0 m p v = m"
| "ane_fw_put_le (Suc n) m p v = ane_fw_put_le n (m(p := ucast v)) (p + 1) (drop_bit 8 v)"

section \<open>The pinned images\<close>

definition ANE_FW_BUF_SIZE :: u32 where "ANE_FW_BUF_SIZE = 0x500000"
definition ANE_FW_ENTRY_PC :: u64 where "ANE_FW_ENTRY_PC = 0"
definition MH_MAGIC_64 :: u32 where "MH_MAGIC_64 = 0xfeedfacf"
definition MH_PRELOAD :: u32 where "MH_PRELOAD = 5"
definition CPU_TYPE_ARM64 :: u32 where "CPU_TYPE_ARM64 = 0x0100000c"
definition LC_SEGMENT_64 :: u32 where "LC_SEGMENT_64 = 0x19"
definition LC_UNIXTHREAD :: u32 where "LC_UNIXTHREAD = 0x5"
definition ARM_THREAD_STATE64 :: u32 where "ARM_THREAD_STATE64 = 6"
definition ANE_FW_NCMDS :: u32 where "ANE_FW_NCMDS = 5"
definition ANE_FW_SIZEOF_CMDS :: u32 where "ANE_FW_SIZEOF_CMDS = 0x960"
definition ANE_FW_FLAGS :: u32 where "ANE_FW_FLAGS = 1"
definition ANE_FW_NSEGS :: nat where "ANE_FW_NSEGS = 2"
definition ANE_FW_DATA_BASE_VM :: nat where "ANE_FW_DATA_BASE_VM = 0x423c"
definition ANE_FW_TUNABLES_MAX :: nat where "ANE_FW_TUNABLES_MAX = 0x24"

lemmas fw_consts = ANE_FW_BUF_SIZE_def ANE_FW_ENTRY_PC_def MH_MAGIC_64_def MH_PRELOAD_def
  CPU_TYPE_ARM64_def LC_SEGMENT_64_def LC_UNIXTHREAD_def ARM_THREAD_STATE64_def ANE_FW_NCMDS_def
  ANE_FW_SIZEOF_CMDS_def ANE_FW_FLAGS_def ANE_FW_NSEGS_def ANE_FW_DATA_BASE_VM_def ANE_FW_TUNABLES_MAX_def

record ane_fw_seg =
  seg_vmaddr :: u64
  seg_vmsize :: u64
  seg_fileoff :: u64
  seg_filesize :: u64
  seg_name :: string

record ane_fw_image =
  fw_name :: string
  fw_sha256 :: "u8 list"
  fw_image_size :: u32
  fw_segs :: "ane_fw_seg list"
  rtk_vm :: "u32 list"
  tunables_vm :: u32

record ane_asc_tunable =
  tun_off :: u32
  tun_mask :: u64
  tun_val :: u64

abbreviation tunable :: "u32 \<Rightarrow> u64 \<Rightarrow> u64 \<Rightarrow> ane_asc_tunable" where
  "tunable a m v \<equiv> \<lparr>tun_off = a, tun_mask = m, tun_val = v\<rparr>"

record ane_asc_tunables =
  keys :: "u8 list"
  nkeys :: nat
  tun_n :: nat
  tun_r :: "ane_asc_tunable list"

definition ane_fw_selene :: ane_fw_image where
  "ane_fw_selene = \<lparr>fw_name = ''apple/ane/t602x_ane0_fw_selene_rc4x.macho'',
     fw_sha256 = [0xa9, 0xc4, 0xb7, 0x71, 0x29, 0x4a, 0x6b, 0x11,
       0x56, 0x24, 0xd9, 0x48, 0xa, 0x62, 0x48, 0xd0,
       0x89, 0x9a, 0x16, 0x81, 0xa5, 0x75, 0xe8, 0x65,
       0x7, 0xb, 0x87, 0xa3, 0x24, 0x84, 0x27, 0xbc],
     fw_image_size = 0x4c5b28,
     fw_segs = [\<lparr>seg_vmaddr = 0x0, seg_vmsize = 0xc4000, seg_fileoff = 0x4000, seg_filesize = 0xc4000, seg_name = ''__TEXT''\<rparr>,
       \<lparr>seg_vmaddr = 0xc4000, seg_vmsize = 0x438000, seg_fileoff = 0xc8000, seg_filesize = 0x3e8000, seg_name = ''__DATA''\<rparr>],
     rtk_vm = [0xca848, 0xca9b3, 0xca9bf, 0xca9cb, 0xca9db], tunables_vm = 0xdcd78\<rparr>"

definition ane_fw_bia :: ane_fw_image where
  "ane_fw_bia = \<lparr>fw_name = ''apple/ane/h14_ane_fw_bia_j4xx.macho'',
     fw_sha256 = [0xaf, 0x58, 0x7d, 0xfa, 0x96, 0xb1, 0xe0, 0x1d,
       0x2b, 0x2e, 0xf, 0x9f, 0x77, 0x6e, 0x5d, 0xbe,
       0xfe, 0xbb, 0x44, 0xc7, 0x96, 0x8b, 0x86, 0xff,
       0xf7, 0xd2, 0xb1, 0x9c, 0x4c, 0xbe, 0xf0, 0xdd],
     fw_image_size = 0x4b5b38,
     fw_segs = [\<lparr>seg_vmaddr = 0x0, seg_vmsize = 0xb4000, seg_fileoff = 0x4000, seg_filesize = 0xb4000, seg_name = ''__TEXT''\<rparr>,
       \<lparr>seg_vmaddr = 0xb4000, seg_vmsize = 0x438000, seg_fileoff = 0xb8000, seg_filesize = 0x3e8000, seg_name = ''__DATA''\<rparr>],
     rtk_vm = [0xba688, 0xba7f3, 0xba7ff, 0xba80b, 0xba81b], tunables_vm = 0xccbb8\<rparr>"

definition ane_t602x_asc_tunables :: ane_asc_tunables where
  "ane_t602x_asc_tunables = \<lparr>keys = [0x10, 0x1, 0x0, 0x0], nkeys = 3, tun_n = 24, tun_r = [
     tunable 0x150010 0x3f 0x10,
     tunable 0x51c08 0x10000000 0x10000000,
     tunable 0x51c18 0x10000000000000 0x10000000000000,
     tunable 0x140020 0xf00000 0x700000,
     tunable 0x140120 0x2eff 0x2b1,
     tunable 0x140130 0x3fff 0x18,
     tunable 0x140138 0x7fff 0x64,
     tunable 0x140140 0x3fff 0x2f,
     tunable 0x140148 0x7fff 0xc8,
     tunable 0x140150 0x3fff 0x4f,
     tunable 0x140158 0x7fff 0x14e,
     tunable 0x140160 0x3fff 0x4f,
     tunable 0x140168 0x7fff 0x14e,
     tunable 0x140170 0x3fff 0x18,
     tunable 0x140178 0x7fff 0x64,
     tunable 0x140180 0x3fff 0x28,
     tunable 0x140188 0x7fff 0xa7,
     tunable 0x140190 0x3fff 0x28,
     tunable 0x140198 0x7fff 0xa7,
     tunable 0x1401a0 0x3fff 0x4f,
     tunable 0x1401a8 0x7fff 0x14e,
     tunable 0x145010 0x8000c 0xc,
     tunable 0x14a008 0xff0ffff 0x2520,
     tunable 0x14a010 0xff0ffff 0x2002520]\<rparr>"

definition ane_t6020_asc_tunables :: ane_asc_tunables where
  "ane_t6020_asc_tunables = \<lparr>keys = [0x0, 0x0, 0x0, 0x0], nkeys = 1, tun_n = 24, tun_r = [
     tunable 0x150010 0x3f 0x10,
     tunable 0x51c08 0x10000000 0x10000000,
     tunable 0x51c18 0x10000000000000 0x10000000000000,
     tunable 0x140020 0xf00000 0x700000,
     tunable 0x140120 0x2eff 0x2b1,
     tunable 0x140130 0x3fff 0x18,
     tunable 0x140138 0x7fff 0x64,
     tunable 0x140140 0x3fff 0x18,
     tunable 0x140148 0x7fff 0x64,
     tunable 0x140150 0x3fff 0x20,
     tunable 0x140158 0x7fff 0x86,
     tunable 0x140160 0x3fff 0x4f,
     tunable 0x140168 0x7fff 0x14e,
     tunable 0x140170 0x3fff 0x8,
     tunable 0x140178 0x7fff 0x22,
     tunable 0x140180 0x3fff 0x8,
     tunable 0x140188 0x7fff 0x22,
     tunable 0x140190 0x3fff 0x18,
     tunable 0x140198 0x7fff 0x64,
     tunable 0x1401a0 0x3fff 0x18,
     tunable 0x1401a8 0x7fff 0x64,
     tunable 0x145010 0x8000c 0xc,
     tunable 0x14a008 0xff0ffff 0x2520,
     tunable 0x14a010 0xff0ffff 0x1002520]\<rparr>"

definition ane_t8112_asc_tunables :: ane_asc_tunables where
  "ane_t8112_asc_tunables = \<lparr>keys = [0x10, 0x0, 0x0, 0x0], nkeys = 2, tun_n = 23, tun_r = [
     tunable 0x51c08 0x10000000 0x10000000,
     tunable 0x51c18 0x10000000000000 0x10000000000000,
     tunable 0x140020 0x4000000000f80000 0x4000000000780000,
     tunable 0x140120 0x2eff 0x2b1,
     tunable 0x140130 0x3fff 0x18,
     tunable 0x140138 0x7fff 0x64,
     tunable 0x140140 0x3fff 0x18,
     tunable 0x140148 0x7fff 0x64,
     tunable 0x140150 0x3fff 0x20,
     tunable 0x140158 0x7fff 0x86,
     tunable 0x140160 0x3fff 0x28,
     tunable 0x140168 0x7fff 0xa7,
     tunable 0x140170 0x3fff 0x10,
     tunable 0x140178 0x7fff 0x43,
     tunable 0x140180 0x3fff 0x10,
     tunable 0x140188 0x7fff 0x43,
     tunable 0x140190 0x3fff 0x18,
     tunable 0x140198 0x7fff 0x64,
     tunable 0x1401a0 0x3fff 0x28,
     tunable 0x1401a8 0x7fff 0xa7,
     tunable 0x145010 0x8000c 0x8000c,
     tunable 0x14a008 0xff0ffff 0x2520,
     tunable 0x14a010 0xff0ffff 0x3002520]\<rparr>"

section \<open>The validator\<close>

text \<open>\<^verbatim>\<open>char name[17]\<close> compared over its first 16 bytes.\<close>

definition name16 :: "string \<Rightarrow> u8 list" where
  "name16 s = take 16 (map (\<lambda>c. of_nat (of_char c)) s @ replicate 16 0)"

text \<open>The walk of one \<^verbatim>\<open>LC_UNIXTHREAD\<close> command.\<close>

primrec thread_loop ::
  "nat \<Rightarrow> bytes \<Rightarrow> u64 \<Rightarrow> u32 \<Rightarrow> u32 \<Rightarrow> u32 \<Rightarrow> u64 \<Rightarrow> (string + u64) option" where
  "thread_loop 0 blob sz off cmdsize p entry = None"
| "thread_loop (Suc n) blob sz off cmdsize p entry =
     (if \<not> p + 8 \<le> off + cmdsize then Some (Inr entry)
      else do {
        flavor \<leftarrow> get_unaligned_le32 blob sz (unat p);
        count \<leftarrow> get_unaligned_le32 blob sz (unat p + 4);
        if count > (cmdsize - (p - off) - 8) div 4
        then Some (Inl ''thread state count out of bounds'')
        else if flavor = ARM_THREAD_STATE64 \<and> (count < 66 \<or> p + 8 + count * 4 > off + cmdsize)
        then Some (Inl ''thread state too small for pc'')
        else do {
          entry' \<leftarrow> (if flavor = ARM_THREAD_STATE64
                     then get_unaligned_le64 blob sz (unat p + 8 + 32 * 8) else Some entry);
          thread_loop n blob sz off cmdsize (p + (8 + count * 4)) entry' } })"

definition thread_fuel :: nat where "thread_fuel = 305"

text \<open>One \<^verbatim>\<open>LC_SEGMENT_64\<close> command: the pinned segment it equals.\<close>

definition seg_cmd :: "bytes \<Rightarrow> u64 \<Rightarrow> ane_fw_image \<Rightarrow> u32 \<Rightarrow> (string + ane_fw_seg) option" where
  "seg_cmd blob sz fw off = do {
     vmaddr \<leftarrow> get_unaligned_le64 blob sz (unat off + 24);
     vmsize \<leftarrow> get_unaligned_le64 blob sz (unat off + 32);
     fileoff \<leftarrow> get_unaligned_le64 blob sz (unat off + 40);
     filesize \<leftarrow> get_unaligned_le64 blob sz (unat off + 48);
     if fileoff > sz \<or> filesize > sz - fileoff then Some (Inl ''segment file range out of bounds'')
     else if filesize > vmsize then Some (Inl ''filesize > vmsize'')
     else case find (\<lambda>s. vmaddr = seg_vmaddr s \<and> vmsize = seg_vmsize s \<and> fileoff = seg_fileoff s \<and>
              filesize = seg_filesize s \<and> map blob [unat off + 8..<unat off + 24] = name16 (seg_name s)) (fw_segs fw) of
            None \<Rightarrow> Some (Inl ''segment != pinned layout'')
          | Some s \<Rightarrow> Some (Inr s) }"

text \<open>\<^verbatim>\<open>segs_out[nsegs] = ...\<close>, where \<^verbatim>\<open>segs_out\<close> may be NULL.\<close>

definition put_seg :: "ane_fw_seg list option \<Rightarrow> nat \<Rightarrow> ane_fw_seg \<Rightarrow> ane_fw_seg list option option" where
  "put_seg out nsegs s =
     (case out of
        None \<Rightarrow> Some None
      | Some l \<Rightarrow> if nsegs < length l then Some (Some (l[nsegs := s])) else None)"

record lc_state =
  lc_off :: u32
  lc_nsegs :: nat
  lc_entry :: u64
  lc_out :: "ane_fw_seg list option"

text \<open>One turn of the load-command loop.\<close>

definition lc_turn :: "bytes \<Rightarrow> u64 \<Rightarrow> ane_fw_image \<Rightarrow> u32 \<Rightarrow> lc_state \<Rightarrow> (string + lc_state) option" where
  "lc_turn blob sz fw sizeofcmds s = (let off = lc_off s in
     if off + 8 > 32 + sizeofcmds \<or> ucast (off + 8) > sz
     then Some (Inl ''load command header out of bounds'')
     else do {
       cmd \<leftarrow> get_unaligned_le32 blob sz (unat off);
       cmdsize \<leftarrow> get_unaligned_le32 blob sz (unat off + 4);
       if cmdsize < 8 \<or> off + cmdsize > 32 + sizeofcmds \<or> ucast (off + cmdsize) > sz
       then Some (Inl ''cmdsize out of bounds'')
       else if cmd = LC_SEGMENT_64 then do {
         r \<leftarrow> seg_cmd blob sz fw off;
         case r of
           Inl e \<Rightarrow> Some (Inl e)
         | Inr g \<Rightarrow> do {
             out \<leftarrow> put_seg (lc_out s) (lc_nsegs s) g;
             Some (Inr (s\<lparr>lc_off := off + cmdsize, lc_nsegs := lc_nsegs s + 1, lc_out := out\<rparr>)) } }
       else if cmd = LC_UNIXTHREAD then do {
         r \<leftarrow> thread_loop thread_fuel blob sz off cmdsize (off + 8) (lc_entry s);
         case r of
           Inl e \<Rightarrow> Some (Inl e)
         | Inr entry \<Rightarrow> Some (Inr (s\<lparr>lc_off := off + cmdsize, lc_entry := entry\<rparr>)) }
       else Some (Inr (s\<lparr>lc_off := off + cmdsize\<rparr>)) })"

primrec lc_loop ::
  "nat \<Rightarrow> bytes \<Rightarrow> u64 \<Rightarrow> ane_fw_image \<Rightarrow> u32 \<Rightarrow> lc_state \<Rightarrow> (string + lc_state) option" where
  "lc_loop 0 blob sz fw sizeofcmds s = Some (Inr s)"
| "lc_loop (Suc n) blob sz fw sizeofcmds s = do {
     r \<leftarrow> lc_turn blob sz fw sizeofcmds s;
     case r of Inl e \<Rightarrow> Some (Inl e) | Inr s' \<Rightarrow> lc_loop n blob sz fw sizeofcmds s' }"

text \<open>\<open>out\<close> is the caller's segment array (\<open>None\<close> for NULL); an accepted blob gives the segments and
  the entry point.\<close>

definition ane_fw_validate_blob ::
  "bytes \<Rightarrow> u64 \<Rightarrow> ane_fw_image \<Rightarrow> u8 list \<Rightarrow> ane_fw_seg list option \<Rightarrow>
     (string + ane_fw_seg list option \<times> u64) option" where
  "ane_fw_validate_blob blob sz fw actual_sha out =
     (if sz \<noteq> ucast (fw_image_size fw) then Some (Inl ''size != pinned image'')
      else if fw_sha256 fw \<noteq> actual_sha then Some (Inl ''sha256 != pinned payload hash'')
      else do {
        magic \<leftarrow> get_unaligned_le32 blob sz 0;
        cputype \<leftarrow> get_unaligned_le32 blob sz 4;
        filetype \<leftarrow> get_unaligned_le32 blob sz 12;
        ncmds \<leftarrow> get_unaligned_le32 blob sz 16;
        sizeofcmds \<leftarrow> get_unaligned_le32 blob sz 20;
        flags \<leftarrow> get_unaligned_le32 blob sz 24;
        if magic \<noteq> MH_MAGIC_64 then Some (Inl ''magic'')
        else if cputype \<noteq> CPU_TYPE_ARM64 then Some (Inl ''cputype'')
        else if filetype \<noteq> MH_PRELOAD then Some (Inl ''filetype != MH_PRELOAD'')
        else if ncmds \<noteq> ANE_FW_NCMDS \<or> sizeofcmds \<noteq> ANE_FW_SIZEOF_CMDS \<or> flags \<noteq> ANE_FW_FLAGS
        then Some (Inl ''header fields != pinned image'')
        else do {
          r \<leftarrow> lc_loop (unat ncmds) blob sz fw sizeofcmds
                 \<lparr>lc_off = 32, lc_nsegs = 0, lc_entry = NOT 0, lc_out = out\<rparr>;
          case r of
            Inl e \<Rightarrow> Some (Inl e)
          | Inr s \<Rightarrow>
              if lc_nsegs s \<noteq> ANE_FW_NSEGS then Some (Inl ''segment count != 2'')
              else if lc_entry s \<noteq> ANE_FW_ENTRY_PC then Some (Inl ''entry pc != 0'')
              else Some (Inr (map_option (\<lambda>_. take ANE_FW_NSEGS (fw_segs fw)) (lc_out s), lc_entry s)) } })"

section \<open>The boot-time patches\<close>

definition ane_t8112_fuse_revision :: "u32 \<Rightarrow> u32 \<Rightarrow> u32" where
  "ane_t8112_fuse_revision w0 w1 =
     (drop_bit 27 w0 AND 7) OR push_bit 4 ((drop_bit 30 w0 OR push_bit 2 w1) AND 7)"

record ane_fw_boot_patch =
  exec_base :: u64
  stack_guard :: u64
  soc :: u32
  soc_revision :: u32
  cpu_pa :: u64
  wrapper_pa :: u64

text \<open>The records of the patch table: tag and value length.\<close>

definition rtk_rec :: "(u32 \<times> nat) list" where
  "rtk_rec = [(0x53544b47, 8), (0x534f435f, 4), (0x534f4352, 4), (0x43704164, 8), (0x57724164, 8)]"

definition rtk_vals :: "ane_fw_boot_patch \<Rightarrow> u64 list" where
  "rtk_vals p = [stack_guard p, ucast (soc p), ucast (soc_revision p), cpu_pa p, wrapper_pa p]"

definition tunables_unset :: "u8 list" where
  "tunables_unset = [1, 3, of_nat ANE_FW_TUNABLES_MAX, 0, 0xff, 0xff, 0xff, 0xff]"

text \<open>The first key that is not above the chip revision.\<close>

definition pick_key :: "ane_asc_tunables \<Rightarrow> u32 \<Rightarrow> u8 option" where
  "pick_key t rv = find (\<lambda>k. \<not> ucast k > rv) (take (nkeys t) (keys t))"

text \<open>The stores of a successful patch, in order: offset, value and width.\<close>

type_synonym store = "nat \<times> u64 \<times> nat"

definition tunable_stores :: "nat \<Rightarrow> nat \<Rightarrow> ane_asc_tunable \<Rightarrow> store list" where
  "tunable_stores blk i r =
     [(blk + 8 + 20 * i, ucast (tun_off r), 4), (blk + 12 + 20 * i, tun_mask r, 8), (blk + 20 + 20 * i, tun_val r, 8)]"

definition patch_stores :: "ane_fw_image \<Rightarrow> ane_asc_tunables \<Rightarrow> ane_fw_boot_patch \<Rightarrow> u8 \<Rightarrow> store list" where
  "patch_stores fw t p key = (let blk = unat (tunables_vm fw) in
     [(ANE_FW_DATA_BASE_VM, exec_base p + seg_vmaddr (fw_segs fw ! 1), 8)] @
     map (\<lambda>i. (unat (rtk_vm fw ! i) + 8, rtk_vals p ! i, snd (rtk_rec ! i))) [0..<5] @
     [(blk + 3, of_nat (tun_n t), 1), (blk + 4, ucast key, 4)] @
     concat (map (\<lambda>i. tunable_stores blk i (tun_r t ! i)) [0..<tun_n t]))"

definition put_all :: "store list \<Rightarrow> bytes \<Rightarrow> bytes" where
  "put_all ws m = fold (\<lambda>(p, v, n) m. ane_fw_put_le n m p v) ws m"

definition rtk_records_ok :: "bytes \<Rightarrow> ane_fw_image \<Rightarrow> bool" where
  "rtk_records_ok img fw =
     list_all (\<lambda>i. ucast (le_val 4 img (unat (rtk_vm fw ! i))) = fst (rtk_rec ! i) \<and>
                   le_val 4 img (unat (rtk_vm fw ! i) + 4) = of_nat (snd (rtk_rec ! i))) [0..<5]"

definition tunables_block_unset :: "bytes \<Rightarrow> ane_fw_image \<Rightarrow> bool" where
  "tunables_block_unset img fw \<longleftrightarrow>
     map img [unat (tunables_vm fw)..<unat (tunables_vm fw) + 8] = tunables_unset"

definition ane_fw_apply_boot_patches ::
  "bytes \<Rightarrow> ane_fw_image \<Rightarrow> ane_asc_tunables \<Rightarrow> ane_fw_boot_patch \<Rightarrow> string option \<times> bytes" where
  "ane_fw_apply_boot_patches img fw t p =
     (case pick_key t (soc_revision p) of
        None \<Rightarrow> (Some ''no ASC tunables for this chip revision'', img)
      | Some key \<Rightarrow>
          if tun_n t > ANE_FW_TUNABLES_MAX then (Some ''no ASC tunables for this chip revision'', img)
          else if le_val 8 img ANE_FW_DATA_BASE_VM \<noteq> 0
          then (Some ''DATA base field is not the archive zero'', img)
          else if \<not> rtk_records_ok img fw
          then (Some ''__rtk_patch record != pinned image'', img)
          else if \<not> tunables_block_unset img fw
          then (Some ''tunables block header != pinned image'', img)
          else (None, put_all (patch_stores fw t p key) img))"

section \<open>Fields\<close>

lemma put_le_apply:
  "ane_fw_put_le n m p v a = (if p \<le> a \<and> a < p + n then ucast (drop_bit (8 * (a - p)) v) else m a)"
proof (induction n arbitrary: m p v)
  case (Suc n)
  consider "a < p" | "a = p" | "p < a" by linarith
  then show ?case
  proof cases
    case 2
    then show ?thesis using Suc.IH [of "m(p := ucast v)" "p + 1" "drop_bit 8 v"] by (simp add: fun_upd_def)
  next
    case 3
    then have "8 + 8 * (a - (p + 1)) = 8 * (a - p)" by linarith
    then show ?thesis using 3 Suc by (auto simp: drop_bit_drop_bit add.commute)
  qed (auto simp: Suc)
qed auto

lemma le_val_cong: "(\<And>k. k < n \<Longrightarrow> m (i + k) = m' (i + k)) \<Longrightarrow> le_val n m i = le_val n m' i"
proof (induction n arbitrary: i)
  case (Suc n)
  have "le_val n m (i + 1) = le_val n m' (i + 1)"
  proof (rule Suc.IH)
    show "m (i + 1 + k) = m' (i + 1 + k)" if "k < n" for k using Suc.prems [of "Suc k"] that by simp
  qed
  then show ?case using Suc.prems [of 0] by simp
qed simp

lemma le_val_bytes:
  "(\<And>k. k < n \<Longrightarrow> m (i + k) = ucast (drop_bit (8 * k) v)) \<Longrightarrow> le_val n m i = take_bit (8 * n) v"
proof (induction n arbitrary: i v)
  case (Suc n)
  have "le_val n m (i + 1) = take_bit (8 * n) (drop_bit 8 v)"
  proof (rule Suc.IH)
    show "m (i + 1 + k) = ucast (drop_bit (8 * k) (drop_bit 8 v))" if "k < n" for k
      using Suc.prems [of "Suc k"] that by (simp add: drop_bit_drop_bit algebra_simps)
  qed
  moreover have "m i = ucast v" using Suc.prems [of 0] by simp
  ultimately show ?case by (auto intro!: bit_word_eqI simp: bit_simps)
qed simp

section \<open>Disjoint stores\<close>

definition covers :: "store \<Rightarrow> nat \<Rightarrow> bool" where
  "covers w a = (case w of (p, v, n) \<Rightarrow> p \<le> a \<and> a < p + n)"

fun apart :: "store \<Rightarrow> store \<Rightarrow> bool" where
  "apart (p, v, n) (q, w, k) \<longleftrightarrow> p + n \<le> q \<or> q + k \<le> p"

fun disjoint_stores :: "store list \<Rightarrow> bool" where
  "disjoint_stores [] = True"
| "disjoint_stores (w # ws) \<longleftrightarrow> list_all (apart w) ws \<and> disjoint_stores ws"

lemma put_all_simps [simp]:
  "put_all [] m = m"
  "put_all ((p, v, n) # ws) m = put_all ws (ane_fw_put_le n m p v)"
  by (simp_all add: put_all_def)

lemma put_all_other: "(\<forall>w\<in>set ws. \<not> covers w a) \<Longrightarrow> put_all ws m a = m a"
proof (induction ws arbitrary: m)
  case (Cons w ws)
  obtain p v n where w: "w = (p, v, n)" by (cases w)
  then have "ane_fw_put_le n m p v a = m a" using Cons.prems by (auto simp: covers_def put_le_apply)
  then show ?case using Cons w by simp
qed simp

lemma put_all_at:
  assumes "disjoint_stores ws" "(p, v, n) \<in> set ws" "k < n"
  shows "put_all ws m (p + k) = ucast (drop_bit (8 * k) v)"
  using assms
proof (induction ws arbitrary: m)
  case (Cons w ws)
  show ?case
  proof (cases "w = (p, v, n)")
    case True
    then have "\<forall>w\<in>set ws. \<not> covers w (p + k)"
      using Cons.prems by (fastforce simp: list_all_iff covers_def split: prod.splits)
    then show ?thesis using True Cons.prems by (simp add: put_all_other put_le_apply)
  next
    case False
    then show ?thesis using Cons by (cases w) auto
  qed
qed simp

text \<open>Reading back a field that was stored.\<close>

lemma put_all_read:
  "disjoint_stores ws \<Longrightarrow> (p, v, n) \<in> set ws \<Longrightarrow> le_val n (put_all ws m) p = take_bit (8 * n) v"
  by (rule le_val_bytes) (simp add: put_all_at)


section \<open>The patched image\<close>

text \<open>The pinned images keep their patch fields apart.\<close>

definition pinned :: "ane_fw_image \<Rightarrow> bool" where
  "pinned fw \<longleftrightarrow> fw = ane_fw_selene \<or> fw = ane_fw_bia"

lemma disjoint_stores_append:
  "disjoint_stores (xs @ ys) \<longleftrightarrow> disjoint_stores xs \<and> disjoint_stores ys \<and> (\<forall>x\<in>set xs. list_all (apart x) ys)"
  by (induction xs) (auto simp: list_all_iff)

lemma tunable_block_disjoint:
  "disjoint_stores (concat (map (\<lambda>i. tunable_stores blk i (r i)) [a..<b]))"
proof (induction "b - a" arbitrary: a)
  case (Suc n)
  then have "[a..<b] = a # [Suc a..<b]" by (simp add: upt_conv_Cons)
  moreover have "disjoint_stores (concat (map (\<lambda>i. tunable_stores blk i (r i)) [Suc a..<b]))"
    using Suc by simp
  ultimately show ?case
    by (auto simp: disjoint_stores_append tunable_stores_def list_all_iff)
qed simp

lemma tunable_block_range:
  "(q, v, k) \<in> set (concat (map (\<lambda>i. tunable_stores blk i (r i)) [0..<n])) \<Longrightarrow> blk + 8 \<le> q \<and> q + k \<le> blk + 8 + 20 * n"
  by (auto simp: tunable_stores_def)

lemma ex_less_5: "(\<exists>i<(5::nat). P i) \<longleftrightarrow> P 0 \<or> P 1 \<or> P 2 \<or> P 3 \<or> P 4"
  by (auto simp: less_Suc_eq numeral_eq_Suc)

lemma all_less_5: "(\<forall>i<(5::nat). P i) \<longleftrightarrow> P 0 \<and> P 1 \<and> P 2 \<and> P 3 \<and> P 4"
  by (auto simp: less_Suc_eq numeral_eq_Suc)

lemma pinned_layout:
  assumes "pinned fw"
  obtains b where "0xba688 \<le> b" "b \<le> 0xca848" "unat (rtk_vm fw ! 0) = b" "unat (rtk_vm fw ! 1) = b + 0x16b"
    "unat (rtk_vm fw ! 2) = b + 0x177" "unat (rtk_vm fw ! 3) = b + 0x183" "unat (rtk_vm fw ! 4) = b + 0x193"
    "unat (tunables_vm fw) = b + 0x12530"
proof (cases "fw = ane_fw_selene")
  case True
  then show ?thesis by (intro that [of "0xca848"]) (simp_all add: ane_fw_selene_def)
next
  case False
  then show ?thesis using assms by (intro that [of "0xba688"]) (simp_all add: pinned_def ane_fw_bia_def)
qed

lemma rtk_lens: "snd (rtk_rec ! 0) = 8" "snd (rtk_rec ! 1) = 4" "snd (rtk_rec ! 2) = 4" "snd (rtk_rec ! 3) = 8" "snd (rtk_rec ! 4) = 8"
  by (simp_all add: rtk_rec_def)

lemma patch_stores_cases:
  assumes "(q, v, k) \<in> set (patch_stores fw t p key)"
  shows "(q = 0x423c \<and> k = 8) \<or>
      (\<exists>i<5. q = unat (rtk_vm fw ! i) + 8 \<and> k = snd (rtk_rec ! i)) \<or>
      (q = unat (tunables_vm fw) + 3 \<and> k = 1) \<or> (q = unat (tunables_vm fw) + 4 \<and> k = 4) \<or>
      (unat (tunables_vm fw) + 8 \<le> q \<and> q + k \<le> unat (tunables_vm fw) + 8 + 20 * tun_n t)"
proof -
  let ?blk = "unat (tunables_vm fw)"
  have "(q = ANE_FW_DATA_BASE_VM \<and> k = 8) \<or>
      (\<exists>i<5. q = unat (rtk_vm fw ! i) + 8 \<and> k = snd (rtk_rec ! i)) \<or>
      (q = ?blk + 3 \<and> k = 1) \<or> (q = ?blk + 4 \<and> k = 4) \<or>
      (q, v, k) \<in> set (concat (map (\<lambda>i. tunable_stores ?blk i (tun_r t ! i)) [0..<tun_n t]))"
    using assms by (simp only: patch_stores_def Let_def set_append set_map set_upt Un_iff) auto
  then show ?thesis
    using tunable_block_range [of q v k ?blk "\<lambda>i. tun_r t ! i" "tun_n t"] by (auto simp: ANE_FW_DATA_BASE_VM_def)
qed

lemma patch_stores_range:
  assumes "pinned fw" "tun_n t \<le> ANE_FW_TUNABLES_MAX" "(q, v, k) \<in> set (patch_stores fw t p key)"
  shows "q + k \<le> 0x500000"
    "\<And>i a. i < 5 \<Longrightarrow> unat (rtk_vm fw ! i) \<le> a \<Longrightarrow> a < unat (rtk_vm fw ! i) + 8 \<Longrightarrow> \<not> (q \<le> a \<and> a < q + k)"
    "\<And>a. unat (tunables_vm fw) \<le> a \<Longrightarrow> a < unat (tunables_vm fw) + 3 \<Longrightarrow> \<not> (q \<le> a \<and> a < q + k)"
proof -
  obtain b where b: "0xba688 \<le> b" "b \<le> 0xca848" "unat (rtk_vm fw ! 0) = b" "unat (rtk_vm fw ! 1) = b + 0x16b"
    "unat (rtk_vm fw ! 2) = b + 0x177" "unat (rtk_vm fw ! 3) = b + 0x183" "unat (rtk_vm fw ! 4) = b + 0x193"
    "unat (tunables_vm fw) = b + 0x12530" using pinned_layout [OF assms(1)] .
  note c = patch_stores_cases [OF assms(3), unfolded ex_less_5 rtk_lens b]
  have n: "tun_n t \<le> 36" using assms(2) by (simp add: fw_consts)
  show "q + k \<le> 0x500000" using c n b(1,2) by linarith
  show "\<not> (q \<le> a \<and> a < q + k)" if "unat (tunables_vm fw) \<le> a" "a < unat (tunables_vm fw) + 3" for a
    using that c n b(1,2) unfolding b by linarith
  have "\<forall>i<5. unat (rtk_vm fw ! i) \<le> a \<and> a < unat (rtk_vm fw ! i) + 8 \<longrightarrow> \<not> (q \<le> a \<and> a < q + k)" for a
    unfolding all_less_5 b using c n b(1,2) by linarith
  then show "\<not> (q \<le> a \<and> a < q + k)" if "i < 5" "unat (rtk_vm fw ! i) \<le> a" "a < unat (rtk_vm fw ! i) + 8" for i a
    using that by blast
qed

lemma patch_stores_disjoint:
  assumes "pinned fw"
  shows "disjoint_stores (patch_stores fw t p key)"
proof -
  obtain b where b: "0xba688 \<le> b" "b \<le> 0xca848" "unat (rtk_vm fw ! 0) = b" "unat (rtk_vm fw ! 1) = b + 0x16b"
    "unat (rtk_vm fw ! 2) = b + 0x177" "unat (rtk_vm fw ! 3) = b + 0x183" "unat (rtk_vm fw ! 4) = b + 0x193"
    "unat (tunables_vm fw) = b + 0x12530" using pinned_layout [OF assms(1)] .
  let ?blk = "unat (tunables_vm fw)"
  let ?T = "concat (map (\<lambda>i. tunable_stores ?blk i (tun_r t ! i)) [0..<tun_n t])"
  define A where "A = [(ANE_FW_DATA_BASE_VM, exec_base p + seg_vmaddr (fw_segs fw ! 1), 8)] @
     map (\<lambda>i. (unat (rtk_vm fw ! i) + 8, rtk_vals p ! i, snd (rtk_rec ! i))) [0..<5] @
     [(?blk + 3, of_nat (tun_n t), 1), (?blk + 4, ucast key, 4 :: nat)]"
  have upt: "[0..<5] = [0, 1, 2, 3, 4 :: nat]" by (simp add: upt_rec)
  have "0x5000 \<le> b" using b(1) by simp
  then have A: "disjoint_stores A" "list_all (\<lambda>(q, v, k). q + k \<le> ?blk + 8) A"
    unfolding A_def upt by (simp_all add: b b(4) [simplified] rtk_lens [simplified] ANE_FW_DATA_BASE_VM_def)
  have "apart x y" if "x \<in> set A" "y \<in> set ?T" for x y
    using A(2) that tunable_block_range [of "fst y" "fst (snd y)" "snd (snd y)" ?blk "\<lambda>i. tun_r t ! i" "tun_n t"]
    by (cases x; cases y) (fastforce simp: list_all_iff)
  with A(1) have "disjoint_stores (A @ ?T)"
    by (simp only: disjoint_stores_append tunable_block_disjoint list_all_iff) blast
  then show ?thesis by (simp add: patch_stores_def Let_def A_def)
qed


lemma take_bit_ucast_u32: "take_bit 32 (ucast (x :: u32) :: u64) = ucast x"
  by (rule bit_word_eqI) (auto simp: bit_simps dest: bit_imp_le_length)

lemma ucast_ucast_u32: "ucast (ucast (x :: u32) :: u64) = x"
  by (rule bit_word_eqI) (auto simp: bit_simps)

lemma take_bit_ucast_u8: "take_bit 32 (ucast (x :: u8) :: u64) = ucast x"
  by (rule bit_word_eqI) (auto simp: bit_simps dest: bit_imp_le_length)

lemma take_bit_64_u64: "take_bit 64 (x :: u64) = x"
  by (rule bit_word_eqI) (auto simp: bit_simps)

lemmas take_bit_fields = take_bit_ucast_u32 take_bit_ucast_u8 take_bit_64_u64

definition tunable_at :: "bytes \<Rightarrow> nat \<Rightarrow> nat \<Rightarrow> ane_asc_tunable" where
  "tunable_at m blk i =
     \<lparr>tun_off = ucast (le_val 4 m (blk + 8 + 20 * i)), tun_mask = le_val 8 m (blk + 12 + 20 * i),
      tun_val = le_val 8 m (blk + 20 + 20 * i)\<rparr>"

text \<open>The fields of a patched image, read the way the firmware reads them.\<close>

definition patched :: "bytes \<Rightarrow> ane_fw_image \<Rightarrow> ane_asc_tunables \<Rightarrow> ane_fw_boot_patch \<Rightarrow> u8 \<Rightarrow> bool" where
  "patched m fw t p key \<longleftrightarrow> (let blk = unat (tunables_vm fw) in
     le_val 8 m ANE_FW_DATA_BASE_VM = exec_base p + seg_vmaddr (fw_segs fw ! 1) \<and>
     (\<forall>i<5. ucast (le_val 4 m (unat (rtk_vm fw ! i))) = fst (rtk_rec ! i) \<and>
            le_val 4 m (unat (rtk_vm fw ! i) + 4) = of_nat (snd (rtk_rec ! i)) \<and>
            le_val (snd (rtk_rec ! i)) m (unat (rtk_vm fw ! i) + 8) = rtk_vals p ! i) \<and>
     [m blk, m (blk + 1), m (blk + 2), m (blk + 3)] = [1, 3, 0x24, of_nat (tun_n t)] \<and>
     le_val 4 m (blk + 4) = ucast key \<and>
     map (tunable_at m blk) [0..<tun_n t] = map (\<lambda>i. tun_r t ! i) [0..<tun_n t])"

lemma rtk_value_width: "i < 5 \<Longrightarrow> take_bit (8 * snd (rtk_rec ! i)) (rtk_vals p ! i) = rtk_vals p ! i"
proof -
  have "\<forall>i<5. take_bit (8 * snd (rtk_rec ! i)) (rtk_vals p ! i) = rtk_vals p ! i"
    unfolding all_less_5 by (simp add: rtk_rec_def rtk_vals_def take_bit_fields)
  then show "i < 5 \<Longrightarrow> ?thesis" by blast
qed

lemma put_all_keeps:
  "(\<And>q v k a. (q, v, k) \<in> set ws \<Longrightarrow> i \<le> a \<Longrightarrow> a < i + n \<Longrightarrow> \<not> (q \<le> a \<and> a < q + k)) \<Longrightarrow>
   le_val n (put_all ws m) i = le_val n m i"
  by (rule le_val_cong, rule put_all_other) (fastforce simp: covers_def)

lemma patches_written:
  assumes "pinned fw" "tun_n t \<le> ANE_FW_TUNABLES_MAX"
    "rtk_records_ok m fw" "tunables_block_unset m fw"
  shows "patched (put_all (patch_stores fw t p key) m) fw t p key"
proof -
  let ?W = "patch_stores fw t p key" and ?blk = "unat (tunables_vm fw)"
  let ?m = "put_all ?W m"
  note rd = put_all_read [OF patch_stores_disjoint [OF assms(1)], of _ _ _ t p key m]
  note rng = patch_stores_range [OF assms(1,2)]
  have "le_val 8 ?m ANE_FW_DATA_BASE_VM = exec_base p + seg_vmaddr (fw_segs fw ! 1)"
    using rd [of ANE_FW_DATA_BASE_VM "exec_base p + seg_vmaddr (fw_segs fw ! 1)" 8]
    by (simp add: patch_stores_def Let_def take_bit_fields)
  moreover have "le_val 4 ?m (unat (rtk_vm fw ! i)) = le_val 4 m (unat (rtk_vm fw ! i)) \<and>
      le_val 4 ?m (unat (rtk_vm fw ! i) + 4) = le_val 4 m (unat (rtk_vm fw ! i) + 4) \<and>
      le_val (snd (rtk_rec ! i)) ?m (unat (rtk_vm fw ! i) + 8) = rtk_vals p ! i" if i: "i < 5" for i
  proof (intro conjI)
    show "le_val 4 ?m (unat (rtk_vm fw ! i)) = le_val 4 m (unat (rtk_vm fw ! i))"
      by (rule put_all_keeps) (use rng(2) i in auto)
    show "le_val 4 ?m (unat (rtk_vm fw ! i) + 4) = le_val 4 m (unat (rtk_vm fw ! i) + 4)"
      by (rule put_all_keeps) (use rng(2) i in auto)
    have "(unat (rtk_vm fw ! i) + 8, rtk_vals p ! i, snd (rtk_rec ! i)) \<in> set ?W"
      using i by (auto simp: patch_stores_def Let_def)
    from rd [OF this] show "le_val (snd (rtk_rec ! i)) ?m (unat (rtk_vm fw ! i) + 8) = rtk_vals p ! i"
      by (simp add: rtk_value_width [OF i])
  qed
  moreover have "?m a = m a" if "?blk \<le> a" "a < ?blk + 3" for a
    by (rule put_all_other) (use rng(3) that in \<open>fastforce simp: covers_def\<close>)
  moreover have "?m (?blk + 3) = of_nat (tun_n t)"
  proof -
    have "(?blk + 3, of_nat (tun_n t), 1) \<in> set ?W" by (simp add: patch_stores_def Let_def)
    from put_all_at [OF patch_stores_disjoint [OF assms(1)] this, of 0 m]
    show ?thesis using assms(2) by (simp add: fw_consts unsigned_of_nat take_bit_nat_eq_self)
  qed
  moreover have "le_val 4 ?m (?blk + 4) = ucast key"
    using rd [of "?blk + 4" "ucast key" 4] by (simp add: patch_stores_def Let_def take_bit_fields)
  moreover have "tunable_at ?m ?blk i = tun_r t ! i" if "i < tun_n t" for i
  proof -
    have "set (tunable_stores ?blk i (tun_r t ! i)) \<subseteq> set ?W" using that by (auto simp: patch_stores_def Let_def)
    then show ?thesis
      using rd [of "?blk + 8 + 20 * i" "ucast (tun_off (tun_r t ! i))" 4] rd [of "?blk + 12 + 20 * i" "tun_mask (tun_r t ! i)" 8]
        rd [of "?blk + 20 + 20 * i" "tun_val (tun_r t ! i)" 8]
      by (simp add: tunable_stores_def tunable_at_def take_bit_fields ucast_ucast_u32)
  qed
  moreover have "m ?blk = 1 \<and> m (?blk + 1) = 3 \<and> m (?blk + 2) = 0x24"
    using assms(4) by (simp add: tunables_block_unset_def tunables_unset_def fw_consts upt_rec)
  moreover have "\<forall>i<5. ucast (le_val 4 m (unat (rtk_vm fw ! i))) = fst (rtk_rec ! i) \<and>
      le_val 4 m (unat (rtk_vm fw ! i) + 4) = of_nat (snd (rtk_rec ! i))"
    using assms(3) unfolding rtk_records_ok_def list_all_iff by (simp only: set_upt atLeastLessThan_iff) simp
  ultimately show ?thesis by (simp add: patched_def Let_def)
qed

lemma find_first: "find P xs = Some x \<Longrightarrow> \<exists>pre post. xs = pre @ x # post \<and> P x \<and> (\<forall>y\<in>set pre. \<not> P y)"
proof (induction xs)
  case (Cons y ys)
  show ?case
  proof (cases "P y")
    case True
    then show ?thesis using Cons.prems by (intro exI [of _ "[]"] exI [of _ ys]) auto
  next
    case False
    then obtain pre post where "ys = pre @ x # post" "P x" "\<forall>y\<in>set pre. \<not> P y" using Cons by auto
    then show ?thesis using False by (intro exI [of _ "y # pre"] exI [of _ post]) auto
  qed
qed simp


section \<open>The validator stays in the blob\<close>

lemma le32_Some: "i + 4 \<le> unat sz \<Longrightarrow> get_unaligned_le32 m sz i = Some (ucast (le_val 4 m i))"
  by (simp add: get_unaligned_le32_def)

lemma le64_Some: "i + 8 \<le> unat sz \<Longrightarrow> get_unaligned_le64 m sz i = Some (le_val 8 m i)"
  by (simp add: get_unaligned_le64_def)

lemma unat_add_u32: "unat (x :: u32) + unat y < 4294967296 \<Longrightarrow> unat (x + y) = unat x + unat y"
  by (simp add: unat_plus_if')

lemma thread_step:
  fixes off cmdsize p count :: u32
  assumes e: "unat off + unat cmdsize \<le> 0x980" and p: "unat off \<le> unat p" and g: "p + 8 \<le> off + cmdsize" "unat p \<le> 0x988"
    and c: "\<not> count > (cmdsize - (p - off) - 8) div 4"
  shows "unat p + 8 \<le> unat off + unat cmdsize" "unat (p + (8 + count * 4)) = unat p + 8 + 4 * unat count"
    "unat p + 8 + 4 * unat count \<le> unat off + unat cmdsize"
proof -
  have E: "unat (off + cmdsize) = unat off + unat cmdsize" using e by (intro unat_add_u32) simp
  have p8: "unat (p + 8) = unat p + 8" using g(2) by (simp add: unat_add_u32)
  show g': "unat p + 8 \<le> unat off + unat cmdsize" using g(1) by (simp add: word_le_nat_alt E p8)
  have "unat (p - off) = unat p - unat off" using p by (simp add: unat_sub_exact word_le_nat_alt)
  moreover from this have "unat (cmdsize - (p - off)) = unat cmdsize - (unat p - unat off)"
    using g' p by (subst unat_sub_exact) (auto simp: word_le_nat_alt)
  moreover from this have "unat (cmdsize - (p - off) - 8) = unat cmdsize - (unat p - unat off) - 8"
    using g' p by (subst unat_sub_exact) (auto simp: word_le_nat_alt)
  ultimately have "unat count \<le> (unat cmdsize - (unat p - unat off) - 8) div 4"
    using c by (simp add: not_less word_le_nat_alt unat_div)
  then show c': "unat p + 8 + 4 * unat count \<le> unat off + unat cmdsize" using g' p by linarith
  then have "4 * unat count \<le> 0x980" using e by linarith
  then have "unat (count * 4) = 4 * unat count" by (simp add: unat_mult_lem [THEN iffD1])
  then show "unat (p + (8 + count * 4)) = unat p + 8 + 4 * unat count"
    using c' e by (simp add: unat_add_u32)
qed

lemma thread_loop_total:
  assumes "unat off + unat cmdsize \<le> 0x980" "unat off \<le> unat p" "unat p \<le> unat off + unat cmdsize" "0x1000 \<le> unat sz"
    "unat off + unat cmdsize < unat p + 8 * n"
  shows "thread_loop n blob sz off cmdsize p entry \<noteq> None"
  using assms
proof (induction n arbitrary: p entry)
  case 0
  then show ?case by simp
next
  case (Suc n)
  show ?case
  proof (cases "p + 8 \<le> off + cmdsize")
    case True
    define count where "count = (ucast (le_val 4 blob (unat p + 4)) :: u32)"
    have rd: "get_unaligned_le32 blob sz (unat p) = Some (ucast (le_val 4 blob (unat p)))"
      "get_unaligned_le32 blob sz (unat p + 4) = Some count"
      using Suc.prems by (simp_all add: le32_Some count_def)
    show ?thesis
    proof (cases "count > (cmdsize - (p - off) - 8) div 4")
      case False
      have "unat p \<le> 0x988" using Suc.prems by simp
      note st = thread_step [OF Suc.prems(1,2) True this False]
      have next_p: "thread_loop n blob sz off cmdsize (p + (8 + count * 4)) e \<noteq> None" for e
        by (rule Suc.IH) (use Suc.prems st in simp_all)
      have "get_unaligned_le64 blob sz (264 + unat p) \<noteq> None"
      proof -
        have "unat p \<le> 0x988" "0x1000 \<le> unat sz" using Suc.prems by auto
        then show ?thesis by (simp add: get_unaligned_le64_def)
      qed
      then show ?thesis using next_p True rd by (auto simp: not_less)
    qed (use True rd in simp)
  qed simp
qed

lemma thread_loop_wrapped:
  fixes off cmdsize :: u32
  assumes "unat off \<le> 0x980" "0x980 < unat off + unat cmdsize" "unat (off + cmdsize) \<le> 0x980"
  shows "thread_loop (Suc n) blob sz off cmdsize (off + 8) entry = Some (Inr entry)"
proof -
  have "unat (off + 8) = unat off + 8" "unat (off + 8 + 8) = unat off + 16"
    using assms(1) by (simp_all add: unat_add_u32)
  moreover have "unat (off + cmdsize) < unat off"
    using assms unat_lt_2p32 [of cmdsize] by (simp add: unat_plus_if' split: if_splits)
  ultimately have "\<not> off + 8 + 8 \<le> off + cmdsize" by (simp add: word_le_nat_alt)
  then show ?thesis by simp
qed

definition room :: "nat \<Rightarrow> lc_state \<Rightarrow> bool" where
  "room n s \<longleftrightarrow> unat (lc_off s) \<le> 0x980 \<and>
     (case lc_out s of None \<Rightarrow> True | Some l \<Rightarrow> lc_nsegs s + n \<le> length l)"

lemma seg_cmd_total:
  assumes "unat off \<le> 0x980" "0x1000 \<le> unat sz"
  shows "seg_cmd blob sz fw off \<noteq> None"
  using assms by (auto simp: seg_cmd_def le64_Some split: option.splits)

lemma lc_turn_total:
  assumes r: "room (Suc n) s" and sz: "0x1000 \<le> unat sz"
  shows "\<exists>r. lc_turn blob sz fw 0x960 s = Some r \<and> (\<forall>s'. r = Inr s' \<longrightarrow> room n s')"
proof -
  let ?off = "lc_off s"
  define cmd where "cmd = (ucast (le_val 4 blob (unat ?off)) :: u32)"
  define cmdsize where "cmdsize = (ucast (le_val 4 blob (unat ?off + 4)) :: u32)"
  have o: "unat ?off \<le> 0x980" using r by (simp add: room_def)
  have rd: "get_unaligned_le32 blob sz (unat ?off) = Some cmd" "get_unaligned_le32 blob sz (unat ?off + 4) = Some cmdsize"
    using o sz by (simp_all add: le32_Some cmd_def cmdsize_def)
  show ?thesis
  proof (cases "?off + 8 > 32 + 0x960 \<or> ucast (?off + 8) > sz \<or>
      cmdsize < 8 \<or> ?off + cmdsize > 32 + 0x960 \<or> ucast (?off + cmdsize) > sz")
    case True
    then show ?thesis by (auto simp: lc_turn_def Let_def rd)
  next
    case False
    then have nx: "unat (?off + cmdsize) \<le> 0x980" by (simp add: not_less word_le_nat_alt)
    have c8: "8 \<le> unat cmdsize" using False by (simp add: not_less word_le_nat_alt)
    have th: "thread_loop thread_fuel blob sz ?off cmdsize (?off + 8) e \<noteq> None" for e
    proof (cases "unat ?off + unat cmdsize \<le> 0x980")
      case True
      have "unat (?off + 8) = unat ?off + 8" using o by (simp add: unat_add_u32)
      then show ?thesis using True o sz c8 by (intro thread_loop_total) (simp_all add: thread_fuel_def)
    next
      case False
      then show ?thesis using thread_loop_wrapped [of ?off cmdsize 304 blob sz e] o nx by (simp add: thread_fuel_def)
    qed
    from seg_cmd_total [OF o sz] obtain g where g: "seg_cmd blob sz fw ?off = Some g" by blast
    from th obtain e where e: "thread_loop thread_fuel blob sz ?off cmdsize (?off + 8) (lc_entry s) = Some e" by blast
    show ?thesis
      using False rd nx r g e
      by (auto simp: lc_turn_def Let_def room_def put_seg_def split: sum.splits option.splits)
  qed
qed

lemma lc_loop_total:
  assumes "room n s" "0x1000 \<le> unat sz"
  shows "lc_loop n blob sz fw 0x960 s \<noteq> None"
  using assms
proof (induction n arbitrary: s)
  case (Suc n)
  from lc_turn_total [OF Suc.prems, of blob fw] obtain r where
    "lc_turn blob sz fw 0x960 s = Some r" "\<forall>s'. r = Inr s' \<longrightarrow> room n s'" by blast
  then show ?case using Suc.IH Suc.prems(2) by (auto split: sum.splits)
qed simp


end
