(* ===== verification/Ane_Fw_Runs.thy ===== *)
theory Ane_Fw_Runs
  imports Ane_Fw
begin

text \<open>
  Concrete blobs and images: the firmware properties applied to them, and two blobs that show what
  the validator's walk alone lets through.
\<close>

section \<open>What the hash pin hides\<close>

text \<open>Blobs given by the fields of their load commands.\<close>

definition ex_header :: "store list" where
  "ex_header = [(0, 0xfeedfacf, 4), (4, 0x0100000c, 4), (12, 5, 4), (16, 5, 4), (20, 0x960, 4), (24, 1, 4)]"

definition ex_text :: "nat \<Rightarrow> store list" where
  "ex_text off = [(off, 0x19, 4), (off + 4, 72, 4), (off + 8, 0x545845545f5f, 8), (off + 16, 0, 8), (off + 24, 0, 8),
     (off + 32, 0x0c4000, 8), (off + 40, 0x4000, 8), (off + 48, 0x0c4000, 8)]"

definition ex_data :: "nat \<Rightarrow> store list" where
  "ex_data off = [(off, 0x19, 4), (off + 4, 72, 4), (off + 8, 0x415441445f5f, 8), (off + 16, 0, 8), (off + 24, 0x0c4000, 8),
     (off + 32, 0x438000, 8), (off + 40, 0x0c8000, 8), (off + 48, 0x3e8000, 8)]"

definition ex_thread :: "nat \<Rightarrow> store list" where
  "ex_thread off = [(off, 5, 4), (off + 4, 288, 4), (off + 8, 6, 4), (off + 12, 68, 4), (off + 272, 0, 8)]"

text \<open>The first command of \<open>ex_wrap\<close> claims \<^verbatim>\<open>0xfffffff8\<close> bytes; the walk goes back into the header and
  on from there.\<close>

definition ex_wrap :: "store list" where
  "ex_wrap = ex_header @ [(28, 16, 4), (32, 2, 4), (36, 0xfffffff8, 4)] @ ex_text 40 @ ex_data 112 @ ex_thread 184"

definition ex_three :: "store list" where
  "ex_three = ex_header @ ex_text 32 @ ex_text 104 @ ex_text 176"

abbreviation blob_of :: "store list \<Rightarrow> bytes" where
  "blob_of ws \<equiv> put_all ws (\<lambda>_. 0)"

lemma blob_fields:
  assumes "disjoint_stores ws" "list_all (\<lambda>(p, v, n). take_bit (8 * n) v = v) ws"
  shows "list_all (\<lambda>(p, v, n). le_val n (blob_of ws) p = v \<and> map (blob_of ws) [p..<p + n] = map (\<lambda>k. ucast (drop_bit (8 * k) v)) [0..<n]) ws"
proof -
  have "le_val n (blob_of ws) p = v \<and> map (blob_of ws) [p..<p + n] = map (\<lambda>k. ucast (drop_bit (8 * k) v)) [0..<n]"
    if "(p, v, n) \<in> set ws" for p v n
  proof
    show "le_val n (blob_of ws) p = v"
      using put_all_read [OF assms(1) that, of "\<lambda>_. 0"] assms(2) that by (auto simp: list_all_iff)
    show "map (blob_of ws) [p..<p + n] = map (\<lambda>k. ucast (drop_bit (8 * k) v)) [0..<n]"
      by (rule nth_equalityI) (auto simp: put_all_at [OF assms(1) that])
  qed
  then show ?thesis by (auto simp: list_all_iff)
qed

lemmas ex_stores = ex_wrap_def ex_three_def ex_header_def ex_text_def ex_data_def ex_thread_def

lemma ex_wrap_fields:
  "list_all (\<lambda>(p, v, n). le_val n (blob_of ex_wrap) p = v \<and>
     map (blob_of ex_wrap) [p..<p + n] = map (\<lambda>k. ucast (drop_bit (8 * k) v)) [0..<n]) ex_wrap"
  by (rule blob_fields) code_simp+

lemma ex_three_fields:
  "list_all (\<lambda>(p, v, n). le_val n (blob_of ex_three) p = v \<and>
     map (blob_of ex_three) [p..<p + n] = map (\<lambda>k. ucast (drop_bit (8 * k) v)) [0..<n]) ex_three"
  by (rule blob_fields) code_simp+

lemma upt_16: "[i..<i + 16] = [i..<i + 8] @ [i + 8..<i + 8 + (8 :: nat)]"
  by (metis (no_types) add.assoc le_add1 numeral_Bit0 upt_add_eq_append)

lemma seg_cmd_eval:
  assumes "unat off \<le> 0x980" "g = ane_fw_selene"
    "le_val 8 b (unat off + 24) = seg_vmaddr s" "le_val 8 b (unat off + 32) = seg_vmsize s"
    "le_val 8 b (unat off + 40) = seg_fileoff s" "le_val 8 b (unat off + 48) = seg_filesize s"
    "map b [unat off + 8..<unat off + 24] = name16 (seg_name s)" "s \<in> set (fw_segs ane_fw_selene)"
  shows "seg_cmd b 0x4c5b28 g off = Some (Inr s)"
proof -
  have "find (\<lambda>x. seg_vmaddr s = seg_vmaddr x \<and> seg_vmsize s = seg_vmsize x \<and> seg_fileoff s = seg_fileoff x \<and>
      seg_filesize s = seg_filesize x \<and> name16 (seg_name s) = name16 (seg_name x)) (fw_segs ane_fw_selene) = Some s"
    using assms(8) by (auto simp: ane_fw_selene_def)
  moreover have "seg_fileoff s \<le> 0x4c5b28" "seg_filesize s \<le> 0x4c5b28 - seg_fileoff s" "seg_filesize s \<le> seg_vmsize s"
    using assms(8) by (auto simp: ane_fw_selene_def)
  ultimately show ?thesis
    using assms(1-7) by (simp add: seg_cmd_def le64_Some not_less)
qed

lemma ex_names:
  "name16 ''__TEXT'' = map (\<lambda>k. ucast (drop_bit (8 * k) (0x545845545f5f :: u64))) [0..<8] @ map (\<lambda>k. ucast (drop_bit (8 * k) (0 :: u64))) [0..<8]"
  "name16 ''__DATA'' = map (\<lambda>k. ucast (drop_bit (8 * k) (0x415441445f5f :: u64))) [0..<8] @ map (\<lambda>k. ucast (drop_bit (8 * k) (0 :: u64))) [0..<8]"
  by code_simp+

lemma ex_segs: "fw_segs ane_fw_selene = [
    \<lparr>seg_vmaddr = 0, seg_vmsize = 0xc4000, seg_fileoff = 0x4000, seg_filesize = 0xc4000, seg_name = ''__TEXT''\<rparr>,
    \<lparr>seg_vmaddr = 0xc4000, seg_vmsize = 0x438000, seg_fileoff = 0xc8000, seg_filesize = 0x3e8000, seg_name = ''__DATA''\<rparr>]"
  by (simp add: ane_fw_selene_def)

lemma lc_turn_seg:
  assumes "unat (lc_off s) + 72 \<le> 0x980" "le_val 4 b (unat (lc_off s)) = 0x19" "le_val 4 b (unat (lc_off s) + 4) = 72"
    "seg_cmd b 0x4c5b28 fw (lc_off s) = Some (Inr g)"
  shows "lc_turn b 0x4c5b28 fw 0x960 s = (case put_seg (lc_out s) (lc_nsegs s) g of None \<Rightarrow> None
     | Some out \<Rightarrow> Some (Inr (s\<lparr>lc_off := lc_off s + 72, lc_nsegs := lc_nsegs s + 1, lc_out := out\<rparr>)))"
proof -
  have u: "unat (lc_off s + 8) = unat (lc_off s) + 8" "unat (lc_off s + 72) = unat (lc_off s) + 72"
    using assms(1) by (simp_all add: unat_add_u32)
  then have "lc_off s + 8 \<le> 0x980" "ucast (lc_off s + 8) \<le> (0x4c5b28 :: u64)" "lc_off s + 72 \<le> 0x980" "ucast (lc_off s + 72) \<le> (0x4c5b28 :: u64)"
    using assms(1) by (simp_all add: word_le_nat_alt)
  then show ?thesis
    using assms by (simp add: lc_turn_def Let_def le32_Some not_less LC_SEGMENT_64_def split: option.splits)
qed

definition text_seg :: ane_fw_seg where "text_seg = fw_segs ane_fw_selene ! 0"
definition data_seg :: ane_fw_seg where "data_seg = fw_segs ane_fw_selene ! 1"

lemma ex_three_turn:
  assumes "off \<in> {32, 104, 176}" "lc_off s = of_nat off"
  shows "lc_turn (blob_of ex_three) 0x4c5b28 ane_fw_selene 0x960 s = (case put_seg (lc_out s) (lc_nsegs s) text_seg of None \<Rightarrow> None
     | Some out \<Rightarrow> Some (Inr (s\<lparr>lc_off := lc_off s + 72, lc_nsegs := lc_nsegs s + 1, lc_out := out\<rparr>)))"
proof (rule lc_turn_seg)
  have o: "unat (lc_off s) = off" using assms by auto
  then show "unat (lc_off s) + 72 \<le> 0x980" using assms(1) by auto
  have F: "(off, 0x19, 4) \<in> set ex_three" "(off + 4, 72, 4) \<in> set ex_three" "(off + 8, 0x545845545f5f, 8) \<in> set ex_three"
    "(off + 16, 0, 8) \<in> set ex_three" "(off + 24, 0, 8) \<in> set ex_three" "(off + 32, 0x0c4000, 8) \<in> set ex_three"
    "(off + 40, 0x4000, 8) \<in> set ex_three" "(off + 48, 0x0c4000, 8) \<in> set ex_three"
    using assms(1) by (auto simp: ex_stores)
  note R = F [THEN ex_three_fields [unfolded list_all_iff, THEN bspec], simplified prod.case]
  show "le_val 4 (blob_of ex_three) (unat (lc_off s)) = 0x19" "le_val 4 (blob_of ex_three) (unat (lc_off s) + 4) = 72"
    using R(1,2) by (simp_all add: o)
  have "map (blob_of ex_three) [off + 8..<off + 24] = name16 ''__TEXT''"
    using R(3,4) upt_16 [of "off + 8"] by (simp only: ex_names) (simp add: add.commute)
  moreover have "off \<le> 0x980" using assms(1) by auto
  ultimately show "seg_cmd (blob_of ex_three) 0x4c5b28 ane_fw_selene (lc_off s) = Some (Inr text_seg)"
    using R(5-8) by (intro seg_cmd_eval) (simp_all add: o text_seg_def ex_segs)
qed


lemma header_eval:
  assumes "le_val 4 b 0 = 0xfeedfacf" "le_val 4 b 4 = 0x0100000c" "le_val 4 b 12 = 5" "le_val 4 b 16 = 5"
    "le_val 4 b 20 = 0x960" "le_val 4 b 24 = 1"
  shows "ane_fw_validate_blob b 0x4c5b28 ane_fw_selene (fw_sha256 ane_fw_selene) out =
    (case lc_loop 5 b 0x4c5b28 ane_fw_selene 0x960 \<lparr>lc_off = 32, lc_nsegs = 0, lc_entry = NOT 0, lc_out = out\<rparr> of
       None \<Rightarrow> None
     | Some (Inl e) \<Rightarrow> Some (Inl e)
     | Some (Inr s) \<Rightarrow>
         if lc_nsegs s \<noteq> 2 then Some (Inl ''segment count != 2'')
         else if lc_entry s \<noteq> 0 then Some (Inl ''entry pc != 0'')
         else Some (Inr (map_option (\<lambda>_. fw_segs ane_fw_selene) (lc_out s), lc_entry s)))"
proof -
  have "ucast (fw_image_size ane_fw_selene) = (0x4c5b28 :: u64)" "take 2 (fw_segs ane_fw_selene) = fw_segs ane_fw_selene"
    by (simp_all add: ane_fw_selene_def)
  then show ?thesis
    using assms by (simp add: ane_fw_validate_blob_def le32_Some MH_MAGIC_64_def CPU_TYPE_ARM64_def MH_PRELOAD_def
      ANE_FW_NCMDS_def ANE_FW_SIZEOF_CMDS_def ANE_FW_FLAGS_def ANE_FW_NSEGS_def ANE_FW_ENTRY_PC_def split: option.splits sum.splits)
qed

lemma ex_three_overrun:
  "ane_fw_validate_blob (blob_of ex_three) 0x4c5b28 ane_fw_selene (fw_sha256 ane_fw_selene) (Some [a, b]) = None"
proof -
  have "(0, 0xfeedfacf, 4) \<in> set ex_three" "(4, 0x0100000c, 4) \<in> set ex_three" "(12, 5, 4) \<in> set ex_three"
    "(16, 5, 4) \<in> set ex_three" "(20, 0x960, 4) \<in> set ex_three" "(24, 1, 4) \<in> set ex_three"
    by (simp_all add: ex_stores)
  note R = this [THEN ex_three_fields [unfolded list_all_iff, THEN bspec], simplified prod.case, THEN conjunct1]
  have five: "(5 :: nat) = Suc (Suc (Suc 2))" by simp
  have "lc_loop 5 (blob_of ex_three) 0x4c5b28 ane_fw_selene 0x960
      \<lparr>lc_off = 32, lc_nsegs = 0, lc_entry = NOT 0, lc_out = Some [a, b]\<rparr> = None"
    unfolding five lc_loop.simps by (simp add: ex_three_turn [of 32] ex_three_turn [of 104] ex_three_turn [of 176] put_seg_def)
  then show ?thesis by (simp only: header_eval [OF R] option.case)
qed

lemma ex_wrap_text:
  shows "seg_cmd (blob_of ex_wrap) 0x4c5b28 ane_fw_selene 40 = Some (Inr text_seg)"
    and "seg_cmd (blob_of ex_wrap) 0x4c5b28 ane_fw_selene 112 = Some (Inr data_seg)"
proof -
  have "(48, 0x545845545f5f, 8) \<in> set ex_wrap" "(56, 0, 8) \<in> set ex_wrap" "(64, 0, 8) \<in> set ex_wrap" "(72, 0x0c4000, 8) \<in> set ex_wrap"
    "(80, 0x4000, 8) \<in> set ex_wrap" "(88, 0x0c4000, 8) \<in> set ex_wrap"
    "(120, 0x415441445f5f, 8) \<in> set ex_wrap" "(128, 0, 8) \<in> set ex_wrap" "(136, 0x0c4000, 8) \<in> set ex_wrap"
    "(144, 0x438000, 8) \<in> set ex_wrap" "(152, 0x0c8000, 8) \<in> set ex_wrap" "(160, 0x3e8000, 8) \<in> set ex_wrap"
    by (simp_all add: ex_stores)
  note R = this [THEN ex_wrap_fields [unfolded list_all_iff, THEN bspec], unfolded prod.case]
  have "map (blob_of ex_wrap) [48..<64] = name16 ''__TEXT''" "map (blob_of ex_wrap) [120..<136] = name16 ''__DATA''"
    using R(1,2,7,8) upt_16 [of 48] upt_16 [of 120] unfolding ex_names by (simp_all del: upt_rec_numeral)
  then show "seg_cmd (blob_of ex_wrap) 0x4c5b28 ane_fw_selene 40 = Some (Inr text_seg)"
    "seg_cmd (blob_of ex_wrap) 0x4c5b28 ane_fw_selene 112 = Some (Inr data_seg)"
    using R(3-6,9-12) by (auto intro!: seg_cmd_eval simp: text_seg_def data_seg_def ex_segs simp del: upt_rec_numeral)
qed

lemma ex_wrap_accepted:
  "ane_fw_validate_blob (blob_of ex_wrap) 0x4c5b28 ane_fw_selene (fw_sha256 ane_fw_selene) None = Some (Inr (None, 0))"
proof -
  let ?b = "blob_of ex_wrap"
  have "(0, 0xfeedfacf, 4) \<in> set ex_wrap" "(4, 0x0100000c, 4) \<in> set ex_wrap" "(12, 5, 4) \<in> set ex_wrap"
    "(16, 5, 4) \<in> set ex_wrap" "(20, 0x960, 4) \<in> set ex_wrap" "(24, 1, 4) \<in> set ex_wrap"
    "(28, 16, 4) \<in> set ex_wrap" "(32, 2, 4) \<in> set ex_wrap" "(36, 0xfffffff8, 4) \<in> set ex_wrap"
    "(40, 0x19, 4) \<in> set ex_wrap" "(44, 72, 4) \<in> set ex_wrap" "(112, 0x19, 4) \<in> set ex_wrap" "(116, 72, 4) \<in> set ex_wrap"
    "(184, 5, 4) \<in> set ex_wrap" "(188, 288, 4) \<in> set ex_wrap" "(192, 6, 4) \<in> set ex_wrap" "(196, 68, 4) \<in> set ex_wrap"
    "(456, 0, 8) \<in> set ex_wrap"
    by (simp_all add: ex_stores)
  note R = this [THEN ex_wrap_fields [unfolded list_all_iff, THEN bspec], unfolded prod.case, THEN conjunct1]
  have five: "(5 :: nat) = Suc (Suc (Suc (Suc (Suc 0))))" by simp
  have turn: "lc_turn ?b 0x4c5b28 ane_fw_selene 0x960 \<lparr>lc_off = 32, lc_nsegs = n, lc_entry = e, lc_out = None\<rparr> =
      Some (Inr \<lparr>lc_off = 24, lc_nsegs = n, lc_entry = e, lc_out = None\<rparr>)"
    "lc_turn ?b 0x4c5b28 ane_fw_selene 0x960 \<lparr>lc_off = 24, lc_nsegs = n, lc_entry = e, lc_out = None\<rparr> =
      Some (Inr \<lparr>lc_off = 40, lc_nsegs = n, lc_entry = e, lc_out = None\<rparr>)" for n e
    using R by (simp_all add: lc_turn_def Let_def le32_Some LC_SEGMENT_64_def LC_UNIXTHREAD_def)
  have segs: "lc_turn ?b 0x4c5b28 ane_fw_selene 0x960 \<lparr>lc_off = 40, lc_nsegs = n, lc_entry = e, lc_out = None\<rparr> =
      Some (Inr \<lparr>lc_off = 112, lc_nsegs = n + 1, lc_entry = e, lc_out = None\<rparr>)"
    "lc_turn ?b 0x4c5b28 ane_fw_selene 0x960 \<lparr>lc_off = 112, lc_nsegs = n, lc_entry = e, lc_out = None\<rparr> =
      Some (Inr \<lparr>lc_off = 184, lc_nsegs = n + 1, lc_entry = e, lc_out = None\<rparr>)" for n e
    by (subst lc_turn_seg, use R ex_wrap_text in \<open>auto simp: put_seg_def\<close>)+
  have "thread_loop (Suc (Suc k)) ?b 0x4c5b28 184 288 192 e = Some (Inr 0)" for k e
    using R by (simp add: le32_Some le64_Some ARM_THREAD_STATE64_def)
  from this [of 303] have thread: "lc_turn ?b 0x4c5b28 ane_fw_selene 0x960 \<lparr>lc_off = 184, lc_nsegs = n, lc_entry = e, lc_out = None\<rparr> =
      Some (Inr \<lparr>lc_off = 472, lc_nsegs = n, lc_entry = 0, lc_out = None\<rparr>)" for n e
    using R by (simp add: lc_turn_def Let_def le32_Some LC_SEGMENT_64_def LC_UNIXTHREAD_def thread_fuel_def)
  have "lc_loop 5 ?b 0x4c5b28 ane_fw_selene 0x960 \<lparr>lc_off = 32, lc_nsegs = 0, lc_entry = NOT 0, lc_out = None\<rparr> =
      Some (Inr \<lparr>lc_off = 472, lc_nsegs = 2, lc_entry = 0, lc_out = None\<rparr>)"
    unfolding five lc_loop.simps by (simp add: turn segs thread)
  then show ?thesis by (simp add: header_eval [OF R(1-6)])
qed



text \<open>A staged image as the archive has it, and the values of a T6021.\<close>

definition ex_image :: "store list" where
  "ex_image = [(0x423c, 0, 8), (0xca848, 0x53544b47, 4), (0xca84c, 8, 4), (0xca9b3, 0x534f435f, 4), (0xca9b7, 4, 4),
     (0xca9bf, 0x534f4352, 4), (0xca9c3, 4, 4), (0xca9cb, 0x43704164, 4), (0xca9cf, 8, 4), (0xca9db, 0x57724164, 4),
     (0xca9df, 8, 4), (0xdcd78, 0xffffffff00240301, 8)]"

definition ex_patch :: ane_fw_boot_patch where
  "ex_patch = \<lparr>exec_base = 0x10000000000, stack_guard = 0x1122330055667788, soc = 0x6021, soc_revision = 0x11,
     cpu_pa = 0x285000000, wrapper_pa = 0x285400000\<rparr>"

lemma ex_image_fields:
  "list_all (\<lambda>(p, v, n). le_val n (blob_of ex_image) p = v \<and>
     map (blob_of ex_image) [p..<p + n] = map (\<lambda>k. ucast (drop_bit (8 * k) v)) [0..<n]) ex_image"
  by (rule blob_fields) code_simp+

lemma image_patched:
  assumes "list_all (\<lambda>(p, v, n). le_val n img p = v \<and> map img [p..<p + n] = map (\<lambda>k. ucast (drop_bit (8 * k) v)) [0..<n]) ex_image"
    and "soc_revision q = 0x11"
  shows "fst (ane_fw_apply_boot_patches img ane_fw_selene ane_t602x_asc_tunables q) = None"
proof -
  note F = assms(1) [unfolded list_all_iff, THEN bspec]
  have V: "le_val n img p = v" if "(p, v, n) \<in> set ex_image" for p v n
    using F [OF that] by simp
  have "pick_key ane_t602x_asc_tunables (soc_revision q) = Some 0x10" unfolding assms(2) by code_simp
  moreover have "tun_n ane_t602x_asc_tunables \<le> ANE_FW_TUNABLES_MAX" by code_simp
  moreover have "le_val 8 img ANE_FW_DATA_BASE_VM = 0"
    using V [of "0x423c" 0 8] by (simp add: ex_image_def ANE_FW_DATA_BASE_VM_def)
  moreover have "rtk_records_ok img ane_fw_selene"
  proof -
    have "rtk_vm ane_fw_selene = [0xca848, 0xca9b3, 0xca9bf, 0xca9cb, 0xca9db]" by (simp add: ane_fw_selene_def)
    moreover have upt: "[0..<5] = [0, 1, 2, 3, 4 :: nat]" by (simp add: upt_rec)
    moreover have "le_val 4 img 0xca848 = 0x53544b47" "le_val 4 img 0xca84c = 8"
      "le_val 4 img 0xca9b3 = 0x534f435f" "le_val 4 img 0xca9b7 = 4" "le_val 4 img 0xca9bf = 0x534f4352" "le_val 4 img 0xca9c3 = 4"
      "le_val 4 img 0xca9cb = 0x43704164" "le_val 4 img 0xca9cf = 8" "le_val 4 img 0xca9db = 0x57724164" "le_val 4 img 0xca9df = 8"
      by (rule V, simp add: ex_image_def)+
    ultimately show ?thesis by (simp add: rtk_records_ok_def rtk_rec_def upt)
  qed
  moreover have "tunables_block_unset img ane_fw_selene"
  proof -
    have "tunables_unset = map (\<lambda>k. ucast (drop_bit (8 * k) (0xffffffff00240301 :: u64))) [0..<8]" by code_simp
    moreover have "unat (tunables_vm ane_fw_selene) = 0xdcd78" by (simp add: ane_fw_selene_def)
    moreover have "(0xdcd78, 0xffffffff00240301, 8) \<in> set ex_image" by (simp add: ex_image_def)
    ultimately show ?thesis using F [of "(0xdcd78, 0xffffffff00240301, 8)", unfolded prod.case] unfolding tunables_block_unset_def by metis
  qed
  ultimately show ?thesis by (simp add: ane_fw_apply_boot_patches_def)
qed

lemma ex_image_patched:
  "fst (ane_fw_apply_boot_patches (blob_of ex_image) ane_fw_selene ane_t602x_asc_tunables ex_patch) = None"
  by (rule image_patched [OF ex_image_fields]) (simp add: ex_patch_def)


end
