(* ===== verification/Ane_Boot.thy ===== *)
theory Ane_Boot
  imports Ane_Legacy Ane_Fw "HOL-Library.Multiset"
begin

text \<open>
  The firmware boot of the M2 driver: the pure contract units of \<^verbatim>\<open>ane_t6021_boot.h\<close> and the
  sequence of \<^verbatim>\<open>ane_t6021_boot.c\<close>, run against an arbitrary engine.

  Register offsets are those of the engine window.  The out-parameters of
  \<^verbatim>\<open>ane_t6021_boot_run\<close> and the surfaces \<^verbatim>\<open>ane_t6021_boot_prepare\<close> hands over are fields of the
  state, which extends that of the transport; the bytes of the pool surface are \<open>pool_mem\<close>.  The phase
  markers are events of the trace.
\<close>

section \<open>RVBAR and SCRATCH\<close>

definition ANE_T6021_RVBAR_ENTRY_BASE :: u64 where "ANE_T6021_RVBAR_ENTRY_BASE = 0x0081000000000001"
definition ANE_T6021_RVBAR_ADDR_MASK :: u64 where "ANE_T6021_RVBAR_ADDR_MASK = 0xff7efffffffff800"
definition ANE_T6021_CPU_RUN_RELEASE :: u64 where "ANE_T6021_CPU_RUN_RELEASE = 0x10"
definition ANE_T6021_BOOT_IPC_REQ_THRESHOLD :: u32 where "ANE_T6021_BOOT_IPC_REQ_THRESHOLD = 0x21"
definition ANE_T6021_BOOT_WAKE_REQ :: u64 where "ANE_T6021_BOOT_WAKE_REQ = 0xf7fbdff9"
definition ANE_T6021_BOOT_ACK :: u32 where "ANE_T6021_BOOT_ACK = 0x08042006"
definition ANE_T6021_BOOT_IPC_CEILING :: u64 where "ANE_T6021_BOOT_IPC_CEILING = 0x100000"
definition ANE_T6021_BOOT_HEAP_CEILING :: u64 where "ANE_T6021_BOOT_HEAP_CEILING = 0x02000000"
definition ANE_T6021_BOOT_TABLE_POLLS :: nat where "ANE_T6021_BOOT_TABLE_POLLS = 1000"
definition ANE_T6021_BOOT_TABLE_VALUE :: u64 where "ANE_T6021_BOOT_TABLE_VALUE = 0x01ff01ff"

abbreviation REG_RVBAR :: nat where "REG_RVBAR \<equiv> 0x01050000"
abbreviation REG_CPUCTRL :: nat where "REG_CPUCTRL \<equiv> 0x01400044"
abbreviation REG_SCRATCH0 :: nat where "REG_SCRATCH0 \<equiv> 0x01840048"
abbreviation REG_SCRATCH1 :: nat where "REG_SCRATCH1 \<equiv> 0x0184004c"
abbreviation REG_SCRATCH3 :: nat where "REG_SCRATCH3 \<equiv> 0x01840054"
abbreviation REG_SCRATCH6 :: nat where "REG_SCRATCH6 \<equiv> 0x01840060"
abbreviation REG_SCRATCH7 :: nat where "REG_SCRATCH7 \<equiv> 0x01840064"
abbreviation REG_TICK :: nat where "REG_TICK \<equiv> 0x01160008"
abbreviation REG_CPU_STATUS :: nat where "REG_CPU_STATUS \<equiv> 0x01400048"

definition ane_t6021_rvbar_compose :: "u64 \<Rightarrow> u64" where
  "ane_t6021_rvbar_compose iova = ANE_T6021_RVBAR_ENTRY_BASE OR (iova AND ANE_T6021_RVBAR_ADDR_MASK)"

definition ane_t6021_rvbar_latched :: "u64 \<Rightarrow> bool" where
  "ane_t6021_rvbar_latched rv \<longleftrightarrow> rv AND 1 \<noteq> 0"

definition ane_t6021_rvbar_entry_bits :: "u64 \<Rightarrow> u64" where
  "ane_t6021_rvbar_entry_bits rv = rv AND ANE_T6021_RVBAR_ADDR_MASK"

definition ane_t6021_rvbar_entry_ok :: "u64 \<Rightarrow> bool" where
  "ane_t6021_rvbar_entry_ok iova \<longleftrightarrow> iova AND NOT ANE_T6021_RVBAR_ADDR_MASK = 0"

definition ane_t6021_scratch64_split :: "u64 \<Rightarrow> u32 \<times> u32" where
  "ane_t6021_scratch64_split v = (ucast (v AND 0xffffffff), ucast (drop_bit 32 v))"

definition ane_t6021_scratch64_join :: "u32 \<Rightarrow> u32 \<Rightarrow> u64" where
  "ane_t6021_scratch64_join l h = push_bit 32 (ucast h) OR ucast l"

section \<open>The init block\<close>

record init_sources =
  src_fw_dva :: u64
  src_ipc_dva :: u64
  cfg_size :: u32
  prev_fw_len :: u32
  heap_floor :: u64
  pool_dma :: u64
  pool_word0 :: u64

definition ane_t6021_ipc_size :: "u64 \<Rightarrow> u32 \<Rightarrow> u64" where
  "ane_t6021_ipc_size pg captured =
     (let ord = captured + 1 in if pg > ucast ord then pg else ucast ord)"

text \<open>Zero without a request; a floor of \<open>2 ^ 63\<close> or more, which the signed result could not carry, has no
  caller.\<close>

definition ane_t6021_heap_size :: "u32 \<Rightarrow> u64 \<Rightarrow> u64 \<Rightarrow> errno + u64" where
  "ane_t6021_heap_size req floor_sz max_size =
     (if req = 0 then Inr 0
      else if ucast req > max_size then Inl E2BIG
      else Inr (if ucast req > floor_sz then ucast req else floor_sz))"

definition init_stores :: "init_sources \<Rightarrow> u64 \<Rightarrow> u64 \<Rightarrow> u32 \<Rightarrow> store list" where
  "init_stores s heap_size heap_dva boot_ordinal =
     [(0x00, src_fw_dva s, 8), (0x08, src_ipc_dva s, 8), (0x10, ucast (cfg_size s), 8),
      (0x18, 0x10000000 - ucast (cfg_size s), 8), (0x20, heap_dva, 8), (0x50, ucast boot_ordinal, 8),
      (0x58, pool_dma s, 8), (0x60, pool_word0 s, 8), (0x28, heap_size, 8), (0x30, ucast (prev_fw_len s), 4),
      (0x68, 0x40, 4), (0x6c, 0, 4), (0x12c, 4, 1)]"

definition ane_t6021_init_struct_fill :: "init_sources \<Rightarrow> u64 \<Rightarrow> u64 \<Rightarrow> u32 \<Rightarrow> bytes \<Rightarrow> bytes" where
  "ane_t6021_init_struct_fill s heap_size heap_dva boot_ordinal = put_all (init_stores s heap_size heap_dva boot_ordinal)"

section \<open>Boot state\<close>

record boot = rtc +
  fw_iova :: u64
  cpu_started :: bool
  fw_alive :: bool
  booted :: bool
  scratch_result :: u64
  boot_pool :: "u64 option"        \<comment> \<open>CPU address\<close>
  boot_pool_iova :: u64
  pool_mem :: bytes
  boot_heap :: "u64 option"
  boot_heap_iova :: u64
  boot_heap_size :: u64
  module_refs :: nat

record boot_cfg =
  preflight_ok :: bool
  preboot_table_mode :: int
  cfg_fw_dva :: u64
  rtb_mode :: bool
  stop_after :: int

text \<open>What \<^verbatim>\<open>ane_t6021_boot_prepare_publish\<close> records.\<close>

record boot_allocs =
  a_pool :: "u64 option"
  a_pool_dva :: u64
  a_ipc :: "u64 option"
  a_ipc_dva :: u64
  a_ipc_size :: u64
  a_heap :: "u64 option"
  a_heap_dva :: u64
  a_heap_size :: u64

definition no_allocs :: boot_allocs where
  "no_allocs = \<lparr>a_pool = None, a_pool_dva = 0, a_ipc = None, a_ipc_dva = 0, a_ipc_size = 0,
     a_heap = None, a_heap_dva = 0, a_heap_size = 0\<rparr>"

definition ane_boot_alloc :: "'e env_scheme \<Rightarrow> u64 \<Rightarrow> ('m boot_scheme, (u64 \<times> u64) option) state" where
  "ane_boot_alloc E sz = do {
     r \<leftarrow> dma_alloc_coherent E sz;
     s \<leftarrow> get_st;
     case r of
       None \<Rightarrow> ret None
     | Some (p, d) \<Rightarrow>
         if \<not> ane_t6021_fw_alias_iova_ok s d sz then do { dma_free_coherent sz d; ret None }
         else ret (Some (p, d)) }"

definition prepare_heap :: "'e env_scheme \<Rightarrow> boot_allocs \<Rightarrow> ('m boot_scheme, errno option \<times> boot_allocs) state" where
  "prepare_heap E a =
     (if a_heap_size a \<noteq> 0 then do {
        r \<leftarrow> ane_boot_alloc E (a_heap_size a);
        ret (case r of
               None \<Rightarrow> (Some ENOMEM, a)
             | Some (p, d) \<Rightarrow> (None, a\<lparr>a_heap := Some p, a_heap_dva := d\<rparr>)) }
      else ret (None, a))"

definition prepare_fill :: "init_sources \<Rightarrow> u32 \<Rightarrow> boot_allocs \<Rightarrow> ('m boot_scheme, unit) state" where
  "prepare_fill src scratch1 a =
     modify (\<lambda>s. s\<lparr>pool_mem := ane_t6021_init_struct_fill
        (src\<lparr>src_ipc_dva := a_ipc_dva a, pool_dma := a_pool_dva a\<rparr>) (a_heap_size a) (a_heap_dva a) (scratch1 + 1) (pool_mem s)\<rparr>)"

text \<open>The pool, then the IPC surface, then the heap; a fresh surface is zero.\<close>

definition prepare_surfaces ::
  "'e env_scheme \<Rightarrow> boot_allocs \<Rightarrow> ('m boot_scheme, errno option \<times> boot_allocs) state" where
  "prepare_surfaces E a = do {
     r \<leftarrow> ane_boot_alloc E 0x40000;
     case r of
       None \<Rightarrow> ret (Some ENOMEM, a)
     | Some (p, d) \<Rightarrow> do {
         modify (\<lambda>s. s\<lparr>pool_mem := (\<lambda>_. 0)\<rparr>);
         r' \<leftarrow> ane_boot_alloc E (a_ipc_size a);
         case r' of
           None \<Rightarrow> ret (Some ENOMEM, a\<lparr>a_pool := Some p, a_pool_dva := d\<rparr>)
         | Some (p', d') \<Rightarrow>
             prepare_heap E (a\<lparr>a_pool := Some p, a_pool_dva := d, a_ipc := Some p', a_ipc_dva := d'\<rparr>) } }"

definition ane_t6021_boot_prepare_publish ::
  "'e env_scheme \<Rightarrow> init_sources \<Rightarrow> u32 \<Rightarrow> u32 \<Rightarrow> u32 \<Rightarrow> u64 \<Rightarrow> u64 \<Rightarrow> u64 \<Rightarrow>
     ('m boot_scheme, (errno + u32 \<times> u32) \<times> boot_allocs) state" where
  "ane_t6021_boot_prepare_publish E src req scratch0 scratch1 pg ipc_ceiling heap_ceiling =
     (if scratch0 \<ge> ANE_T6021_BOOT_IPC_REQ_THRESHOLD then ret (Inl EPROTO, no_allocs)
      else let a = no_allocs\<lparr>a_ipc_size := ane_t6021_ipc_size pg scratch1\<rparr> in
      if a_ipc_size a > ipc_ceiling then ret (Inl E2BIG, a)
      else case ane_t6021_heap_size req (heap_floor src) heap_ceiling of
        Inl e \<Rightarrow> ret (Inl e, a)
      | Inr h \<Rightarrow> do {
          x \<leftarrow> prepare_surfaces E (a\<lparr>a_heap_size := h\<rparr>);
          case x of
            (Some e, a') \<Rightarrow> ret (Inl e, a')
          | (None, a') \<Rightarrow> do {
              prepare_fill src scratch1 a';
              ret (Inr (ucast (a_pool_dva a' AND 0xffffffff), ucast (drop_bit 32 (a_pool_dva a'))), a') } })"

definition boot_sources :: init_sources where
  "boot_sources = \<lparr>src_fw_dva = 0, src_ipc_dva = 0, cfg_size = 0x500000, prev_fw_len = 0, heap_floor = 0x4000,
     pool_dma = 0, pool_word0 = 0x40000\<rparr>"

text \<open>The itemised gates, all closed in this version.\<close>

definition ane_t6021_boot_preflight_complete :: bool where
  "ane_t6021_boot_preflight_complete = True"

record boot_env = env +
  boot_prevent_nap :: bool
  module_live :: bool

definition ane_t6021_boot_prepare :: "'e boot_env_scheme \<Rightarrow> ('m boot_scheme, errno + u32 \<times> u32) state" where
  "ane_t6021_boot_prepare E =
     (if \<not> ane_t6021_boot_preflight_complete then ret (Inl ENODATA)
      else do {
        scratch0 \<leftarrow> rdl E (Eng REG_SCRATCH0);
        scratch1 \<leftarrow> rdl E (Eng REG_SCRATCH1);
        req \<leftarrow> rdl E (Eng REG_SCRATCH3);
        s \<leftarrow> get_st;
        x \<leftarrow> ane_t6021_boot_prepare_publish E (boot_sources\<lparr>src_fw_dva := fw_iova s\<rparr>) (ucast req) (ucast scratch0)
               (ucast scratch1) 0x4000 ANE_T6021_BOOT_IPC_CEILING ANE_T6021_BOOT_HEAP_CEILING;
        case x of (r, a) \<Rightarrow> do {
          guarded (\<not> isl r \<and> boot_prevent_nap E)
            (modify (\<lambda>s. s\<lparr>pool_mem := (pool_mem s)(0x6c + 0x84 := pool_mem s (0x6c + 0x84) OR 1)\<rparr>));
          modify (\<lambda>s. s\<lparr>boot_pool := a_pool a, boot_pool_iova := a_pool_dva a, boot_ipc := (a_ipc a \<noteq> None),
             boot_ipc_cpu := (case a_ipc a of None \<Rightarrow> 0 | Some p \<Rightarrow> p), boot_ipc_iova := a_ipc_dva a,
             boot_ipc_size := a_ipc_size a, boot_heap := a_heap a, boot_heap_iova := a_heap_dva a,
             boot_heap_size := a_heap_size a\<rparr>);
          ret r } })"

section \<open>The sequence\<close>

definition phase :: "string \<Rightarrow> ('m mach_scheme, unit) state" where
  "phase w = emit (Phase w)"

definition boot_table :: "('m mach_scheme, unit) state" where
  "boot_table = do {
     phase ''P0 preboot-table'';
     phase ''P0-1 eng+0xb38''; wrl (Eng 0xb38) ANE_T6021_BOOT_TABLE_VALUE;
     phase ''P0-2 eng+0xb98''; wrl (Eng 0xb98) ANE_T6021_BOOT_TABLE_VALUE;
     phase ''P0-3 eng+0xbf8''; wrl (Eng 0xbf8) ANE_T6021_BOOT_TABLE_VALUE }"

text \<open>The grant tunables with the marker of each write.\<close>

definition boot_tun :: "(nat \<times> u64 \<times> string) list" where
  "boot_tun = [(0x000, 0x00000010, ''P-1a eng+0x000''), (0x038, 0x00050020, ''P-1b eng+0x038''),
     (0x03c, 0x000a0030, ''P-1c eng+0x03c''), (0x400, 0x40010001, ''P-1d eng+0x400''),
     (0x600, 0x01ffffff, ''P-1e eng+0x600''), (0x738, 0x00200020, ''P-1f eng+0x738''),
     (0x798, 0x00100030, ''P-1g eng+0x798''), (0x7f8, 0x0100000a, ''P-1h eng+0x7f8''),
     (0x900, 0x00000101, ''P-1i eng+0x900''), (0x410, 0x00001100, ''P-1j eng+0x410''),
     (0x420, 0x00001100, ''P-1k eng+0x420''), (0x430, 0x00001100, ''P-1l eng+0x430'')]"

definition boot_grant :: "('m mach_scheme, unit) state" where
  "boot_grant = do {
     phase ''P-1 grant-tunables begin'';
     seq_all (map (\<lambda>(off, val, what). do { phase what; wrl (Eng off) val; phase ''P-1 write done'' }) boot_tun);
     phase ''P-1 grant-tunables end'' }"

definition boot_scratch :: "bool \<Rightarrow> ('m mach_scheme, unit) state" where
  "boot_scratch rtb = do {
     phase ''P1 scratch-clear+pulse'';
     seq_all (map (\<lambda>i. wrl (Eng (REG_SCRATCH0 + 4 * i)) 0) [0..<8]);
     wrl (Eng REG_SCRATCH6) (if rtb then 0 else 1);
     phase (if rtb then ''P1 S1 SCRATCH6=0 (RTBuddy select)'' else ''P1 S1 SCRATCH6=1 (legacy ChMan/MBI select)'');
     wrl (Eng REG_SCRATCH7) 1;
     wrl (Eng REG_SCRATCH7) 0 }"

definition boot_rvbar :: "'e env_scheme \<Rightarrow> u64 \<Rightarrow> ('m mach_scheme, unit) state" where
  "boot_rvbar E dva = do {
     phase ''P2 rvbar'';
     rv \<leftarrow> rdl E (Eng REG_RVBAR);
     guarded (\<not> ane_t6021_rvbar_latched rv) (wrl (Eng REG_RVBAR) (ane_t6021_rvbar_compose dva)) }"

definition boot_release :: "('m boot_scheme, unit) state" where
  "boot_release = do {
     phase ''P3 cpu-release'';
     wrl (Eng REG_CPUCTRL) 0;
     phase ''P3b cpu-release RUN=0x10'';
     wrl (Eng REG_CPUCTRL) ANE_T6021_CPU_RUN_RELEASE;
     modify (\<lambda>s. s\<lparr>cpu_started := True\<rparr>) }"

primrec poll_ack :: "'e env_scheme \<Rightarrow> nat \<Rightarrow> ('m mach_scheme, bool) state" where
  "poll_ack E 0 = ret False"
| "poll_ack E (Suc n) = do {
     v \<leftarrow> rdl E (Eng REG_SCRATCH7);
     if (ucast v :: u32) = ANE_T6021_BOOT_ACK then ret True
     else do { emit Sleep; poll_ack E n } }"

definition boot_done :: "'e env_scheme \<Rightarrow> ('m boot_scheme, errno option) state" where
  "boot_done E = do {
     phase ''P6 wake'';
     wrl (Eng REG_SCRATCH7) ANE_T6021_BOOT_WAKE_REQ;
     phase ''P7 pollB-DONE'';
     ok \<leftarrow> poll_ack E ANE_T6021_BOOT_TABLE_POLLS;
     if \<not> ok then ret (Some ETIMEDOUT)
     else do {
       modify (\<lambda>s. s\<lparr>booted := True\<rparr>);
       phase ''P7 pollB DONE observed'';
       h \<leftarrow> rdl E (Eng REG_SCRATCH1);
       l \<leftarrow> rdl E (Eng REG_SCRATCH0);
       modify (\<lambda>s. s\<lparr>scratch_result := push_bit 32 (ucast (ucast h :: u32)) OR ucast (ucast l :: u32)\<rparr>);
       ret None } }"

definition boot_publish :: "'e boot_env_scheme \<Rightarrow> ('m boot_scheme, errno option) state" where
  "boot_publish E = do {
     phase ''P5 prepare+publish'';
     r \<leftarrow> ane_t6021_boot_prepare E;
     case r of
       Inl e \<Rightarrow> ret (Some e)
     | Inr (l, h) \<Rightarrow> do {
         emit Barrier;
         wrl (Eng REG_SCRATCH0) (ucast l);
         wrl (Eng REG_SCRATCH1) (ucast h);
         boot_done E } }"

definition boot_ready :: "'e boot_env_scheme \<Rightarrow> boot_cfg \<Rightarrow> ('m boot_scheme, errno option) state" where
  "boot_ready E c = do {
     phase ''P4 pollA-READY'';
     ok \<leftarrow> poll_ack E ANE_T6021_BOOT_TABLE_POLLS;
     if ok then do {
       modify (\<lambda>s. s\<lparr>fw_alive := True\<rparr>);
       phase ''P4 pollA READY observed'';
       if stop_after c = 4 then ret (Some ECANCELED)
       else if rtb_mode c then ret None
       else boot_publish E }
     else if rtb_mode c then do { phase ''P4 pollA no READY (RTBuddy: HELLO-gated)''; ret None }
     else ret (Some ETIMEDOUT) }"

definition ane_t6021_boot_run :: "'e boot_env_scheme \<Rightarrow> boot_cfg \<Rightarrow> ('m boot_scheme, errno option) state" where
  "ane_t6021_boot_run E c = do {
     modify (\<lambda>s. s\<lparr>cpu_started := False, fw_alive := False, booted := False, scratch_result := 0\<rparr>);
     if \<not> preflight_ok c then ret (Some ENODATA)
     else if preboot_table_mode c = 0 then ret (Some EAGAIN)
     else do {
       (if preboot_table_mode c = 1 then boot_table else phase ''P0 table SKIPPED (diagnostic)'');
       boot_grant;
       if stop_after c = 1 then ret (Some ECANCELED)
       else do {
         boot_scratch (rtb_mode c);
         if stop_after c = 2 then ret (Some ECANCELED)
         else do {
           boot_rvbar E (cfg_fw_dva c);
           if stop_after c = 3 then ret (Some ECANCELED)
           else do { boot_release; boot_ready E c } } } } }"

definition ane_t6021_boot_progress_dump :: "'e env_scheme \<Rightarrow> ('m mach_scheme, unit) state" where
  "ane_t6021_boot_progress_dump E = do {
     rdl E (Eng REG_TICK);
     emit Sleep;
     rdl E (Eng REG_TICK);
     seq_all (map (\<lambda>i. do { rdl E (Eng (REG_SCRATCH0 + 4 * i)); ret () }) [0..<8]);
     rdl E (Eng REG_RVBAR);
     rdl E (Eng REG_CPU_STATUS);
     ret () }"

definition ane_t6021_boot_start ::
  "'e boot_env_scheme \<Rightarrow> int \<Rightarrow> int \<Rightarrow> bool \<Rightarrow> ('m boot_scheme, errno option) state" where
  "ane_t6021_boot_start E stop table_mode rtb =
     (if \<not> module_live E then ret (Some EBUSY)
      else do {
        modify (\<lambda>s. s\<lparr>module_refs := module_refs s + 1\<rparr>);
        s \<leftarrow> get_st;
        r \<leftarrow> ane_t6021_boot_run E \<lparr>preflight_ok = ane_t6021_boot_preflight_complete, preboot_table_mode = table_mode,
               cfg_fw_dva = fw_iova s, rtb_mode = rtb, stop_after = stop\<rparr>;
        s' \<leftarrow> get_st;
        guarded (cpu_started s' \<and> \<not> fw_alive s') (ane_t6021_boot_progress_dump E);
        if \<not> cpu_started s' then do {
          modify (\<lambda>s. s\<lparr>module_refs := module_refs s - 1\<rparr>);
          ret r }
        else if r = Some ENODATA then ret r
        else if r \<noteq> None then ret None
        else ret r })"

section \<open>The host rings\<close>

text \<open>Twenty-four bytes of a slot: zero, but for the ownership byte in front.\<close>

definition slot_stores :: "chman_static \<Rightarrow> store list" where
  "slot_stores c = concat (map (\<lambda>slot. let e = cs_off c + slot * 0x40 in
     [(e, 1, 8), (e + 8, 0, 8), (e + 16, 0, 8)]) [0..<cs_size c])"

text \<open>The channel table at the start of the surface.\<close>

definition chman_descs :: "bytes \<Rightarrow> chman_desc list" where
  "chman_descs m = map (\<lambda>i.
     \<lparr>cd_name = map (\<lambda>k. m (0x100 * i + k)) [0..<ANE_T6021_CHMAN_NAME_LEN],
      cd_type = ucast (le_val 4 m (0x100 * i + 0x40)), cd_bit = ucast (le_val 4 m (0x100 * i + 0x44)),
      cd_size = le_val 8 m (0x100 * i + 0x48), cd_ring = le_val 8 m (0x100 * i + 0x50)\<rparr>) [0..<ANE_T6021_CHMAN_COUNT]"

definition ane_t6021_chman_host_init :: "bytes option \<Rightarrow> u64 \<Rightarrow> u64 \<Rightarrow> bool \<times> bytes option" where
  "ane_t6021_chman_host_init ipc sz dva =
     (case ipc of
        None \<Rightarrow> (False, ipc)
      | Some m \<Rightarrow>
          if sz < ANE_T6021_CHMAN_TOTAL \<or> dva > NOT 0 - ANE_T6021_CHMAN_TOTAL \<or>
             ane_t6021_chman_check (chman_descs m) dva \<noteq> 0 then (False, ipc)
          else (True, Some (put_all (concat (map slot_stores (filter (\<lambda>c. cs_type c = 0) ane_t6021_chman_layout))) m)))"

section \<open>The order of the boot writes\<close>

fun writes :: "trace \<Rightarrow> (nat \<times> u64) list" where
  "writes [] = []"
| "writes (Write (Eng k) v # es) = (k, v) # writes es"
| "writes (_ # es) = writes es"

lemma writes_append [simp]: "writes (xs @ ys) = writes xs @ writes ys"
  by (induction xs rule: writes.induct) auto

text \<open>Straight-line code: it appends events with the given engine writes and changes nothing else.\<close>

definition puts :: "(nat \<times> u64) list \<Rightarrow> ('m mach_scheme, unit) state \<Rightarrow> bool" where
  "puts ws m \<longleftrightarrow> (\<forall>s. \<exists>es. run_state m s = ((), s\<lparr>trace := trace s @ es\<rparr>) \<and> writes es = ws)"

lemma puts_bind: "puts ws m \<Longrightarrow> puts vs n \<Longrightarrow> puts (ws @ vs) (State_Monad.bind m (\<lambda>_. n))"
  unfolding puts_def
proof
  fix s
  assume m: "\<forall>s. \<exists>es. run_state m s = ((), s\<lparr>trace := trace s @ es\<rparr>) \<and> writes es = ws"
    and n: "\<forall>s. \<exists>es. run_state n s = ((), s\<lparr>trace := trace s @ es\<rparr>) \<and> writes es = vs"
  from m obtain es where es: "run_state m s = ((), s\<lparr>trace := trace s @ es\<rparr>)" "writes es = ws" by blast
  from n [rule_format, of "s\<lparr>trace := trace s @ es\<rparr>"]
  obtain fs where fs: "run_state n (s\<lparr>trace := trace s @ es\<rparr>) = ((), s\<lparr>trace := trace s @ es @ fs\<rparr>)" "writes fs = vs"
    by auto
  then show "\<exists>es. run_state (State_Monad.bind m (\<lambda>_. n)) s = ((), s\<lparr>trace := trace s @ es\<rparr>) \<and> writes es = ws @ vs"
    using es by (intro exI [of _ "es @ fs"]) simp
qed

lemma puts_prim: "puts [] (ret ())" "puts [] (phase w)" "puts [(k, v)] (wrl (Eng k) v)" "puts [] (emit Barrier)"
  by (auto simp: puts_def phase_def wrl_def emit_def State_Monad.update_def intro: exI [of _ "[_]"] exI [of _ "[]"])

lemma puts_seq_all: "list_all2 puts wss ms \<Longrightarrow> puts (concat wss) (seq_all ms)"
  by (induction rule: list_all2_induct) (auto intro: puts_prim(1) puts_bind)

definition table_writes :: "boot_cfg \<Rightarrow> (nat \<times> u64) list" where
  "table_writes c = (if preboot_table_mode c = 1 then map (\<lambda>k. (k, 0x01ff01ff)) [0xb38, 0xb98, 0xbf8] else [])"

definition scratch_writes :: "bool \<Rightarrow> (nat \<times> u64) list" where
  "scratch_writes rtb = map (\<lambda>i. (REG_SCRATCH0 + 4 * i, 0)) [0..<8] @
     [(REG_SCRATCH6, if rtb then 0 else 1), (REG_SCRATCH7, 1), (REG_SCRATCH7, 0)]"

lemma puts_table:
  "puts (table_writes c) (if preboot_table_mode c = 1 then boot_table else phase w :: ('m mach_scheme, unit) state)"
proof -
  have "puts ([] @ [] @ [(0xb38, 0x01ff01ff)] @ [] @ [(0xb98, 0x01ff01ff)] @ [] @ [(0xbf8, 0x01ff01ff)])
      (boot_table :: ('m mach_scheme, unit) state)"
    unfolding boot_table_def ANE_T6021_BOOT_TABLE_VALUE_def by (intro puts_bind puts_prim)
  then show ?thesis by (simp add: table_writes_def puts_prim)
qed

lemma puts_grant: "puts (map (\<lambda>(k, v, w). (k, v)) boot_tun) (boot_grant :: ('m mach_scheme, unit) state)"
proof -
  have "puts ([] @ [(k, v)] @ []) (do { phase w; wrl (Eng k) v; phase ''P-1 write done'' } :: ('m mach_scheme, unit) state)" for k v w
    by (intro puts_bind puts_prim)
  then have one: "puts [(k, v)] (do { phase w; wrl (Eng k) v; phase ''P-1 write done'' } :: ('m mach_scheme, unit) state)" for k v w
    by simp
  have "list_all2 puts (map (\<lambda>(k, v, w). [(k, v)]) boot_tun)
      (map (\<lambda>(off, val, what). do { phase what; wrl (Eng off) val; phase ''P-1 write done'' } :: ('m mach_scheme, unit) state) boot_tun)"
    unfolding list_all2_conv_all_nth using one by (auto split: prod.splits)
  then have "puts ([] @ concat (map (\<lambda>(k, v, w). [(k, v)]) boot_tun) @ []) (boot_grant :: ('m mach_scheme, unit) state)"
    unfolding boot_grant_def by (intro puts_bind puts_prim puts_seq_all)
  moreover have "concat (map (\<lambda>(k, v, w). [(k, v)]) xs) = map (\<lambda>(k, v, w). (k, v)) xs" for xs :: "(nat \<times> u64 \<times> string) list"
    by (induction xs) auto
  ultimately show ?thesis by simp
qed

lemma puts_scratch: "puts (scratch_writes rtb) (boot_scratch rtb :: ('m mach_scheme, unit) state)"
proof -
  have "list_all2 puts (map (\<lambda>i. [(REG_SCRATCH0 + 4 * i, 0)]) xs)
      (map (\<lambda>i. wrl (Eng (REG_SCRATCH0 + 4 * i)) 0 :: ('m mach_scheme, unit) state) xs)" for xs
    unfolding list_all2_conv_all_nth using puts_prim(3) by auto
  then have "puts ([] @ concat (map (\<lambda>i. [(REG_SCRATCH0 + 4 * i, 0)]) [0..<8]) @ [(REG_SCRATCH6, if rtb then 0 else 1)] @ [] @
      [(REG_SCRATCH7, 1)] @ [(REG_SCRATCH7, 0)]) (boot_scratch rtb :: ('m mach_scheme, unit) state)"
    unfolding boot_scratch_def by (intro puts_bind puts_prim puts_seq_all)
  moreover have "concat (map (\<lambda>i. [f i]) xs) = map f xs" for f :: "nat \<Rightarrow> nat \<times> u64" and xs by (induction xs) auto
  ultimately show ?thesis by (simp only: scratch_writes_def append_Nil append_Cons)
qed

section \<open>Stages\<close>

definition boot_stages :: "boot_cfg \<Rightarrow> u64 \<Rightarrow> u64 \<Rightarrow> (nat \<times> u64) list list" where
  "boot_stages c rv d =
     [table_writes c @ map (\<lambda>(k, v, w). (k, v)) boot_tun,
      scratch_writes (rtb_mode c),
      (if ane_t6021_rvbar_latched rv then [] else [(REG_RVBAR, ane_t6021_rvbar_compose (cfg_fw_dva c))]),
      [(REG_CPUCTRL, 0), (REG_CPUCTRL, 0x10)],
      [(REG_SCRATCH0, d AND 0xffffffff), (REG_SCRATCH1, drop_bit 32 d), (REG_SCRATCH7, 0xf7fbdff9)]]"

definition no_eng_write :: "ev \<Rightarrow> bool" where
  "no_eng_write e \<longleftrightarrow> writes [e] = []"

lemma no_eng_write_writes: "list_all no_eng_write es \<Longrightarrow> writes es = []"
proof (induction es)
  case (Cons e es)
  then have "writes ([e] @ es) = []" by (simp only: writes_append) (simp add: no_eng_write_def)
  then show ?case by simp
qed simp

text \<open>A poll that succeeds ends on the read of the acknowledgement.\<close>

definition acked :: "trace \<Rightarrow> bool" where
  "acked es \<longleftrightarrow> es \<noteq> [] \<and> (\<exists>v. List.last es = Read (Eng REG_SCRATCH7) v \<and> (ucast v :: u32) = ANE_T6021_BOOT_ACK)"

lemma poll_ack_run:
  "\<exists>es. run_state (poll_ack E n) s = (b, s\<lparr>trace := trace s @ es\<rparr>) \<and> writes es = [] \<and> (b \<longrightarrow> acked es)"
  if "run_state (poll_ack E n) s = (b, s')" for s :: "'m mach_scheme"
  using that
proof (induction n arbitrary: s s')
  case 0
  then show ?case by (auto intro: exI [of _ "[]"])
next
  case (Suc n)
  let ?v = "rd E (trace s) (Eng REG_SCRATCH7)"
  let ?r = "[Read (Eng REG_SCRATCH7) ?v]"
  have go: "run_state (poll_ack E (Suc n)) s =
      (if (ucast ?v :: u32) = ANE_T6021_BOOT_ACK then (True, s\<lparr>trace := trace s @ ?r\<rparr>)
       else run_state (poll_ack E n) (s\<lparr>trace := trace s @ ?r @ [Sleep]\<rparr>))"
    by (simp add: rdl_def emit_def State_Monad.update_def)
  show ?case
  proof (cases "(ucast ?v :: u32) = ANE_T6021_BOOT_ACK")
    case True
    then show ?thesis using Suc.prems by (auto simp: go acked_def simp del: poll_ack.simps intro!: exI [of _ ?r])
  next
    case False
    with Suc.prems have "run_state (poll_ack E n) (s\<lparr>trace := trace s @ ?r @ [Sleep]\<rparr>) = (b, s')" by (simp add: go del: poll_ack.simps)
    from Suc.IH [OF this] obtain es where "s' = s\<lparr>trace := trace s @ ?r @ [Sleep] @ es\<rparr>" "writes es = []" "b \<longrightarrow> acked es"
      using \<open>run_state (poll_ack E n) _ = _\<close> by auto
    then show ?thesis using Suc.prems by (intro exI [of _ "?r @ [Sleep] @ es"]) (auto simp: acked_def)
  qed
qed

lemma alloc_no_eng [exts]: "extends no_eng_write (ane_boot_alloc E sz)"
  unfolding ane_boot_alloc_def by (intro exts) (auto simp: no_eng_write_def)

lemma prepare_no_eng: "extends no_eng_write (ane_t6021_boot_prepare E)"
  unfolding ane_t6021_boot_prepare_def ane_t6021_boot_prepare_publish_def prepare_surfaces_def prepare_heap_def
    prepare_fill_def Let_def
  by (intro exts) (auto simp: no_eng_write_def split: sum.splits)

text \<open>The flags and the published address.\<close>

definition flags :: "'m boot_scheme \<Rightarrow> bool \<times> bool \<times> bool" where
  "flags s = (cpu_started s, fw_alive s, booted s)"

lemma flags_trace [simp]: "flags (s\<lparr>trace := t\<rparr>) = flags s"
  by (simp add: flags_def)

lemma wp_puts:
  "puts ws m \<Longrightarrow> (\<And>es. writes es = ws \<Longrightarrow> Q () (s\<lparr>trace := trace s @ es\<rparr>)) \<Longrightarrow> wp m Q s"
  unfolding puts_def wp_def by (metis case_prod_conv)

lemma wp_poll_ack:
  "(\<And>b es. writes es = [] \<Longrightarrow> (b \<Longrightarrow> acked es) \<Longrightarrow> Q b (s\<lparr>trace := trace s @ es\<rparr>)) \<Longrightarrow> wp (poll_ack E n) Q s"
  by (cases "run_state (poll_ack E n) s", drule poll_ack_run) (auto simp: wp_def)

lemma acked_prepend: "acked es \<Longrightarrow> acked (ws @ es)"
  by (auto simp: acked_def)

text \<open>The acknowledgement was read when exactly \<open>ws\<close> had been written.\<close>

definition acked_after :: "(nat \<times> u64) list \<Rightarrow> trace \<Rightarrow> bool" where
  "acked_after ws es \<longleftrightarrow> (\<exists>a b. es = a @ b \<and> acked a \<and> writes a = ws)"

lemma acked_afterI: "acked a \<Longrightarrow> writes a = ws \<Longrightarrow> acked_after ws (a @ b)"
  by (auto simp: acked_after_def)

lemma acked_after_prepend: "acked_after ws es \<Longrightarrow> writes p = vs \<Longrightarrow> acked_after (vs @ ws) (p @ es)"
  unfolding acked_after_def by (metis acked_prepend append.assoc writes_append)

abbreviation wake_writes :: "(nat \<times> u64) list" where
  "wake_writes \<equiv> [(REG_SCRATCH7, ANE_T6021_BOOT_WAKE_REQ)]"

definition done_post :: "'m boot_scheme \<Rightarrow> errno option \<Rightarrow> 'm boot_scheme \<Rightarrow> bool" where
  "done_post s r s' \<longleftrightarrow> (\<exists>es. trace s' = trace s @ es \<and> writes es = wake_writes \<and>
     boot_pool_iova s' = boot_pool_iova s \<and>
     (r \<noteq> None \<and> flags s' = flags s \<or>
      r = None \<and> flags s' = (cpu_started s, fw_alive s, True) \<and> acked_after wake_writes es))"

lemma done_wp: "wp (boot_done E) (done_post s) s" for s :: "'m boot_scheme"
proof -
  let ?w = "[Phase ''P6 wake'', Write (Eng REG_SCRATCH7) ANE_T6021_BOOT_WAKE_REQ, Phase ''P7 pollB-DONE'']"
  have ok: "done_post s None s'"
    if "writes es = []" "acked es" "trace s' = trace s @ (?w @ es) @ ds" "writes ds = []"
      "flags s' = (cpu_started s, fw_alive s, True)" "boot_pool_iova s' = boot_pool_iova s" for es ds s'
    using that acked_afterI [OF acked_prepend [of es ?w], of wake_writes ds] unfolding done_post_def
    by (intro exI [of _ "(?w @ es) @ ds"]) simp
  have late: "done_post s (Some ETIMEDOUT) (s\<lparr>trace := trace s @ ?w @ es\<rparr>)" if "writes es = []" for es
    using that unfolding done_post_def by (intro exI [of _ "?w @ es"]) auto
  show ?thesis
    unfolding boot_done_def phase_def wp
    by (rule wp_poll_ack, use late in simp) (auto simp: wp flags_def intro!: ok)
qed

definition addr_halves :: "u64 \<Rightarrow> u32 \<times> u32" where
  "addr_halves d = (ucast (d AND 0xffffffff), ucast (drop_bit 32 d))"

lemma publish_result:
  "wp (ane_t6021_boot_prepare_publish E src req s0 s1 pg ic hc) (\<lambda>x _. \<forall>y. fst x = Inr y \<longrightarrow> y = addr_halves (a_pool_dva (snd x))) s"
  unfolding ane_t6021_boot_prepare_publish_def prepare_fill_def addr_halves_def wp Let_def
  by (auto split: sum.splits option.splits simp: wp intro!: wp_mono [OF wp_trivial])

lemma keeps_alloc: "(\<And>s t. I (s\<lparr>trace := t\<rparr>) = I s) \<Longrightarrow> keeps I (ane_boot_alloc E sz)"
  unfolding keeps_def ane_boot_alloc_def wp by (auto split: option.splits simp: wp)

lemma publish_flags: "keeps (\<lambda>s. flags s = F) (ane_t6021_boot_prepare_publish E src req s0 s1 pg ic hc)"
  unfolding ane_t6021_boot_prepare_publish_def prepare_surfaces_def prepare_heap_def prepare_fill_def Let_def
  by (intro keep keeps_alloc) (auto simp: flags_def)

lemma prepare_wp:
  "wp (ane_t6021_boot_prepare E) (\<lambda>r s'. flags s' = flags s \<and> (\<exists>es. trace s' = trace s @ es \<and> writes es = []) \<and>
     (\<forall>y. r = Inr y \<longrightarrow> y = addr_halves (boot_pool_iova s'))) s"
proof -
  have "wp (ane_t6021_boot_prepare E) (\<lambda>r s'. flags s' = flags s \<and> (\<forall>y. r = Inr y \<longrightarrow> y = addr_halves (boot_pool_iova s'))) s"
    unfolding ane_t6021_boot_prepare_def ane_t6021_boot_preflight_complete_def not_True_eq_False if_False wp
    apply (rule wp_mono [OF wp_conj [OF keepsD [OF publish_flags [where F = "flags s"]] publish_result]])
     apply (simp only: flags_trace)
    subgoal for x s' by (cases x) (auto simp: flags_def)
    done
  moreover have "wp (ane_t6021_boot_prepare E) (\<lambda>r s'. \<exists>es. trace s' = trace s @ es \<and> writes es = []) s"
    by (rule wp_mono [OF spec [OF prepare_no_eng [unfolded extends_def]]]) (auto dest: no_eng_write_writes)
  ultimately show ?thesis by (simp add: wp_run)
qed

lemma halves_back:
  "ucast (ucast (d AND 0xffffffff) :: u32) = d AND 0xffffffff" "ucast (ucast (drop_bit 32 d) :: u32) = drop_bit 32 d" for d :: u64
proof -
  have m: "0xffffffff = (mask 32 :: u64)" by (simp add: mask_eq_exp_minus_1)
  show "ucast (ucast (d AND 0xffffffff) :: u32) = d AND 0xffffffff"
    unfolding m by (rule bit_word_eqI) (auto simp: bit_simps)
  show "ucast (ucast (drop_bit 32 d) :: u32) = drop_bit 32 d"
    by (rule bit_word_eqI) (auto simp: bit_simps dest: bit_imp_le_length)
qed

definition publish_post :: "'m boot_scheme \<Rightarrow> errno option \<Rightarrow> 'm boot_scheme \<Rightarrow> bool" where
  "publish_post s r s' \<longleftrightarrow> (\<exists>es. trace s' = trace s @ es \<and>
     (let ws = [(REG_SCRATCH0, boot_pool_iova s' AND 0xffffffff), (REG_SCRATCH1, drop_bit 32 (boot_pool_iova s'))] @ wake_writes in
     r \<noteq> None \<and> flags s' = flags s \<and> (writes es = [] \<or> writes es = ws) \<or>
      r = None \<and> flags s' = (cpu_started s, fw_alive s, True) \<and> writes es = ws \<and> acked_after ws es))"

lemma publish_wp: "wp (boot_publish E) (publish_post s) s" for s :: "'m boot_scheme"
proof -
  let ?p = "[Phase ''P5 prepare+publish'']"
  have stop: "publish_post s (Some e) s'" if "trace s' = trace s @ ?p @ es" "writes es = []" "flags s' = flags s" for e s' es
    using that unfolding publish_post_def by (intro exI [of _ "?p @ es"]) (simp add: Let_def)
  have go: "publish_post s r s''"
    if t: "trace s' = trace s @ ?p @ es" "writes es = []" "flags s' = flags s"
      and d: "done_post (s'\<lparr>trace := trace s' @ [Barrier, Write (Eng REG_SCRATCH0) (boot_pool_iova s' AND 0xffffffff),
        Write (Eng REG_SCRATCH1) (drop_bit 32 (boot_pool_iova s'))]\<rparr>) r s''" for s' es r s''
  proof -
    let ?q = "[Barrier, Write (Eng REG_SCRATCH0) (boot_pool_iova s' AND 0xffffffff), Write (Eng REG_SCRATCH1) (drop_bit 32 (boot_pool_iova s'))]"
    from d obtain fs where fs: "trace s'' = trace s' @ ?q @ fs" "writes fs = wake_writes" "boot_pool_iova s'' = boot_pool_iova s'"
      "r \<noteq> None \<and> flags s'' = flags s' \<or> r = None \<and> flags s'' = (cpu_started s', fw_alive s', True) \<and> acked_after wake_writes fs"
      by (auto simp: done_post_def)
    show ?thesis
      using fs t acked_after_prepend [of wake_writes fs "?p @ es @ ?q"] unfolding publish_post_def
      by (intro exI [of _ "?p @ es @ ?q @ fs"]) (auto simp: Let_def flags_def)
  qed
  show ?thesis
    unfolding boot_publish_def phase_def wp
    apply (rule wp_mono [OF prepare_wp])
    subgoal for r s'
      apply (cases r)
       apply (auto intro!: stop)[1]
      apply (auto simp: addr_halves_def halves_back wp intro!: wp_mono [OF done_wp] go)
      done
    done
qed

lemma acked_after_append: "acked_after ws es \<Longrightarrow> acked_after ws (es @ b)"
  unfolding acked_after_def by (metis append.assoc)

abbreviation publish_writes :: "u64 \<Rightarrow> (nat \<times> u64) list" where
  "publish_writes d \<equiv> [(REG_SCRATCH0, d AND 0xffffffff), (REG_SCRATCH1, drop_bit 32 d)] @ wake_writes"

definition ready_post :: "'m boot_scheme \<Rightarrow> errno option \<Rightarrow> 'm boot_scheme \<Rightarrow> bool" where
  "ready_post s r s' \<longleftrightarrow> (\<exists>es. trace s' = trace s @ es \<and> cpu_started s' = cpu_started s \<and>
     (fw_alive s' \<longrightarrow> acked_after [] es) \<and>
     (writes es = [] \<and> \<not> booted s' \<or>
      writes es = publish_writes (boot_pool_iova s') \<and> fw_alive s' \<and> (booted s' \<longleftrightarrow> r = None) \<and>
      (booted s' \<longrightarrow> acked_after (publish_writes (boot_pool_iova s')) es)))"

lemma ready_wp:
  fixes s :: "'m boot_scheme"
  assumes "\<not> fw_alive s" "\<not> booted s"
  shows "wp (boot_ready E c) (ready_post s) s"
proof -
  let ?p = "[Phase ''P4 pollA-READY'']" and ?q = "[Phase ''P4 pollA READY observed'']"
  have stop: "ready_post s r s'" if "trace s' = trace s @ ?p @ es @ qs" "writes es = []" "writes qs = []" "flags s' = (cpu_started s, b, False)"
      "b \<Longrightarrow> acked es" for r s' es qs b
    using that acked_after_append [OF acked_afterI [OF acked_prepend [of es ?p], of "[]" "[]"], of qs] unfolding ready_post_def
    by (intro exI [of _ "?p @ es @ qs"]) (auto simp: flags_def)
  have go: "ready_post s r s''"
    if p: "publish_post (s\<lparr>fw_alive := True, trace := trace s @ ?p @ es @ ?q\<rparr>) r s''" and es: "writes es = []" "acked es" for r s'' es
  proof -
    let ?ws = "publish_writes (boot_pool_iova s'')"
    from p obtain fs where fs: "trace s'' = trace s @ ?p @ es @ ?q @ fs"
      "r \<noteq> None \<and> flags s'' = (cpu_started s, True, False) \<and> (writes fs = [] \<or> writes fs = ?ws) \<or>
        r = None \<and> flags s'' = (cpu_started s, True, True) \<and> writes fs = ?ws \<and> acked_after ?ws fs"
      using assms by (auto simp: publish_post_def Let_def flags_def)
    have "acked_after [] (?p @ es @ ?q @ fs)"
      using es acked_after_append [OF acked_afterI [OF acked_prepend [of es ?p], of "[]" "[]"], of "?q @ fs"] by simp
    moreover have "acked_after ?ws (?p @ es @ ?q @ fs)" if "acked_after ?ws fs"
      using es acked_after_prepend [OF that, of "?p @ es @ ?q"] by simp
    ultimately show ?thesis
      using fs es unfolding ready_post_def by (intro exI [of _ "?p @ es @ ?q @ fs"]) (auto simp: flags_def)
  qed
  show ?thesis
    unfolding boot_ready_def phase_def wp
  proof (rule wp_poll_ack, goal_cases)
    case (1 b es)
    show ?case
    proof (cases b)
      case True
      with 1 assms stop [of _ es ?q True] show ?thesis
        by (simp add: wp flags_def) (auto intro!: wp_mono [OF publish_wp] go)
    next
      case False
      with 1 assms stop [of _ es "[]" False] stop [of _ es "[Phase ''P4 pollA no READY (RTBuddy: HELLO-gated)'']" False]
      show ?thesis by (simp add: wp flags_def)
    qed
  qed
qed

definition run_post :: "boot_cfg \<Rightarrow> 'm boot_scheme \<Rightarrow> 'm boot_scheme \<Rightarrow> bool" where
  "run_post c s s' \<longleftrightarrow> (\<exists>es n rv. trace s' = trace s @ es \<and> n \<le> 5 \<and>
     (let st = boot_stages c rv (boot_pool_iova s') in
      writes es = concat (take n st) \<and> (cpu_started s' \<longleftrightarrow> 4 \<le> n) \<and>
      (fw_alive s' \<longrightarrow> acked_after (concat (take 4 st)) es) \<and> (n = 5 \<longrightarrow> fw_alive s') \<and>
      (booted s' \<longrightarrow> n = 5 \<and> acked_after (concat st) es)))"

lemma run_post_stop:
  "trace s' = trace s @ es \<Longrightarrow> writes es = concat (take n (boot_stages c rv (boot_pool_iova s'))) \<Longrightarrow> n \<le> 3 \<Longrightarrow>
   flags s' = (False, False, False) \<Longrightarrow> run_post c s s'"
  unfolding run_post_def by (intro exI [of _ es] exI [of _ n] exI [of _ rv]) (auto simp: flags_def Let_def)

lemma run_post_ready:
  fixes s t s' :: "'m boot_scheme"
  assumes "ready_post t r s'" "trace t = trace s @ es" "\<And>d. writes es = concat (take 4 (boot_stages c rv d))" "cpu_started t"
  shows "run_post c s s'"
proof -
  from assms(1) obtain fs where fs: "trace s' = trace t @ fs" "cpu_started s' = cpu_started t" "fw_alive s' \<longrightarrow> acked_after [] fs"
    "writes fs = [] \<and> \<not> booted s' \<or> writes fs = publish_writes (boot_pool_iova s') \<and> fw_alive s' \<and> (booted s' \<longleftrightarrow> r = None) \<and>
      (booted s' \<longrightarrow> acked_after (publish_writes (boot_pool_iova s')) fs)"
    by (auto simp: ready_post_def)
  let ?st = "boot_stages c rv (boot_pool_iova s')"
  have last: "concat ?st = concat (take 4 ?st) @ publish_writes (boot_pool_iova s')" "concat (take 5 ?st) = concat ?st"
    by (simp_all add: boot_stages_def ANE_T6021_BOOT_WAKE_REQ_def)
  have alive: "fw_alive s' \<longrightarrow> acked_after (concat (take 4 ?st)) (es @ fs)"
    using fs(3) acked_after_prepend [of "[]" fs es] assms(3) by auto
  have up: "booted s' \<longrightarrow> acked_after (concat ?st) (es @ fs)"
    using fs(4) acked_after_prepend [of "publish_writes (boot_pool_iova s')" fs es] assms(3) last by auto
  show ?thesis
  proof (cases "writes fs = []")
    case True
    then show ?thesis using fs assms alive unfolding run_post_def
      by (intro exI [of _ "es @ fs"] exI [of _ 4] exI [of _ rv]) (auto simp: Let_def)
  next
    case False
    then show ?thesis using fs assms alive up last unfolding run_post_def
      by (intro exI [of _ "es @ fs"] exI [of _ 5] exI [of _ rv]) (auto simp: Let_def)
  qed
qed

lemma take_stages:
  "concat (take 0 (boot_stages c rv d)) = []"
  "concat (take (Suc 0) (boot_stages c rv d)) = table_writes c @ map (\<lambda>(k, v, w). (k, v)) boot_tun"
  "concat (take 2 (boot_stages c rv d)) = table_writes c @ map (\<lambda>(k, v, w). (k, v)) boot_tun @ scratch_writes (rtb_mode c)"
  "concat (take 3 (boot_stages c rv d)) = table_writes c @ map (\<lambda>(k, v, w). (k, v)) boot_tun @ scratch_writes (rtb_mode c) @
     (if ane_t6021_rvbar_latched rv then [] else [(REG_RVBAR, ane_t6021_rvbar_compose (cfg_fw_dva c))])"
  "concat (take 4 (boot_stages c rv d)) = table_writes c @ map (\<lambda>(k, v, w). (k, v)) boot_tun @ scratch_writes (rtb_mode c) @
     (if ane_t6021_rvbar_latched rv then [] else [(REG_RVBAR, ane_t6021_rvbar_compose (cfg_fw_dva c))]) @ [(REG_CPUCTRL, 0), (REG_CPUCTRL, 0x10)]"
  by (simp_all add: boot_stages_def)

lemma wp_rvbar:
  assumes "\<And>es rv. writes es = (if ane_t6021_rvbar_latched rv then [] else [(REG_RVBAR, ane_t6021_rvbar_compose d)]) \<Longrightarrow>
     Q () (s\<lparr>trace := trace s @ es\<rparr>)"
  shows "wp (boot_rvbar E d) Q s"
proof -
  let ?rv = "rd E (trace s @ [Phase ''P2 rvbar'']) (Eng REG_RVBAR)"
  let ?r = "[Phase ''P2 rvbar'', Read (Eng REG_RVBAR) ?rv]"
  show ?thesis
    using assms [of ?r ?rv] assms [of "?r @ [Write (Eng REG_RVBAR) (ane_t6021_rvbar_compose d)]" ?rv]
    by (auto simp: boot_rvbar_def phase_def wp)
qed

lemma wp_release: "wp boot_release Q s = Q () (s\<lparr>trace := trace s @ [Phase ''P3 cpu-release'', Write (Eng REG_CPUCTRL) 0,
    Phase ''P3b cpu-release RUN=0x10'', Write (Eng REG_CPUCTRL) 0x10], cpu_started := True\<rparr>)"
  by (simp add: boot_release_def phase_def wp ANE_T6021_CPU_RUN_RELEASE_def)

lemma wp_ifI: "(b \<Longrightarrow> wp m Q s) \<Longrightarrow> (\<not> b \<Longrightarrow> wp n Q s) \<Longrightarrow> wp (if b then m else n) Q s"
  by simp

lemma boot_run_wp: "wp (ane_t6021_boot_run E c) (\<lambda>_. run_post c s) s" for s :: "'m boot_scheme"
proof -
  let ?s = "s\<lparr>cpu_started := False, fw_alive := False, booted := False, scratch_result := 0\<rparr>"
  have halt: "run_post c s (?s\<lparr>trace := trace s @ es\<rparr>)" if "writes es = concat (take n (boot_stages c rv (boot_pool_iova s)))" "n \<le> 3" for es n rv
    using run_post_stop [of "?s\<lparr>trace := trace s @ es\<rparr>" s es n c rv] that by (simp add: flags_def)
  show ?thesis
  proof (cases "preflight_ok c \<and> preboot_table_mode c \<noteq> 0")
    case False
    then show ?thesis using halt [of "[]" 0] take_stages(1)
      by (cases "preflight_ok c") (simp_all only: ane_t6021_boot_run_def wp_bind wp_modify wp_ret simp_thms if_True if_False, simp_all)
  next
    case True
    show ?thesis
      unfolding ane_t6021_boot_run_def
      apply (simp only: True wp_bind wp_modify simp_thms if_False)
      apply (rule wp_puts [OF puts_table])
      apply (simp only: wp_bind)
      apply (rule wp_puts [OF puts_grant])
      apply (rule wp_ifI)
      subgoal for es fs
        using halt [of "es @ fs" 1] by (simp add: take_stages wp)
      apply (simp only: wp_bind)
      apply (rule wp_puts [OF puts_scratch])
      apply (rule wp_ifI)
      subgoal for es fs gs
        using halt [of "es @ fs @ gs" 2] by (simp add: take_stages wp)
      apply (simp only: wp_bind)
      apply (rule wp_rvbar)
      apply (rule wp_ifI)
      subgoal for es fs gs hs rv
        using halt [of "es @ fs @ gs @ hs" 3 rv] by (simp add: take_stages wp)
      apply (simp only: wp_bind wp_release)
      apply (rule wp_mono [OF ready_wp])
        apply simp
       apply simp
      subgoal for es fs gs hs rv r s'
        by (rule run_post_ready [where es = "es @ fs @ gs @ hs @ [Phase ''P3 cpu-release'', Write (Eng REG_CPUCTRL) 0,
              Phase ''P3b cpu-release RUN=0x10'', Write (Eng REG_CPUCTRL) 0x10]" and rv = rv]) (auto simp: take_stages)
      done
  qed
qed

lemma keeps_puts: "puts ws m \<Longrightarrow> (\<And>s t. I s \<Longrightarrow> I (s\<lparr>trace := t\<rparr>)) \<Longrightarrow> keeps I m"
  unfolding keeps_def by (blast intro: wp_puts)

lemma keeps_poll_ack: "(\<And>s t. I s \<Longrightarrow> I (s\<lparr>trace := t\<rparr>)) \<Longrightarrow> keeps I (poll_ack E n)"
  unfolding keeps_def by (blast intro: wp_poll_ack)

lemma keeps_rvbar: "(\<And>s t. I s \<Longrightarrow> I (s\<lparr>trace := t\<rparr>)) \<Longrightarrow> keeps I (boot_rvbar E d)"
  unfolding keeps_def by (blast intro: wp_rvbar)

lemma keeps_prims:
  "(\<And>s t. I s \<Longrightarrow> I (s\<lparr>trace := t\<rparr>)) \<Longrightarrow> keeps I (emit e)"
  "(\<And>s t. I s \<Longrightarrow> I (s\<lparr>trace := t\<rparr>)) \<Longrightarrow> keeps I (rdl E l)"
  "(\<And>s t. I s \<Longrightarrow> I (s\<lparr>trace := t\<rparr>)) \<Longrightarrow> keeps I (wrl l v)"
  by (simp_all add: keeps_def wp)

abbreviation refs_are :: "nat \<Rightarrow> 'm boot_scheme \<Rightarrow> bool" where
  "refs_are k \<equiv> \<lambda>s. module_refs s = k"

lemmas keeps_boot = keep keeps_puts [OF puts_table] keeps_puts [OF puts_grant] keeps_puts [OF puts_scratch]
  keeps_poll_ack keeps_rvbar keeps_prims keeps_alloc

lemma publish_refs: "keeps (refs_are k) (ane_t6021_boot_prepare_publish E src req s0 s1 pg ic hc)"
  unfolding ane_t6021_boot_prepare_publish_def prepare_surfaces_def prepare_heap_def prepare_fill_def Let_def
  by (intro keeps_boot) auto

lemma prepare_refs: "keeps (refs_are k) (ane_t6021_boot_prepare E)"
  unfolding ane_t6021_boot_prepare_def by (intro keeps_boot publish_refs) auto

lemma boot_run_refs: "keeps (refs_are k) (ane_t6021_boot_run E c)"
  unfolding ane_t6021_boot_run_def boot_release_def boot_ready_def boot_publish_def boot_done_def phase_def
  by (intro prepare_refs keeps_boot [unfolded phase_def]) auto

lemma keeps_seq_all [keep]: "(\<And>m. m \<in> set ms \<Longrightarrow> keeps I m) \<Longrightarrow> keeps I (seq_all ms)"
  by (induction ms) (auto intro!: keep)

lemma dump_keeps: "(\<And>s t. I s \<Longrightarrow> I (s\<lparr>trace := t\<rparr>)) \<Longrightarrow> keeps I (ane_t6021_boot_progress_dump E)"
  unfolding ane_t6021_boot_progress_dump_def by (intro keeps_boot keeps_seq_all) (auto intro!: keeps_boot)

lemma dump_no_eng: "extends no_eng_write (ane_t6021_boot_progress_dump E)"
  unfolding ane_t6021_boot_progress_dump_def by (intro exts) (auto simp: no_eng_write_def intro!: exts)

lemma run_post_mono:
  assumes "run_post c s t" "trace u = trace t @ es" "writes es = []" "flags u = flags t" "boot_pool_iova u = boot_pool_iova t"
  shows "run_post c s u"
proof -
  from assms(1) obtain fs n rv where "trace t = trace s @ fs" "n \<le> 5" and r:
     "let st = boot_stages c rv (boot_pool_iova t) in
      writes fs = concat (take n st) \<and> (cpu_started t \<longleftrightarrow> 4 \<le> n) \<and>
      (fw_alive t \<longrightarrow> acked_after (concat (take 4 st)) fs) \<and> (n = 5 \<longrightarrow> fw_alive t) \<and>
      (booted t \<longrightarrow> n = 5 \<and> acked_after (concat st) fs)" unfolding run_post_def by blast
  with assms(2-) show ?thesis
    unfolding run_post_def by (intro exI [of _ "fs @ es"] exI [of _ n] exI [of _ rv])
      (auto simp: Let_def flags_def intro: acked_after_append)
qed

definition start_cfg :: "int \<Rightarrow> int \<Rightarrow> bool \<Rightarrow> u64 \<Rightarrow> boot_cfg" where
  "start_cfg stop table_mode rtb dva = \<lparr>preflight_ok = ane_t6021_boot_preflight_complete, preboot_table_mode = table_mode,
     cfg_fw_dva = dva, rtb_mode = rtb, stop_after = stop\<rparr>"

lemma dump_wp:
  "wp (ane_t6021_boot_progress_dump E) (\<lambda>_ u. \<exists>es. u = t\<lparr>trace := trace t @ es\<rparr> \<and> writes es = []) t"
proof -
  have "keeps (\<lambda>u. t\<lparr>trace := []\<rparr> = u\<lparr>trace := []\<rparr>) (ane_t6021_boot_progress_dump E)"
    by (rule dump_keeps) simp
  from keepsD [OF this, of t] extendsD [OF dump_no_eng, of E t] show ?thesis
    unfolding wp_run
    apply clarsimp
    apply (drule no_eng_write_writes)
    apply (rule exI, rule conjI)
     prefer 2 apply assumption
    apply (metis mach.update_convs(1) mach.surjective mach.select_convs(1))
    done
qed


section \<open>The surfaces handed over\<close>

fun live_add :: "ev \<Rightarrow> (u64 \<times> u64) multiset \<Rightarrow> (u64 \<times> u64) multiset" where
  "live_add (Alloc sz (Some (p, d))) L = add_mset (sz, d) L"
| "live_add (Free sz d) L = L - {#(sz, d)#}"
| "live_add _ L = L"

definition live :: "trace \<Rightarrow> (u64 \<times> u64) multiset" where
  "live es = fold live_add es {#}"

definition allocs :: "(u64 \<times> u64) multiset \<Rightarrow> trace \<Rightarrow> bool" where
  "allocs M es \<longleftrightarrow> (\<forall>L. fold live_add es L = L + M)"

lemma allocs_append: "allocs M es \<Longrightarrow> allocs N fs \<Longrightarrow> allocs (M + N) (es @ fs)"
  by (simp add: allocs_def ac_simps)

lemma allocs_live: "allocs M es \<Longrightarrow> live es = M"
  by (simp add: allocs_def live_def)

definition pool_surface :: "boot_allocs \<Rightarrow> (u64 \<times> u64) multiset" where
  "pool_surface a = (if a_pool a = None then {#} else {#(0x40000, a_pool_dva a)#})"

definition alloc_surfaces :: "boot_allocs \<Rightarrow> (u64 \<times> u64) multiset" where
  "alloc_surfaces a = pool_surface a + (if a_ipc a = None then {#} else {#(a_ipc_size a, a_ipc_dva a)#}) +
     (if a_heap a = None then {#} else {#(a_heap_size a, a_heap_dva a)#})"

definition apart_from_alias :: "'m boot_scheme \<Rightarrow> (u64 \<times> u64) multiset \<Rightarrow> bool" where
  "apart_from_alias s M \<longleftrightarrow> (\<forall>(sz, d) \<in># M. ane_t6021_fw_alias_iova_ok s d sz)"

definition alloc_post :: "'m boot_scheme \<Rightarrow> u64 \<Rightarrow> (u64 \<times> u64) option \<Rightarrow> 'm boot_scheme \<Rightarrow> bool" where
  "alloc_post s sz r s' \<longleftrightarrow> (\<exists>es. s' = s\<lparr>trace := trace s @ es\<rparr> \<and>
     (case r of None \<Rightarrow> allocs {#} es | Some (p, d) \<Rightarrow> allocs {#(sz, d)#} es \<and> ane_t6021_fw_alias_iova_ok s d sz))"

lemma alloc_wp: "wp (ane_boot_alloc E sz) (alloc_post s sz) s" for s :: "'m boot_scheme"
proof -
  let ?r = "dma_result E (trace s) sz"
  have none: "alloc_post s sz None (s\<lparr>trace := trace s @ es\<rparr>)" if "allocs {#} es" for es
    using that by (auto simp: alloc_post_def)
  have some: "alloc_post s sz (Some (p, d)) (s\<lparr>trace := trace s @ [Alloc sz (Some (p, d))]\<rparr>)"
    if "ane_t6021_fw_alias_iova_ok s d sz" for p d
    using that by (auto simp: alloc_post_def allocs_def)
  have ok: "ane_t6021_fw_alias_iova_ok (s\<lparr>trace := t\<rparr>) d z = ane_t6021_fw_alias_iova_ok s d z" for t d z
    by (simp add: ane_t6021_fw_alias_iova_ok_def)
  show ?thesis
    using none [of "[Alloc sz None]"] none [of "[Alloc sz ?r, Free sz (snd (the ?r))]"] some
    by (auto simp: ane_boot_alloc_def wp ok allocs_def split: option.splits)
qed

lemma init_read:
  "(p, v, n) \<in> set (init_stores src hs hv ord) \<Longrightarrow> le_val n (ane_t6021_init_struct_fill src hs hv ord m) p = take_bit (8 * n) v"
  unfolding ane_t6021_init_struct_fill_def by (rule put_all_read) (simp add: init_stores_def)

text \<open>The fields of the init block that \<^verbatim>\<open>boot_prepare\<close> fills.\<close>

definition init_block_ok :: "bytes \<Rightarrow> u64 \<Rightarrow> u64 \<Rightarrow> u64 \<Rightarrow> u64 \<Rightarrow> u64 \<Rightarrow> bool" where
  "init_block_ok m fw ipc pool heap heap_sz \<longleftrightarrow>
     le_val 8 m 0 = fw \<and> le_val 8 m 8 = ipc \<and> le_val 8 m 0x10 = 0x500000 \<and> le_val 8 m 0x18 = 0x0fb00000 \<and> le_val 8 m 0x20 = heap \<and>
     le_val 8 m 0x28 = heap_sz \<and> le_val 8 m 0x58 = pool \<and> le_val 8 m 0x60 = 0x40000 \<and> le_val 4 m 0x68 = 0x40 \<and> le_val 1 m 0x12c = 4"

lemma init_block_filled:
  "init_block_ok (ane_t6021_init_struct_fill (boot_sources\<lparr>src_fw_dva := fw, src_ipc_dva := ipc, pool_dma := pool\<rparr>) hs heap ord m)
     fw ipc pool heap hs"
proof -
  let ?src = "boot_sources\<lparr>src_fw_dva := fw, src_ipc_dva := ipc, pool_dma := pool\<rparr>"
  have rd: "(p, v, n) \<in> set (init_stores ?src hs heap ord) \<Longrightarrow>
      le_val n (ane_t6021_init_struct_fill ?src hs heap ord m) p = take_bit (8 * n) v" for p v n by (rule init_read)
  show ?thesis
    unfolding init_block_ok_def
    using rd [of "0" "fw" "8"] rd [of "8" "ipc" "8"] rd [of "0x10" "0x500000" "8"] rd [of "0x18" "0x0fb00000" "8"] rd [of "0x20" "heap" "8"] rd [of "0x28" "hs" "8"]
      rd [of "0x58" "pool" "8"] rd [of "0x60" "0x40000" "8"] rd [of "0x68" "0x40" "4"] rd [of "0x12c" "4" "1"]
    by (simp add: init_stores_def boot_sources_def take_bit_fields)
qed

lemma prevent_nap_ok: "init_block_ok (m(0xf0 := b)) fw ipc pool heap hs = init_block_ok m fw ipc pool heap hs"
proof -
  have "le_val n (m(0xf0 := b)) i = le_val n m i" if "i + n \<le> 0xf0 \<or> 0xf0 < i" for n i
    by (rule le_val_cong) (use that in auto)
  then show ?thesis by (simp add: init_block_ok_def)
qed

definition publish_alloc_post ::
  "'m boot_scheme \<Rightarrow> u64 \<Rightarrow> (errno + u32 \<times> u32) \<times> boot_allocs \<Rightarrow> 'm boot_scheme \<Rightarrow> bool" where
  "publish_alloc_post s fw x s' \<longleftrightarrow> (case x of (r, a) \<Rightarrow>
     (\<exists>es. trace s' = trace s @ es \<and> allocs (alloc_surfaces a) es) \<and> fw_iova s' = fw_iova s \<and>
     apart_from_alias s (alloc_surfaces a) \<and>
     (\<forall>(sz, d) \<in># alloc_surfaces a. sz \<le> 0x2000000) \<and>
     (\<not> isl r \<longrightarrow> a_pool a \<noteq> None \<and> a_ipc a \<noteq> None \<and> 0x4000 \<le> a_ipc_size a \<and> a_ipc_size a \<le> 0x100000 \<and>
        (a_heap a = None \<longleftrightarrow> a_heap_size a = 0) \<and> a_heap_size a \<le> 0x2000000 \<and>
        init_block_ok (pool_mem s') fw (a_ipc_dva a) (a_pool_dva a) (a_heap_dva a) (a_heap_size a)))"

definition surfaces_post :: "'m boot_scheme \<Rightarrow> boot_allocs \<Rightarrow> errno option \<times> boot_allocs \<Rightarrow> 'm boot_scheme \<Rightarrow> bool" where
  "surfaces_post s a x s' \<longleftrightarrow> (case x of (e, a') \<Rightarrow>
     (\<exists>es. trace s' = trace s @ es \<and> allocs (alloc_surfaces a') es) \<and> fw_iova s' = fw_iova s \<and>
     apart_from_alias s (alloc_surfaces a') \<and> a_ipc_size a' = a_ipc_size a \<and> a_heap_size a' = a_heap_size a \<and>
     (e = None \<longrightarrow> a_pool a' \<noteq> None \<and> a_ipc a' \<noteq> None \<and> (a_heap a' = None \<longleftrightarrow> a_heap_size a' = 0)))"

lemma alloc_case:
  assumes "\<And>es. allocs {#} es \<Longrightarrow> wp m Q (s\<lparr>trace := trace s @ es\<rparr>)"
    "\<And>es p d. allocs {#(sz, d)#} es \<Longrightarrow> ane_t6021_fw_alias_iova_ok s d sz \<Longrightarrow> wp (f (p, d)) Q (s\<lparr>trace := trace s @ es\<rparr>)"
  shows "wp (State_Monad.bind (ane_boot_alloc E sz) (\<lambda>r. case r of None \<Rightarrow> m | Some y \<Rightarrow> f y)) Q s"
  unfolding wp_bind
  by (rule wp_mono [OF alloc_wp]) (use assms in \<open>auto simp: alloc_post_def wp split: option.splits\<close>)

lemma alias_ok_cong [simp]:
  "ane_t6021_fw_alias_iova_ok (s\<lparr>trace := t\<rparr>) d z = ane_t6021_fw_alias_iova_ok s d z"
  "ane_t6021_fw_alias_iova_ok (s\<lparr>pool_mem := m\<rparr>) d z = ane_t6021_fw_alias_iova_ok s d z"
  by (simp_all add: ane_t6021_fw_alias_iova_ok_def)

lemma heap_wp:
  assumes "a_heap a = None" "a_pool a \<noteq> None" "a_ipc a \<noteq> None"
  shows "wp (prepare_heap E a) (\<lambda>(e, a') s'. \<exists>es N. s' = s\<lparr>trace := trace s @ es\<rparr> \<and> allocs N es \<and> alloc_surfaces a' = alloc_surfaces a + N \<and>
     apart_from_alias s N \<and> a_ipc_size a' = a_ipc_size a \<and> a_heap_size a' = a_heap_size a \<and> a_pool a' \<noteq> None \<and> a_ipc a' \<noteq> None \<and>
     (e = None \<longrightarrow> (a_heap a' = None \<longleftrightarrow> a_heap_size a' = 0))) s"
proof (cases "a_heap_size a = 0")
  case True
  then show ?thesis using assms by (auto simp: prepare_heap_def wp allocs_def apart_from_alias_def intro!: exI [of _ "[]"])
next
  case False
  have "wp (ane_boot_alloc E (a_heap_size a)) (alloc_post s (a_heap_size a)) s" by (rule alloc_wp)
  then show ?thesis using False assms
    by (auto simp: prepare_heap_def wp alloc_post_def alloc_surfaces_def pool_surface_def apart_from_alias_def
        split: option.splits elim!: wp_mono) fastforce+
qed

lemma surfaces_wp:
  fixes s :: "'m boot_scheme"
  assumes a: "a_pool a = None" "a_ipc a = None" "a_heap a = None"
  shows "wp (prepare_surfaces E a) (surfaces_post s a) s"
proof -
  have none: "surfaces_post s a (Some ENOMEM, a) (s\<lparr>trace := trace s @ es\<rparr>)" if "allocs {#} es" for es
    using that a by (auto simp: surfaces_post_def alloc_surfaces_def pool_surface_def apart_from_alias_def)
  have one: "surfaces_post s a (Some ENOMEM, a\<lparr>a_pool := Some p, a_pool_dva := d\<rparr>) (s\<lparr>pool_mem := z, trace := trace s @ es @ fs\<rparr>)"
    if "allocs {#(0x40000, d)#} es" "allocs {#} fs" "ane_t6021_fw_alias_iova_ok s d 0x40000" for es fs p d z
    using that a allocs_append [OF that(1,2)]
    by (auto simp: surfaces_post_def alloc_surfaces_def pool_surface_def apart_from_alias_def)
  have two: "wp (prepare_heap E (a\<lparr>a_pool := Some p, a_pool_dva := d, a_ipc := Some q, a_ipc_dva := c\<rparr>)) (surfaces_post s a)
      (s\<lparr>pool_mem := z, trace := trace s @ es @ fs\<rparr>)"
    if al: "allocs {#(0x40000, d)#} es" "allocs {#(a_ipc_size a, c)#} fs" "ane_t6021_fw_alias_iova_ok s d 0x40000"
      "ane_t6021_fw_alias_iova_ok s c (a_ipc_size a)" for es fs p d q c z
  proof (rule wp_mono [OF heap_wp], goal_cases)
    case (4 x s')
    obtain e a' where x: "x = (e, a')" by (cases x)
    from 4 x obtain gs N where s': "s' = s\<lparr>pool_mem := z, trace := trace s @ es @ fs @ gs\<rparr>" "allocs N gs"
      and a': "alloc_surfaces a' = alloc_surfaces (a\<lparr>a_pool := Some p, a_pool_dva := d, a_ipc := Some q, a_ipc_dva := c\<rparr>) + N"
      "apart_from_alias s N" "a_ipc_size a' = a_ipc_size a" "a_heap_size a' = a_heap_size a" "a_pool a' \<noteq> None" "a_ipc a' \<noteq> None"
      "e = None \<longrightarrow> (a_heap a' = None \<longleftrightarrow> a_heap_size a' = 0)"
      by (auto simp: apart_from_alias_def)
    have M: "alloc_surfaces a' = {#(0x40000, d)#} + {#(a_ipc_size a, c)#} + N"
      unfolding a'(1) using a by (simp add: alloc_surfaces_def pool_surface_def)
    from allocs_append [OF allocs_append [OF al(1,2)] s'(2)] have "allocs (alloc_surfaces a') (es @ fs @ gs)"
      unfolding M by simp
    moreover have "apart_from_alias s (alloc_surfaces a')"
      unfolding M using a'(2) al by (auto simp: apart_from_alias_def)
    ultimately show ?case
      using s' a' x by (auto simp: surfaces_post_def)
  qed (use a in auto)
  show ?thesis
    unfolding prepare_surfaces_def
    by (rule alloc_case) (auto simp: wp_bind wp_modify wp_ret none intro!: alloc_case [unfolded wp_bind] one two)
qed

lemma ipc_size_min: "pg \<le> ane_t6021_ipc_size pg v"
  by (auto simp: ane_t6021_ipc_size_def Let_def not_less)

lemma heap_size_bound:
  "ane_t6021_heap_size req f m = Inr h \<Longrightarrow> f \<le> m \<Longrightarrow> h \<le> m"
  by (auto simp: ane_t6021_heap_size_def split: if_splits)

lemma surfaces_sizes:
  "a_ipc_size a \<le> 0x100000 \<Longrightarrow> a_heap_size a \<le> 0x2000000 \<Longrightarrow> \<forall>(sz, d) \<in># alloc_surfaces a. sz \<le> 0x2000000"
  using order_trans [of "a_ipc_size a" "0x100000" "0x2000000"] by (auto simp: alloc_surfaces_def pool_surface_def)

lemma publish_alloc_wp:
  fixes s :: "'m boot_scheme"
  shows "wp (ane_t6021_boot_prepare_publish E (boot_sources\<lparr>src_fw_dva := fw\<rparr>) req s0 s1 0x4000
     ANE_T6021_BOOT_IPC_CEILING ANE_T6021_BOOT_HEAP_CEILING) (publish_alloc_post s fw) s"
proof -
  let ?a = "no_allocs\<lparr>a_ipc_size := ane_t6021_ipc_size 0x4000 s1\<rparr>"
  have empty: "alloc_surfaces no_allocs = {#}" "alloc_surfaces ?a = {#}"
    by (simp_all add: alloc_surfaces_def pool_surface_def no_allocs_def)
  have refuse: "publish_alloc_post s fw (Inl e, a) s" if "alloc_surfaces a = {#}" for e a
    using that by (simp add: publish_alloc_post_def apart_from_alias_def allocs_def)
  have go: "wp (State_Monad.bind (prepare_surfaces E (?a\<lparr>a_heap_size := h\<rparr>)) (\<lambda>x. case x of
            (Some e, a') \<Rightarrow> ret (Inl e, a')
          | (None, a') \<Rightarrow> do {
              prepare_fill (boot_sources\<lparr>src_fw_dva := fw\<rparr>) s1 a';
              ret (Inr (ucast (a_pool_dva a' AND 0xffffffff), ucast (drop_bit 32 (a_pool_dva a'))), a') })) (publish_alloc_post s fw) s"
    if b: "ane_t6021_ipc_size 0x4000 s1 \<le> ANE_T6021_BOOT_IPC_CEILING" "h \<le> ANE_T6021_BOOT_HEAP_CEILING" for h
    unfolding wp_bind
  proof (rule wp_mono [OF surfaces_wp], goal_cases)
    case (4 x s')
    obtain e a' where x: "x = (e, a')" by (cases x)
    have sz: "a_ipc_size a' \<le> 0x100000" "a_heap_size a' \<le> 0x2000000" "0x4000 \<le> a_ipc_size a'"
      using 4 x b ipc_size_min [of "0x4000" s1]
      by (auto simp: surfaces_post_def ANE_T6021_BOOT_IPC_CEILING_def ANE_T6021_BOOT_HEAP_CEILING_def)
    show ?case
      using 4 x sz surfaces_sizes [OF sz(1,2)]
      by (cases e) (auto simp: wp surfaces_post_def publish_alloc_post_def prepare_fill_def init_block_filled)
  qed (simp_all add: no_allocs_def)
  have floor: "heap_floor (boot_sources\<lparr>src_fw_dva := fw\<rparr>) \<le> ANE_T6021_BOOT_HEAP_CEILING"
    by (simp add: boot_sources_def ANE_T6021_BOOT_HEAP_CEILING_def)
  show ?thesis
    unfolding ane_t6021_boot_prepare_publish_def Let_def
    apply (rule wp_ifI)
     apply (simp add: wp refuse empty)
    apply (rule wp_ifI)
     apply (simp add: wp refuse empty)
    apply (cases "ane_t6021_heap_size req (heap_floor (boot_sources\<lparr>src_fw_dva := fw\<rparr>)) ANE_T6021_BOOT_HEAP_CEILING")
     apply (simp add: wp refuse empty)
    using heap_size_bound [OF _ floor] by (auto intro!: go)
qed

definition surfaces :: "'m boot_scheme \<Rightarrow> (u64 \<times> u64) multiset" where
  "surfaces s = (if boot_pool s = None then {#} else {#(0x40000, boot_pool_iova s)#}) +
     (if boot_ipc s then {#(boot_ipc_size s, boot_ipc_iova s)#} else {#}) +
     (if boot_heap s = None then {#} else {#(boot_heap_size s, boot_heap_iova s)#})"

definition prepared :: "'m boot_scheme \<Rightarrow> (errno + u32 \<times> u32) \<Rightarrow> 'm boot_scheme \<Rightarrow> bool" where
  "prepared s r s' \<longleftrightarrow>
     (\<exists>es. trace s' = trace s @ es \<and> live es = surfaces s') \<and>
     (\<forall>(sz, d) \<in># surfaces s'. sz \<le> 0x2000000 \<and> ane_t6021_fw_alias_iova_ok s d sz) \<and>
     (\<forall>lo32 hi32. r = Inr (lo32, hi32) \<longrightarrow>
        boot_pool s' \<noteq> None \<and> boot_ipc s' \<and> 0x4000 \<le> boot_ipc_size s' \<and> boot_ipc_size s' \<le> 0x100000 \<and>
        (boot_heap s' = None \<longleftrightarrow> boot_heap_size s' = 0) \<and>
        ane_t6021_scratch64_join lo32 hi32 = boot_pool_iova s' \<and>
        init_block_ok (pool_mem s') (fw_iova s) (boot_ipc_iova s') (boot_pool_iova s') (boot_heap_iova s') (boot_heap_size s'))"

lemma join_halves: "ane_t6021_scratch64_join (fst (addr_halves d)) (snd (addr_halves d)) = d"
proof -
  have m: "0xffffffff = (mask 32 :: u64)" by (simp add: mask_eq_exp_minus_1)
  show ?thesis unfolding ane_t6021_scratch64_join_def addr_halves_def m
    by (rule bit_word_eqI) (auto simp: bit_simps)
qed

lemma prepare_alloc_wp: "wp (ane_t6021_boot_prepare E) (prepared s) s" for s :: "'m boot_scheme"
proof -
  have fin: "prepared s r u"
    if p: "publish_alloc_post (s\<lparr>trace := trace s @ rs\<rparr>) (fw_iova s) (r, a) s'" and rs: "allocs {#} rs"
      and r: "\<And>y. r = Inr y \<Longrightarrow> y = addr_halves (a_pool_dva a)"
      and u: "trace u = trace s'" "boot_pool u = a_pool a" "boot_pool_iova u = a_pool_dva a" "boot_ipc u = (a_ipc a \<noteq> None)"
        "boot_ipc_iova u = a_ipc_dva a" "boot_ipc_size u = a_ipc_size a" "boot_heap u = a_heap a"
        "boot_heap_iova u = a_heap_dva a" "boot_heap_size u = a_heap_size a"
        "pool_mem u = pool_mem s' \<or> (\<exists>w. pool_mem u = (pool_mem s')(0xf0 := w))" for rs r a s' u
  proof -
    from p obtain es where "trace s' = trace s @ rs @ es" "allocs (alloc_surfaces a) es"
      by (auto simp: publish_alloc_post_def)
    then have es: "\<exists>es. trace s' = trace s @ es \<and> live es = alloc_surfaces a"
      using allocs_live [OF allocs_append [OF rs]] by (intro exI [of _ "rs @ es"]) simp
    have M: "surfaces u = alloc_surfaces a"
      by (simp add: surfaces_def alloc_surfaces_def pool_surface_def u)
    have init: "init_block_ok (pool_mem u) = init_block_ok (pool_mem s')"
      using u(10) prevent_nap_ok [of "pool_mem s'"] by (intro ext) auto
    show ?thesis
      unfolding prepared_def M init u(1-9) using p es r join_halves [of "a_pool_dva a"]
      by (simp add: publish_alloc_post_def apart_from_alias_def split_beta) (metis fst_conv snd_conv isl_def sum.disc(2))
  qed
  show ?thesis
    unfolding ane_t6021_boot_prepare_def ane_t6021_boot_preflight_complete_def not_True_eq_False if_False wp_bind wp_rdl wp_get
    apply (rule wp_mono [OF wp_conj [OF publish_alloc_wp publish_result]])
    subgoal for x s'
      apply (cases x)
      apply (simp add: wp)
      apply (intro conjI impI)
      subgoal for r a by (elim conjE, erule fin) (auto simp: allocs_def)
      subgoal for r a by (elim conjE, erule fin) (auto simp: allocs_def)
      subgoal for r a by (elim conjE, erule fin) (auto simp: allocs_def)
      done
    done
qed

text \<open>C18: Whatever the firmware asks for, and on every path including the failing ones, each DMA surface
  \<^verbatim>\<open>boot_prepare\<close> leaves allocated is recorded in the device state, none is recorded that is not
  allocated, every one is at most 32 MiB and lies off the firmware alias.  On success the IPC surface has
  between 16 KiB and 1 MiB, the published halves are the address of the pool surface, and the init block
  read back from it names the firmware, the IPC surface, the pool and the heap with its size.\<close>

theorem boot_prepare_hands_over:
  fixes s s' :: "'m boot_scheme"
  assumes "run_state (ane_t6021_boot_prepare E) s = (r, s')"
  shows "(\<exists>es. trace s' = trace s @ es \<and> live es = surfaces s') \<and>
     (\<forall>(sz, d) \<in># surfaces s'. sz \<le> 0x2000000 \<and> ane_t6021_fw_alias_iova_ok s d sz) \<and>
     (\<forall>lo32 hi32. r = Inr (lo32, hi32) \<longrightarrow>
        boot_pool s' \<noteq> None \<and> boot_ipc s' \<and> 0x4000 \<le> boot_ipc_size s' \<and> boot_ipc_size s' \<le> 0x100000 \<and>
        (boot_heap s' = None \<longleftrightarrow> boot_heap_size s' = 0) \<and>
        ane_t6021_scratch64_join lo32 hi32 = boot_pool_iova s' \<and>
        init_block_ok (pool_mem s') (fw_iova s) (boot_ipc_iova s') (boot_pool_iova s') (boot_heap_iova s') (boot_heap_size s'))"
  using assms prepare_alloc_wp [of E s] by (simp add: wp_run prepared_def)

end
