(* ===== verification/Ane_Boot_Runs.thy ===== *)
theory Ane_Boot_Runs
  imports Ane_Boot
begin

text \<open>
  The boot sequence with a firmware that answers, the preparation of the host rings that follows it,
  and concrete runs of the boot.
\<close>

section \<open>A responsive firmware boots\<close>

text \<open>The number of sleeps since the last engine write.\<close>

definition sleeps_since :: "trace \<Rightarrow> nat" where
  "sleeps_since tr = length (filter (\<lambda>e. e = Sleep) (takeWhile (\<lambda>e. writes [e] = []) (rev tr)))"

lemma sleeps_since_snoc [simp]:
  "sleeps_since (tr @ [Sleep]) = Suc (sleeps_since tr)"
  "sleeps_since (tr @ [Read l v]) = sleeps_since tr"
  by (simp_all add: sleeps_since_def)

definition released :: "trace \<Rightarrow> bool" where
  "released tr \<longleftrightarrow> Write (Eng REG_CPUCTRL) ANE_T6021_CPU_RUN_RELEASE \<in> set tr"

text \<open>The firmware acknowledges within \<open>n\<close> sleeps of the write it waits for.\<close>

definition responsive :: "'e env_scheme \<Rightarrow> nat \<Rightarrow> bool" where
  "responsive E n \<longleftrightarrow> (\<forall>tr. released tr \<and> n \<le> sleeps_since tr \<longrightarrow>
     (ucast (rd E tr (Eng REG_SCRATCH7)) :: u32) = ANE_T6021_BOOT_ACK)"

text \<open>What it asks for is within the ceilings.\<close>

definition modest :: "'e env_scheme \<Rightarrow> bool" where
  "modest E \<longleftrightarrow> (\<forall>tr. (ucast (rd E tr (Eng REG_SCRATCH0)) :: u32) < ANE_T6021_BOOT_IPC_REQ_THRESHOLD \<and>
     ane_t6021_ipc_size 0x4000 (ucast (rd E tr (Eng REG_SCRATCH1))) \<le> ANE_T6021_BOOT_IPC_CEILING \<and>
     ucast (ucast (rd E tr (Eng REG_SCRATCH3)) :: u32) \<le> ANE_T6021_BOOT_HEAP_CEILING)"

text \<open>The allocator serves every request, off the alias of the firmware.\<close>

definition generous :: "'e env_scheme \<Rightarrow> 'm rtc_scheme \<Rightarrow> bool" where
  "generous E s \<longleftrightarrow> (\<forall>tr sz. \<exists>p d. dma_result E tr sz = Some (p, d) \<and> ane_t6021_fw_alias_iova_ok s d sz)"

lemma poll_ack_answers:
  assumes "responsive E N" "released (trace s)" "sleeps_since (trace s) \<le> N" "N < n + sleeps_since (trace s)"
  shows "wp (poll_ack E n) (\<lambda>b s'. b \<and> (\<exists>es. s' = s\<lparr>trace := trace s @ es\<rparr>)) s"
  using assms(2-)
proof (induction n arbitrary: s)
  case (Suc n)
  let ?v = "rd E (trace s) (Eng REG_SCRATCH7)"
  let ?t = "s\<lparr>trace := trace s @ [Read (Eng REG_SCRATCH7) ?v] @ [Sleep]\<rparr>"
  show ?case
  proof (cases "(ucast ?v :: u32) = ANE_T6021_BOOT_ACK")
    case True
    then show ?thesis by (auto simp: wp)
  next
    case False
    with assms(1) Suc.prems have "sleeps_since (trace s) < N" by (auto simp: responsive_def not_le)
    moreover have "sleeps_since (trace ?t) = Suc (sleeps_since (trace s))"
      using sleeps_since_snoc(1) [of "trace s @ [Read (Eng REG_SCRATCH7) ?v]"] by simp
    ultimately have "wp (poll_ack E n) (\<lambda>b s'. b \<and> (\<exists>es. s' = ?t\<lparr>trace := trace ?t @ es\<rparr>)) ?t"
      using Suc.prems by (intro Suc.IH) (auto simp: released_def)
    then show ?thesis using False by (auto simp: wp elim!: wp_mono)
  qed
qed simp

lemma alloc_served:
  assumes "generous E s"
  shows "wp (ane_boot_alloc E sz) (\<lambda>r s'. \<exists>p d es. r = Some (p, d) \<and> s' = s\<lparr>trace := trace s @ es\<rparr>) s"
proof -
  from assms obtain p d where "dma_result E (trace s) sz = Some (p, d)" "ane_t6021_fw_alias_iova_ok s d sz"
    unfolding generous_def by blast
  then show ?thesis by (auto simp: ane_boot_alloc_def wp alias_ok_cong)
qed

lemma generous_cong [simp]:
  "generous E (s\<lparr>trace := t\<rparr>) = generous E s" "generous E (s\<lparr>pool_mem := m\<rparr>) = generous E s"
  "generous E (s\<lparr>fw_alive := b\<rparr>) = generous E s" "generous E (s\<lparr>cpu_started := b\<rparr>) = generous E s"
  "generous E (s\<lparr>booted := b\<rparr>) = generous E s" "generous E (s\<lparr>scratch_result := v\<rparr>) = generous E s"
  "generous E (s\<lparr>module_refs := k\<rparr>) = generous E s"
  by (simp_all add: generous_def ane_t6021_fw_alias_iova_ok_def)

lemma surfaces_served:
  assumes "generous E s"
  shows "wp (prepare_surfaces E a) (\<lambda>x _. fst x = None) s"
proof -
  have heap: "wp (prepare_heap E b) (\<lambda>x _. fst x = None) t" if "generous E t" for b t
    using alloc_served [OF that, of "a_heap_size b"] by (auto simp: prepare_heap_def wp elim!: wp_mono)
  show ?thesis
    using assms unfolding prepare_surfaces_def
    by (auto simp: wp intro!: wp_mono [OF alloc_served] heap)
qed

lemma prepare_served:
  assumes "generous E s" "modest E"
  shows "wp (ane_t6021_boot_prepare E) (\<lambda>r _. \<not> isl r) s"
proof -
  have heap: "\<exists>h. ane_t6021_heap_size req f m = Inr h" if "ucast req \<le> m" for req f m
    using that by (auto simp: ane_t6021_heap_size_def)
  have "wp (ane_t6021_boot_prepare_publish E src (ucast (rd E t3 (Eng REG_SCRATCH3))) (ucast (rd E t1 (Eng REG_SCRATCH0)))
      (ucast (rd E t2 (Eng REG_SCRATCH1))) 0x4000 ANE_T6021_BOOT_IPC_CEILING ANE_T6021_BOOT_HEAP_CEILING) (\<lambda>x _. \<not> isl (fst x))
      (s\<lparr>trace := t\<rparr>)" for src t t1 t2 t3
  proof -
    from assms(2) obtain h where "ane_t6021_heap_size (ucast (rd E t3 (Eng REG_SCRATCH3))) (heap_floor src) ANE_T6021_BOOT_HEAP_CEILING = Inr h"
      using heap unfolding modest_def by metis
    moreover have "\<not> (ucast (rd E t1 (Eng REG_SCRATCH0)) :: u32) \<ge> ANE_T6021_BOOT_IPC_REQ_THRESHOLD"
      "\<not> ane_t6021_ipc_size 0x4000 (ucast (rd E t2 (Eng REG_SCRATCH1))) > ANE_T6021_BOOT_IPC_CEILING"
      using assms(2) by (auto simp: modest_def not_le not_less)
    ultimately show ?thesis
      using assms(1) by (auto simp: ane_t6021_boot_prepare_publish_def prepare_fill_def wp Let_def intro!: wp_mono [OF surfaces_served])
  qed
  then show ?thesis
    unfolding ane_t6021_boot_prepare_def ane_t6021_boot_preflight_complete_def not_True_eq_False if_False wp_bind wp_rdl wp_get
    apply simp
    apply (rule wp_mono, assumption)
    apply (auto simp: wp)
    done
qed

definition up :: "errno option \<Rightarrow> 'm boot_scheme \<Rightarrow> bool" where
  "up r s \<longleftrightarrow> r = None \<and> flags s = (True, True, True)"

lemma released_app [simp]: "released (a @ b) \<longleftrightarrow> released a \<or> released b"
  by (auto simp: released_def)

lemma done_served:
  fixes s :: "'m boot_scheme"
  assumes "responsive E N" "N < ANE_T6021_BOOT_TABLE_POLLS" "released (trace s)" "flags s = (True, True, b)"
  shows "wp (boot_done E) up s"
proof -
  let ?t = "s\<lparr>trace := trace s @ [Phase ''P6 wake'', Write (Eng REG_SCRATCH7) ANE_T6021_BOOT_WAKE_REQ, Phase ''P7 pollB-DONE'']\<rparr>"
  have "wp (poll_ack E ANE_T6021_BOOT_TABLE_POLLS) (\<lambda>b s'. b \<and> (\<exists>es. s' = ?t\<lparr>trace := trace ?t @ es\<rparr>)) ?t"
    by (rule poll_ack_answers [OF assms(1)]) (use assms in \<open>auto simp: sleeps_since_def\<close>)
  then show ?thesis
    using assms(4) unfolding boot_done_def phase_def
    by (auto simp: wp up_def flags_def elim!: wp_mono)
qed

lemma publish_served:
  fixes s :: "'m boot_scheme"
  assumes "responsive E N" "N < ANE_T6021_BOOT_TABLE_POLLS" "modest E" "generous E s" "released (trace s)" "flags s = (True, True, b)"
  shows "wp (boot_publish E) up s"
proof -
  let ?t = "s\<lparr>trace := trace s @ [Phase ''P5 prepare+publish'']\<rparr>"
  have "generous E ?t" using assms(4) by simp
  from wp_conj [OF prepare_served [OF this assms(3)] prepare_wp [of E ?t]]
  have "wp (ane_t6021_boot_prepare E) (\<lambda>r s'. \<not> isl r \<and> flags s' = (True, True, b) \<and> released (trace s')) ?t"
    using assms(5,6) by (auto elim!: wp_mono)
  then show ?thesis
    unfolding boot_publish_def phase_def wp
    by (auto elim!: wp_mono simp: wp split: sum.splits intro!: done_served [OF assms(1,2), where b = b])
qed

lemma ready_served:
  fixes s :: "'m boot_scheme"
  assumes "responsive E N" "N < ANE_T6021_BOOT_TABLE_POLLS" "modest E" "generous E s" "cpu_started s" "\<not> booted s"
    "trace s = tr @ [Write (Eng REG_CPUCTRL) ANE_T6021_CPU_RUN_RELEASE]" "stop_after c \<noteq> 4" "\<not> rtb_mode c"
  shows "wp (boot_ready E c) up s"
proof -
  let ?t = "s\<lparr>trace := trace s @ [Phase ''P4 pollA-READY'']\<rparr>"
  have "wp (poll_ack E ANE_T6021_BOOT_TABLE_POLLS) (\<lambda>b s'. b \<and> (\<exists>es. s' = ?t\<lparr>trace := trace ?t @ es\<rparr>)) ?t"
    by (rule poll_ack_answers [OF assms(1)]) (use assms in \<open>auto simp: sleeps_since_def released_def\<close>)
  then show ?thesis
    using assms(4-) unfolding boot_ready_def phase_def
    by (auto simp: wp released_def flags_def elim!: wp_mono intro!: publish_served [OF assms(1,2,3)])
qed

lemma run_served:
  fixes s :: "'m boot_scheme"
  assumes "responsive E N" "N < ANE_T6021_BOOT_TABLE_POLLS" "modest E" "generous E s"
    "preflight_ok c" "preboot_table_mode c \<noteq> 0" "stop_after c \<notin> {1, 2, 3, 4}" "\<not> rtb_mode c"
  shows "wp (ane_t6021_boot_run E c) up s"
  unfolding ane_t6021_boot_run_def using assms(5-)
  apply (simp only: wp_bind wp_modify simp_thms if_False insert_iff empty_iff de_Morgan_disj)
  apply (rule wp_puts [OF puts_table])
  apply (simp only: wp_bind)
  apply (rule wp_puts [OF puts_grant])
  apply (simp only: wp_bind)
  apply (rule wp_puts [OF puts_scratch])
  apply (simp only: wp_bind)
  apply (rule wp_rvbar)
  apply (simp only: wp_bind wp_release)
  apply (rule ready_served [OF assms(1,2,3)])
  using assms(4) apply (simp_all add: ANE_T6021_CPU_RUN_RELEASE_def)
  done

lemma start_served:
  fixes s :: "'m boot_scheme"
  assumes "module_live E" "responsive E N" "N < ANE_T6021_BOOT_TABLE_POLLS" "modest E" "generous E s"
    "mode \<noteq> 0" "stop \<notin> {1, 2, 3, 4}"
  shows "wp (ane_t6021_boot_start E stop mode False) up s"
  unfolding ane_t6021_boot_start_def using assms(1,7)
  by (auto simp: wp up_def flags_def assms ane_t6021_boot_preflight_complete_def
      intro!: wp_mono [OF run_served [OF assms(2-4)]])

text \<open>C19: When the firmware acknowledges the release and the wake within fewer sleeps than the driver polls,
  asks for no more than the ceilings and the allocator serves the requests off the alias, a boot in
  channel-manager mode that is neither withheld nor stopped early returns, with success and with the
  firmware started, alive and booted.\<close>

theorem responsive_firmware_boots:
  fixes s :: "'m boot_scheme"
  assumes "module_live E" "responsive E N" "N < ANE_T6021_BOOT_TABLE_POLLS" "modest E" "generous E s"
    "mode \<noteq> 0" "stop \<notin> {1, 2, 3, 4}"
  shows "\<exists>s'. run_state (ane_t6021_boot_start E stop mode False) s = (None, s') \<and>
     cpu_started s' \<and> fw_alive s' \<and> booted s'"
  using start_served [OF assms] by (auto simp: wp_def up_def flags_def split: prod.splits)

section \<open>The host rings\<close>

fun ascending :: "nat \<Rightarrow> store list \<Rightarrow> bool" where
  "ascending a [] = True"
| "ascending a ((p, v, n) # ws) \<longleftrightarrow> a \<le> p \<and> ascending (p + n) ws"

lemma ascending_bound: "ascending a ws \<Longrightarrow> (q, w, k) \<in> set ws \<Longrightarrow> a \<le> q"
  by (induction a ws rule: ascending.induct) fastforce+

lemma ascending_disjoint: "ascending a ws \<Longrightarrow> disjoint_stores ws"
  by (induction a ws rule: ascending.induct) (fastforce simp: list_all_iff dest: ascending_bound)+

definition host_stores :: "store list" where
  "host_stores = concat (map slot_stores (filter (\<lambda>c. cs_type c = 0) ane_t6021_chman_layout))"

lemma host_stores_ascending: "ascending 0x800 host_stores"
  by code_simp

lemma host_stores_range: "list_all (\<lambda>(p, v, n). 0x800 \<le> p \<and> p + n \<le> 0x10440) host_stores"
  by code_simp

lemma host_stores_mem:
  "set host_stores = (\<Union>c\<in>{c \<in> set ane_t6021_chman_layout. cs_type c = 0}. \<Union>slot\<in>{0..<cs_size c}.
     {(cs_off c + slot * 0x40, 1, 8), (cs_off c + slot * 0x40 + 8, 0, 8), (cs_off c + slot * 0x40 + 16, 0, 8)})"
  by (simp add: host_stores_def slot_stores_def Let_def)

text \<open>The bytes of the slots of the host-to-firmware rings.\<close>

definition slot_byte :: "nat \<Rightarrow> bool" where
  "slot_byte a \<longleftrightarrow> (\<exists>c\<in>set ane_t6021_chman_layout. \<exists>slot<cs_size c. cs_type c = 0 \<and>
     cs_off c + slot * 0x40 \<le> a \<and> a < cs_off c + slot * 0x40 + 24)"

lemma put_host_other: "\<not> slot_byte a \<Longrightarrow> put_all host_stores m a = m a"
proof (rule put_all_other, rule ballI)
  fix w
  assume no: "\<not> slot_byte a" and "w \<in> set host_stores"
  then obtain c slot where c: "c \<in> set ane_t6021_chman_layout" "cs_type c = 0" "slot < cs_size c"
    and w: "w \<in> {(cs_off c + slot * 0x40, 1, 8), (cs_off c + slot * 0x40 + 8, 0, 8), (cs_off c + slot * 0x40 + 16, 0, 8)}"
    unfolding host_stores_mem by auto
  from no c have "\<not> (cs_off c + slot * 0x40 \<le> a \<and> a < cs_off c + slot * 0x40 + 24)" unfolding slot_byte_def by blast
  with w show "\<not> covers w a" by (auto simp: covers_def)
qed

lemma host_store_byte:
  "(p, v, n) \<in> set host_stores \<Longrightarrow> k < n \<Longrightarrow> put_all host_stores m (p + k) = ucast (drop_bit (8 * k) v)"
  by (rule put_all_at [OF ascending_disjoint [OF host_stores_ascending]])

lemma slot_bytes:
  assumes "c \<in> set ane_t6021_chman_layout" "cs_type c = 0" "slot < cs_size c" "k < 24"
  shows "put_all host_stores m (cs_off c + slot * 0x40 + k) = (if k = 0 then 1 else 0)"
proof -
  let ?e = "cs_off c + slot * 0x40"
  have mem: "(?e, 1, 8) \<in> set host_stores" "(?e + 8, 0, 8) \<in> set host_stores" "(?e + 16, 0, 8) \<in> set host_stores"
    using assms(1-3) unfolding host_stores_mem by force+
  have "k < 8 \<or> (\<exists>j<8. k = 8 + j) \<or> (\<exists>j<8. k = 16 + j)" using assms(4) by presburger
  then consider "k < 8" | j where "k = 8 + j" "j < 8" | j where "k = 16 + j" "j < 8" by blast
  then show ?thesis
  proof cases
    case 1
    then have "(ucast (drop_bit (8 * k) (1 :: u64)) :: u8) = (if k = 0 then 1 else 0)"
      by (intro bit_word_eqI) (auto simp: bit_simps)
    with host_store_byte [OF mem(1) 1, of m] show ?thesis by simp
  next
    case (2 j)
    with host_store_byte [OF mem(2) 2(2), of m] show ?thesis by (simp add: add.assoc)
  next
    case (3 j)
    with host_store_byte [OF mem(3) 3(2), of m] show ?thesis by (simp add: add.assoc)
  qed
qed

lemma slot_byte_range: "slot_byte a \<Longrightarrow> 0x800 \<le> a \<and> a < 0x10440"
  by (auto simp: slot_byte_def ane_t6021_chman_layout_def chman_static_of_def)

lemma table_cong:
  assumes "\<And>a. a < 0x800 \<Longrightarrow> m a = m' a"
  shows "chman_descs m = chman_descs m'"
proof -
  have "le_val n m (0x100 * i + k) = le_val n m' (0x100 * i + k)" if "i < 8" "k + n \<le> 0x58" for i k n
    using that by (intro le_val_cong assms) simp
  then show ?thesis
    unfolding chman_descs_def ANE_T6021_CHMAN_COUNT_def ANE_T6021_CHMAN_NAME_LEN_def by (auto intro!: assms)
qed

text \<open>C31: The rings are prepared only when the surface is large enough, its address range does not wrap and
  the whole channel table matches the layout.  Then every slot of every host-to-firmware ring starts with
  the ownership byte 1 followed by 23 zero bytes; no other byte of the surface changes, the bytes written
  lie inside the surface, and the channel table still validates.  Otherwise nothing is written.\<close>

theorem host_rings_prepared:
  assumes "ane_t6021_chman_host_init (Some m) sz dva = (ok, Some m')"
  shows "(ok \<longleftrightarrow> ANE_T6021_CHMAN_TOTAL \<le> sz \<and> dva \<le> NOT 0 - ANE_T6021_CHMAN_TOTAL \<and> ane_t6021_chman_check (chman_descs m) dva = 0) \<and>
    (\<not> ok \<longrightarrow> m' = m) \<and>
    (ok \<longrightarrow> (\<forall>c\<in>set ane_t6021_chman_layout. cs_type c = 0 \<longrightarrow> (\<forall>slot<cs_size c. \<forall>k<24.
         m' (cs_off c + slot * 0x40 + k) = (if k = 0 then 1 else 0))) \<and>
      (\<forall>a. \<not> slot_byte a \<longrightarrow> m' a = m a) \<and> (\<forall>a. slot_byte a \<longrightarrow> a < unat sz) \<and>
      ane_t6021_chman_check (chman_descs m') dva = 0)"
proof -
  have tab: "chman_descs (put_all host_stores m) = chman_descs m"
    by (rule table_cong) (metis put_host_other slot_byte_range not_less)
  have "a < unat sz" if "slot_byte a" "ANE_T6021_CHMAN_TOTAL \<le> sz" for a
    using slot_byte_range [OF that(1)] that(2) by (simp add: ANE_T6021_CHMAN_TOTAL_def word_le_nat_alt)
  with assms tab show ?thesis
    unfolding ane_t6021_chman_host_init_def host_stores_def [symmetric]
    by (auto simp: put_host_other slot_bytes slot_bytes [where k = 0, simplified] not_le not_less split: if_splits)
qed

section \<open>Runs\<close>

text \<open>A firmware that acknowledges after two sleeps and asks for nothing.\<close>

definition live_env :: boot_env where
  "live_env = \<lparr>rd = (\<lambda>tr l. if l = Eng REG_SCRATCH7 \<and> 2 \<le> sleeps_since tr then ucast ANE_T6021_BOOT_ACK else 0),
     dmalloc = (\<lambda>tr sz. Some (0x1000, 0x40000)), polls = (\<lambda>_. 0), boot_prevent_nap = True, module_live = True\<rparr>"

definition cold :: boot where
  "cold = \<lparr>trace = [], legacy_buffers = [], legacy_last = 0, legacy_allocated = 0, legacy_bytes = 0, legacy_malloc_cursor = 0,
     legacy_cmd_cursor = [], cmd_buf = None, held = False, chman_ok = False, fw_present = True, boot_ipc = False, boot_ipc_cpu = 0,
     boot_ipc_iova = 0, boot_ipc_size = 0, fw_alias_iova = 0, fw_size = 0, quarantined = False, fw_iova = 0x800000,
     cpu_started = False, fw_alive = False, booted = False, scratch_result = 0, boot_pool = None, boot_pool_iova = 0,
     pool_mem = (\<lambda>_. 0), boot_heap = None, boot_heap_iova = 0, boot_heap_size = 0, module_refs = 0\<rparr>"

lemma live_env_facts:
  "module_live live_env" "responsive live_env 2" "2 < ANE_T6021_BOOT_TABLE_POLLS" "modest live_env" "generous live_env cold"
  by (simp_all add: live_env_def responsive_def modest_def generous_def dma_result_def ANE_T6021_BOOT_TABLE_POLLS_def cold_def
      ANE_T6021_BOOT_IPC_REQ_THRESHOLD_def ane_t6021_ipc_size_def ANE_T6021_BOOT_IPC_CEILING_def ane_t6021_fw_alias_iova_ok_def
      ANE_T6021_BOOT_ACK_def Let_def)

theorem responsive_firmware_boots_witness:
  "\<exists>s'. run_state (ane_t6021_boot_start live_env 0 1 False) cold = (None, s') \<and> cpu_started s' \<and> fw_alive s' \<and> booted s'"
  by (rule responsive_firmware_boots [OF live_env_facts]) simp_all


theorem boot_prepare_hands_over_witness:
  "\<exists>lo32 hi32 s'. run_state (ane_t6021_boot_prepare live_env) cold = (Inr (lo32, hi32), s') \<and> live (trace s') = surfaces s' \<and>
     ane_t6021_scratch64_join lo32 hi32 = boot_pool_iova s' \<and>
     init_block_ok (pool_mem s') 0x800000 (boot_ipc_iova s') (boot_pool_iova s') (boot_heap_iova s') (boot_heap_size s')"
proof -
  from prepare_served [OF live_env_facts(5,4)] obtain l h s' where
    s': "run_state (ane_t6021_boot_prepare live_env) cold = (Inr (l, h), s')"
    by (auto simp: wp_def split: prod.splits) (metis isl_def obj_sumE old.prod.exhaust)
  from boot_prepare_hands_over [OF s'] show ?thesis using s' by (auto simp: cold_def)
qed

text \<open>A surface on which the firmware published the layout, at address \<open>0x20000\<close>.\<close>

definition word_byte :: "u64 \<Rightarrow> nat \<Rightarrow> u8" where
  "word_byte v k = ucast (drop_bit (8 * k) v)"

definition name_byte :: "string \<Rightarrow> nat \<Rightarrow> u8" where
  "name_byte w k = (if k < length w then of_nat (of_char (w ! k)) else 0)"

definition desc_byte :: "chman_static \<Rightarrow> nat \<Rightarrow> u8" where
  "desc_byte c k =
     (if k < 0x40 then name_byte (cs_name c) k
      else if k < 0x44 then word_byte (ucast (cs_type c)) (k - 0x40)
      else if k < 0x48 then word_byte (of_nat (cs_bit c)) (k - 0x44)
      else if k < 0x50 then word_byte (of_nat (cs_size c)) (k - 0x48)
      else if k < 0x58 then word_byte (0x20000 + of_nat (cs_off c)) (k - 0x50)
      else 0)"

definition ipc_bytes :: bytes where
  "ipc_bytes a = (if a < 0x800 then desc_byte (ane_t6021_chman_layout ! (a div 0x100)) (a mod 0x100) else 0)"

definition desc_of :: "chman_static \<Rightarrow> chman_desc" where
  "desc_of c = \<lparr>cd_name = map (name_byte (cs_name c)) [0..<64], cd_type = ucast (take_bit 32 (ucast (cs_type c) :: u64)),
     cd_bit = ucast (take_bit 32 (of_nat (cs_bit c)) :: u64), cd_size = of_nat (cs_size c), cd_ring = 0x20000 + of_nat (cs_off c)\<rparr>"

lemma ipc_byte: "i < 8 \<Longrightarrow> k < 0x100 \<Longrightarrow> ipc_bytes (0x100 * i + k) = desc_byte (ane_t6021_chman_layout ! i) k"
  by (simp add: ipc_bytes_def)

lemma ipc_field:
  assumes "i < 8" "b + n \<le> 0x100" "\<And>k. k < n \<Longrightarrow> desc_byte (ane_t6021_chman_layout ! i) (b + k) = word_byte v k"
  shows "le_val n ipc_bytes (0x100 * i + b) = take_bit (8 * n) v"
  by (rule le_val_bytes) (use assms ipc_byte [of i "b + _"] in \<open>auto simp: word_byte_def add.assoc\<close>)

lemma ipc_descs_eq: "chman_descs ipc_bytes = map desc_of ane_t6021_chman_layout"
proof -
  have len: "length ane_t6021_chman_layout = 8" by (simp add: ane_t6021_chman_layout_def)
  let ?d = "\<lambda>i. ane_t6021_chman_layout ! i"
  have "le_val 4 ipc_bytes (0x100 * i + 0x40) = take_bit 32 (ucast (cs_type (?d i)))"
    "le_val 4 ipc_bytes (0x100 * i + 0x44) = take_bit 32 (of_nat (cs_bit (?d i)))"
    "le_val 8 ipc_bytes (0x100 * i + 0x48) = of_nat (cs_size (?d i))"
    "le_val 8 ipc_bytes (0x100 * i + 0x50) = 0x20000 + of_nat (cs_off (?d i))" if "i < 8" for i
    using ipc_field [OF that, of "0x40" 4 "ucast (cs_type (?d i))"] ipc_field [OF that, of "0x44" 4 "of_nat (cs_bit (?d i))"]
      ipc_field [OF that, of "0x48" 8 "of_nat (cs_size (?d i))"] ipc_field [OF that, of "0x50" 8 "0x20000 + of_nat (cs_off (?d i))"]
    by (simp_all add: desc_byte_def take_bit_64_u64)
  moreover have "map (\<lambda>k. ipc_bytes (0x100 * i + k)) [0..<64] = map (name_byte (cs_name (?d i))) [0..<64]" if "i < 8" for i
    using that by (intro map_cong refl) (simp add: ipc_byte desc_byte_def)
  ultimately show ?thesis
    unfolding chman_descs_def ANE_T6021_CHMAN_COUNT_def ANE_T6021_CHMAN_NAME_LEN_def
    by (intro nth_equalityI) (simp_all add: len desc_of_def)
qed

lemma ipc_descs: "ane_t6021_chman_check (chman_descs ipc_bytes) 0x20000 = 0"
  unfolding ipc_descs_eq by code_simp

theorem host_rings_prepared_witness:
  "ane_t6021_chman_host_init (Some ipc_bytes) 0x14000 0x20000 = (True, Some (put_all host_stores ipc_bytes)) \<and>
   put_all host_stores ipc_bytes 0xc840 = 1 \<and> put_all host_stores ipc_bytes 0xc841 = 0 \<and>
   ane_t6021_chman_check (chman_descs (put_all host_stores ipc_bytes)) 0x20000 = 0"
proof -
  have run: "ane_t6021_chman_host_init (Some ipc_bytes) 0x14000 0x20000 = (True, Some (put_all host_stores ipc_bytes))"
    by (simp add: ane_t6021_chman_host_init_def ipc_descs ANE_T6021_CHMAN_TOTAL_def host_stores_def)
  let ?c = "chman_static_of ''IO'' 0 1 0x010 0xc800"
  have c: "?c \<in> set ane_t6021_chman_layout" "cs_type ?c = 0" "cs_size ?c = 0x10" "cs_off ?c = 0xc800"
    by (simp_all add: ane_t6021_chman_layout_def chman_static_of_def)
  note h = host_rings_prepared [OF run]
  then have ring: "cs_type ?c = 0 \<longrightarrow> (\<forall>slot<cs_size ?c. \<forall>k<24. put_all host_stores ipc_bytes (cs_off ?c + slot * 0x40 + k) = (if k = 0 then 1 else 0))"
    using c(1) by blast
  from ring [unfolded c, simplified, rule_format, of 1 0] ring [unfolded c, simplified, rule_format, of 1 1] h
  show ?thesis using run by simp
qed

end
