(* ===== verification/Ane_Iommu.thy ===== *)
theory Ane_Iommu
  imports Ane_Prelude
begin

text \<open>
  The IOMMU address space the firmware loader works in: a domain is what \<^verbatim>\<open>iommu_iova_to_phys\<close>
  observes, the physical page behind each 16 KiB page of the device; loops over the pages of a range, and
  the sets of pages such ranges cover.
\<close>

section \<open>Domains\<close>

type_synonym domain = "u64 \<Rightarrow> u64 option"

abbreviation PAGE :: u64 where "PAGE \<equiv> 0x4000"

definition iommu_iova_to_phys :: "domain \<Rightarrow> u64 \<Rightarrow> u64" where
  "iommu_iova_to_phys d iova = (case d (iova AND NOT 0x3fff) of None \<Rightarrow> 0 | Some pa \<Rightarrow> pa + (iova AND 0x3fff))"

text \<open>The offsets of a loop over the pages of \<open>len\<close> bytes.\<close>

definition page_offs :: "u64 \<Rightarrow> u64 list" where
  "page_offs len = map (\<lambda>k. of_nat (0x4000 * k)) [0..<(unat len + 0x3fff) div 0x4000]"

section \<open>Pages\<close>

definition al :: "u64 \<Rightarrow> bool" where
  "al v \<longleftrightarrow> take_bit 14 v = 0"

lemma mask14: "(0x3fff :: u64) = mask 14"
  by (simp add: mask_eq_exp_minus_1)

lemma al_unat: "al v \<longleftrightarrow> 0x4000 dvd unat v"
proof -
  have "al v \<longleftrightarrow> unat (take_bit 14 v) = 0" by (simp add: al_def unat_eq_0)
  also have "\<dots> \<longleftrightarrow> unat v mod 0x4000 = 0" by (simp only: unsigned_take_bit_eq) (simp add: take_bit_eq_mod)
  finally show ?thesis by (simp add: dvd_eq_mod_eq_0)
qed

lemma al_add [simp, intro]: "al a \<Longrightarrow> al b \<Longrightarrow> al (a + b)"
  unfolding al_unat unat_word_ariths by (intro dvd_mod dvd_add) simp_all

lemma al_page [simp, intro]: "al (of_nat (0x4000 * k))"
proof -
  have "(of_nat (0x4000 * k) :: u64) = push_bit 14 (of_nat k)" by (simp add: push_bit_eq_mult)
  then show ?thesis by (simp only: al_def take_bit_push_bit) simp
qed

lemma al_page_mult [simp, intro]: "al (0x4000 * of_nat k)"
  using al_page [of k] by simp

lemma al_0 [simp, intro]: "al 0"
  by (simp add: al_def)

lemma al_mask: "al x \<Longrightarrow> x AND NOT 0x3fff = x" "al x \<Longrightarrow> x AND 0x3fff = 0"
proof -
  assume a: "al x"
  then show "x AND 0x3fff = 0" by (simp add: al_def mask14 take_bit_eq_mask)
  have "\<not> bit x n" if "n < 14" for n
    using a that unfolding al_def by (metis bit_take_bit_iff bit_0_eq bot_apply bot_bool_def)
  then show "x AND NOT 0x3fff = x" unfolding mask14
    by (intro bit_word_eqI) (auto simp: bit_simps not_less [symmetric])
qed

lemma to_phys: "al x \<Longrightarrow> iommu_iova_to_phys d x = (case d x of None \<Rightarrow> 0 | Some pa \<Rightarrow> pa)"
  by (simp only: iommu_iova_to_phys_def al_mask add_0_right)

definition npages :: "u64 \<Rightarrow> nat" where
  "npages len = (unat len + 0x3fff) div 0x4000"

definition pages :: "u64 \<Rightarrow> u64 \<Rightarrow> u64 set" where
  "pages b len = (\<lambda>k. b + of_nat (0x4000 * k)) ` {..<npages len}"

lemma unat_page: "0x4000 * j < 2 ^ 64 \<Longrightarrow> unat (of_nat (0x4000 * j) :: u64) = 0x4000 * j"
  by (simp only: unsigned_of_nat) (simp add: take_bit_nat_eq_self)

lemma npages_page: "0x4000 * j < 2 ^ 64 \<Longrightarrow> npages (of_nat (0x4000 * j)) = j"
  by (simp add: npages_def unat_page [simplified])

lemma npages_bound: "k < npages len \<Longrightarrow> 0x4000 * k < 2 ^ 64"
proof -
  assume "k < npages len"
  then have "0x4000 * k < unat len" unfolding npages_def by linarith
  then show ?thesis using unat_lt_2p64 [of len] by simp
qed

lemma page_offs: "page_offs len = map (\<lambda>k. of_nat (0x4000 * k)) [0..<npages len]"
  by (simp add: page_offs_def npages_def)

lemma pages_image: "(+) b ` set (page_offs len) = pages b len"
  by (auto simp: page_offs pages_def atLeast0LessThan)

lemma pages_0 [simp]: "pages b 0 = {}"
  by (simp add: pages_def npages_def)

lemma pages_Suc:
  assumes "0x4000 * Suc j < 2 ^ 64"
  shows "pages b (of_nat (0x4000 * Suc j)) = insert (b + of_nat (0x4000 * j)) (pages b (of_nat (0x4000 * j)))"
  using assms by (simp only: pages_def npages_page lessThan_Suc image_insert) (simp add: pages_def npages_page [simplified])

end
