(* ===== verification/Ane_Fwload.thy ===== *)
theory Ane_Fwload
  imports Ane_Boot Ane_Iommu
begin

text \<open>
  The firmware loader of the M2 driver (\<^verbatim>\<open>ane_t6021_fwload.c\<close>): the per-SoC rows, the probe-time
  predicates, the staging of the validated image, the boot patches of the running system, the alias of the
  staged pages at the latched entry, and the teardown.

  The IOMMU domain is what \<^verbatim>\<open>iommu_iova_to_phys\<close> observes: the physical page behind each 16 KiB page
  of the device.  What the kernel does to it (mapping, unmapping, the DMA allocator) and what the
  platform supplies (registers, resources, firmware file, random numbers) are fields of \<open>host\<close>;
  \<open>iommu_contract\<close> and \<open>dma_contract\<close> state the documented behaviour of the kernel's part.
\<close>

section \<open>SoC rows\<close>

record ane_t602x_soc =
  row_soc :: u32
  row_revision :: u32
  revision_fuse :: bool
  preload_placement :: bool
  row_fw :: ane_fw_image
  row_tunables :: ane_asc_tunables
  ps_cpu_off :: u32
  pwgate_off :: u32
  pmu_pa :: u64
  ps_off :: u32
  trace_td_off :: u32
  fw_pin :: "string option"

definition ane_t6020_soc :: ane_t602x_soc where
  "ane_t6020_soc = \<lparr>row_soc = 0x6020, row_revision = 0x01, revision_fuse = False, preload_placement = False,
     row_fw = ane_fw_selene, row_tunables = ane_t6020_asc_tunables, ps_cpu_off = 0x2e0, pwgate_off = 0,
     pmu_pa = 0x28e084000, ps_off = 0, trace_td_off = 0x1c20458, fw_pin = None\<rparr>"

definition ane_t6021_soc :: ane_t602x_soc where
  "ane_t6021_soc = \<lparr>row_soc = 0x6021, row_revision = 0x11, revision_fuse = False, preload_placement = True,
     row_fw = ane_fw_selene, row_tunables = ane_t602x_asc_tunables, ps_cpu_off = 0x2e0, pwgate_off = 0,
     pmu_pa = 0x28e084000, ps_off = 0, trace_td_off = 0x1c20458, fw_pin = None\<rparr>"

definition ane_t6022_soc :: ane_t602x_soc where
  "ane_t6022_soc = \<lparr>row_soc = 0x6022, row_revision = 0x11, revision_fuse = False, preload_placement = False,
     row_fw = ane_fw_selene, row_tunables = ane_t602x_asc_tunables, ps_cpu_off = 0x2e0, pwgate_off = 0,
     pmu_pa = 0x28e084000, ps_off = 0, trace_td_off = 0x1c20458, fw_pin = None\<rparr>"

definition ane_t6022_soc_die1 :: ane_t602x_soc where
  "ane_t6022_soc_die1 = \<lparr>row_soc = 0x6022, row_revision = 0x11, revision_fuse = False, preload_placement = False,
     row_fw = ane_fw_selene, row_tunables = ane_t602x_asc_tunables, ps_cpu_off = 0x2e0, pwgate_off = 0,
     pmu_pa = 0x228e084000, ps_off = 0, trace_td_off = 0x1c20458, fw_pin = Some ''t602x_ane1_fw_selene_rc4x''\<rparr>"

definition ane_t8112_soc :: ane_t602x_soc where
  "ane_t8112_soc = \<lparr>row_soc = 0x8112, row_revision = 0, revision_fuse = True, preload_placement = False,
     row_fw = ane_fw_bia, row_tunables = ane_t8112_asc_tunables, ps_cpu_off = 0xc008, pwgate_off = 0x8b8,
     pmu_pa = 0x23b70c000, ps_off = 0x8, trace_td_off = 0, fw_pin = None\<rparr>"

text \<open>The rows by address, as the match table and the die table refer to them.\<close>

datatype soc_row = T6020 | T6021 | T6022 | T6022_die1 | T8112

primrec soc_data :: "soc_row \<Rightarrow> ane_t602x_soc" where
  "soc_data T6020 = ane_t6020_soc"
| "soc_data T6021 = ane_t6021_soc"
| "soc_data T6022 = ane_t6022_soc"
| "soc_data T6022_die1 = ane_t6022_soc_die1"
| "soc_data T8112 = ane_t8112_soc"

definition ane_t6022_dies :: "(u64 \<times> soc_row) list" where
  "ane_t6022_dies = [(0x28e08c000, T6022), (0x228e08c000, T6022_die1)]"

section \<open>The host\<close>

record host =
  fw_load :: bool
  fw_extra_ram :: u32
  fw_alias_reserved :: bool
  match_data :: soc_row
  set_start :: "u64 option"                                  \<comment> \<open>start of the "set" resource\<close>
  reserved_nodes :: "(bool \<times> (u64 \<times> u64) option) list option"  \<comment> \<open>no-map, reserved base and size\<close>
  request_firmware :: "string \<Rightarrow> errno + bytes \<times> u64"
  sha256 :: "bytes \<Rightarrow> u64 \<Rightarrow> u8 list"
  dma_get :: "domain \<Rightarrow> u32 \<Rightarrow> (u64 \<times> domain) option"
  dma_put :: "domain \<Rightarrow> u64 \<Rightarrow> u32 \<Rightarrow> domain"
  iommu_map :: "domain \<Rightarrow> u64 \<Rightarrow> u64 \<Rightarrow> errno + domain"        \<comment> \<open>one page\<close>
  iommu_unmap :: "domain \<Rightarrow> u64 \<Rightarrow> u64 \<Rightarrow> domain"
  attached :: bool                                            \<comment> \<open>the device has a domain\<close>
  aperture_end :: u64
  rvbar_patch :: u64                                          \<comment> \<open>RVBAR as \<^verbatim>\<open>fw_patch\<close> reads it\<close>
  rvbar_alias :: u64                                          \<comment> \<open>RVBAR as \<^verbatim>\<open>fw_alias_map\<close> reads it\<close>
  engine_start :: u64
  random_u64 :: u64
  fuse_size :: "u64 option"                                   \<comment> \<open>size of the "fuse" resource\<close>
  fuse_words :: "(u32 \<times> u32) option"                          \<comment> \<open>None: the window cannot be mapped\<close>

definition ANE_T6021_FW_ALIAS_PAGE :: u64 where "ANE_T6021_FW_ALIAS_PAGE = 0x4000"

definition is_aligned_page :: "u64 \<Rightarrow> bool" where
  "is_aligned_page v \<longleftrightarrow> v AND (ANE_T6021_FW_ALIAS_PAGE - 1) = 0"

section \<open>Probe-time predicates\<close>

definition ane_t6021_fw_alias_is_reserved :: "host \<Rightarrow> bool" where
  "ane_t6021_fw_alias_is_reserved H \<longleftrightarrow> fw_alias_reserved H \<and> preload_placement (soc_data (match_data H))"

definition ane_t6021_fw_preload :: "(u64 \<times> u64) list" where
  "ane_t6021_fw_preload = [(0x10000848000, 0xc4000), (0x10001400000, 0x438000)]"

definition node_covers :: "u64 \<Rightarrow> u64 \<Rightarrow> bool \<times> (u64 \<times> u64) option \<Rightarrow> bool" where
  "node_covers phys fin np = (case np of
      (no_map, Some (base, sz)) \<Rightarrow> no_map \<and> base \<le> phys \<and> fin \<le> base + sz
    | _ \<Rightarrow> False)"

definition ane_t6021_fw_preload_reserved :: "host \<Rightarrow> bool" where
  "ane_t6021_fw_preload_reserved H = (case reserved_nodes H of
      None \<Rightarrow> False
    | Some nodes \<Rightarrow> list_all (\<lambda>(phys, len). list_ex (node_covers phys (phys + len)) nodes) ane_t6021_fw_preload)"

definition ane_t6021_fwload_placement_ok :: "host \<Rightarrow> bool" where
  "ane_t6021_fwload_placement_ok H \<longleftrightarrow>
     \<not> fw_load H \<or> \<not> ane_t6021_fw_alias_is_reserved H \<or> ane_t6021_fw_preload_reserved H"

definition ane_t6021_fwload_requested :: "host \<Rightarrow> bool" where
  "ane_t6021_fwload_requested H = fw_load H"

definition ane_t6021_fwload_options_ok :: "host \<Rightarrow> bool" where
  "ane_t6021_fwload_options_ok H \<longleftrightarrow> fw_extra_ram H \<le> 0x1000000 \<and> fw_extra_ram H AND 0x3fff = 0"

definition ane_t6021_soc_for :: "host \<Rightarrow> ane_t602x_soc" where
  "ane_t6021_soc_for H =
     (if match_data H \<noteq> T6022 then soc_data (match_data H)
      else case set_start H of
        None \<Rightarrow> soc_data T6022
      | Some st \<Rightarrow> (case find (\<lambda>(b, r). st = b) ane_t6022_dies of
          None \<Rightarrow> soc_data T6022
        | Some (b, r) \<Rightarrow> soc_data r))"

section \<open>The alias\<close>

record fw_dev =
  dom_map :: domain
  fw_buf :: "bytes option"
  dev_iova :: u64                  \<comment> \<open>\<^verbatim>\<open>fw_iova\<close>\<close>
  dev_size :: u32                  \<comment> \<open>\<^verbatim>\<open>fw_size\<close>\<close>
  alias_iova :: u64
  ext_iova :: "u64 list"
  ext_len :: "u64 list"
  extn :: nat

definition ane_t6021_pmu_map :: "host \<Rightarrow> fw_dev \<Rightarrow> errno option \<times> fw_dev" where
  "ane_t6021_pmu_map H a = (let pa = pmu_pa (ane_t6021_soc_for H) in
     case iommu_map H (dom_map a) pa pa of
       Inl e \<Rightarrow> (Some e, a)
     | Inr d \<Rightarrow> (if iommu_iova_to_phys d pa \<noteq> pa then Some EIO else None, a\<lparr>dom_map := d\<rparr>))"

text \<open>The mapping loop; on an error the offset reached.\<close>

primrec own_loop :: "host \<Rightarrow> u64 \<Rightarrow> u64 \<Rightarrow> u64 list \<Rightarrow> domain \<Rightarrow> (errno \<times> u64) option \<times> domain" where
  "own_loop H src entry [] d = (None, d)"
| "own_loop H src entry (off # offs) d =
     (let pa = iommu_iova_to_phys d (src + off) in
      if pa = 0 \<or> \<not> is_aligned_page pa then (Some (EFAULT, off), d)
      else if iommu_iova_to_phys d (entry + off) \<noteq> 0 then (Some (EEXIST, off), d)
      else case iommu_map H d (entry + off) pa of
        Inl e \<Rightarrow> (Some (e, off), d)
      | Inr d' \<Rightarrow> own_loop H src entry offs d')"

definition own_check :: "u64 \<Rightarrow> u64 \<Rightarrow> u64 list \<Rightarrow> domain \<Rightarrow> bool" where
  "own_check src entry offs d \<longleftrightarrow>
     list_all (\<lambda>off. iommu_iova_to_phys d (entry + off) = iommu_iova_to_phys d (src + off)) offs"

definition own_unwind :: "host \<Rightarrow> u64 \<Rightarrow> u64 \<Rightarrow> domain \<Rightarrow> domain" where
  "own_unwind H entry off d = (if off \<noteq> 0 then iommu_unmap H d entry off else d)"

definition alias_own :: "host \<Rightarrow> u64 \<Rightarrow> fw_dev \<Rightarrow> errno option \<times> fw_dev" where
  "alias_own H entry a = (let offs = page_offs (ucast (dev_size a)) in
     case own_loop H (dev_iova a) entry offs (dom_map a) of
       (Some (e, off), d) \<Rightarrow> (Some e, a\<lparr>dom_map := own_unwind H entry off d\<rparr>)
     | (None, d) \<Rightarrow>
         if \<not> own_check (dev_iova a) entry offs d
         then (Some EIO, a\<lparr>dom_map := own_unwind H entry (ucast (dev_size a)) d\<rparr>)
         else ane_t6021_pmu_map H (a\<lparr>dom_map := d, alias_iova := entry, ext_iova := (ext_iova a)[0 := entry],
                ext_len := (ext_len a)[0 := ucast (dev_size a)], extn := 1\<rparr>))"

text \<open>One page of a reserved window; the third window is the tail of the staged allocation.\<close>

definition res_page :: "host \<Rightarrow> u64 \<Rightarrow> nat \<Rightarrow> u64 \<Rightarrow> u64 \<Rightarrow> u64 \<Rightarrow> fw_dev \<Rightarrow> errno option \<times> fw_dev" where
  "res_page H entry w iova phys off a =
     (let pa = (if w < 2 then phys + off else iommu_iova_to_phys (dom_map a) (dev_iova a + iova + off - entry)) in
      if pa = 0 \<or> \<not> is_aligned_page pa then (Some EFAULT, a)
      else if iommu_iova_to_phys (dom_map a) (iova + off) \<noteq> 0 then (Some EEXIST, a)
      else case iommu_map H (dom_map a) (iova + off) pa of
        Inl e \<Rightarrow> (Some e, a)
      | Inr d \<Rightarrow>
          (if iommu_iova_to_phys d (iova + off) \<noteq> pa then Some EIO else None,
           a\<lparr>dom_map := d, ext_len := (ext_len a)[w := off + ANE_T6021_FW_ALIAS_PAGE], ext_iova := (ext_iova a)[w := iova]\<rparr>))"

primrec res_window :: "host \<Rightarrow> u64 \<Rightarrow> nat \<Rightarrow> u64 \<Rightarrow> u64 \<Rightarrow> u64 list \<Rightarrow> fw_dev \<Rightarrow> errno option \<times> fw_dev" where
  "res_window H entry w iova phys [] a = (None, a)"
| "res_window H entry w iova phys (off # offs) a =
     (case res_page H entry w iova phys off a of
        (Some e, a') \<Rightarrow> (Some e, a')
      | (None, a') \<Rightarrow> res_window H entry w iova phys offs a')"

primrec res_windows :: "host \<Rightarrow> u64 \<Rightarrow> (nat \<times> u64 \<times> u64 \<times> u64) list \<Rightarrow> fw_dev \<Rightarrow> errno option \<times> fw_dev" where
  "res_windows H entry [] a = (None, a)"
| "res_windows H entry (x # xs) a = (case x of (w, iova, phys, len) \<Rightarrow>
     (case res_window H entry w iova phys (page_offs len) a of
        (Some e, a') \<Rightarrow> (Some e, a')
      | (None, a') \<Rightarrow> res_windows H entry xs a'))"

definition reserved_base :: u64 where "reserved_base = 0x10000000000"

definition windows_of :: "host \<Rightarrow> u64 \<Rightarrow> u32 \<Rightarrow> (nat \<times> u64 \<times> u64 \<times> u64) list" where
  "windows_of H entry sz =
     [(0, reserved_base, fst (ane_t6021_fw_preload ! 0), snd (ane_t6021_fw_preload ! 0)),
      (1, reserved_base + snd (ane_t6021_fw_preload ! 0), fst (ane_t6021_fw_preload ! 1), snd (ane_t6021_fw_preload ! 1))] @
     (if fw_extra_ram H = 0 then [] else [(2, entry + 0x4fc000, 0, ucast (sz - 0x4fc000))])"

definition res_unwind :: "host \<Rightarrow> nat \<Rightarrow> fw_dev \<Rightarrow> fw_dev" where
  "res_unwind H n a =
     a\<lparr>dom_map := fold (\<lambda>w d. if ext_len a ! w \<noteq> 0 then iommu_unmap H d (ext_iova a ! w) (ext_len a ! w) else d)
        [0..<n] (dom_map a), ext_len := [0, 0, 0], extn := 0\<rparr>"

definition alias_reserved :: "host \<Rightarrow> u64 \<Rightarrow> fw_dev \<Rightarrow> errno option \<times> fw_dev" where
  "alias_reserved H entry a = (let ws = windows_of H entry (dev_size a) in
     if reserved_base \<noteq> entry then (Some EINVAL, a)
     else case res_windows H entry ws a of
       (Some e, a') \<Rightarrow> (Some e, res_unwind H (length ws) a')
     | (None, a') \<Rightarrow> ane_t6021_pmu_map H (a'\<lparr>extn := length ws, alias_iova := entry\<rparr>))"

definition ane_t6021_fw_alias_map :: "host \<Rightarrow> bool \<Rightarrow> fw_dev \<Rightarrow> errno option \<times> fw_dev" where
  "ane_t6021_fw_alias_map H reserved a =
     (let entry = ane_t6021_rvbar_entry_bits (rvbar_alias H) in
      if \<not> attached H then (Some ENODEV, a)
      else if \<not> ane_t6021_rvbar_latched (rvbar_alias H) \<or> entry = 0 then (None, a)
      else if \<not> ane_t6021_rvbar_entry_ok entry \<or> \<not> is_aligned_page entry then (Some EINVAL, a)
      else if entry + ucast (dev_size a) - 1 > aperture_end H then (Some ERANGE, a)
      else if reserved then alias_reserved H entry a
      else alias_own H entry a)"

section \<open>Staging\<close>

definition ane_t6021_soc_revision :: "host \<Rightarrow> ane_t602x_soc \<Rightarrow> errno + u32" where
  "ane_t6021_soc_revision H sd =
     (if \<not> revision_fuse sd then Inr (row_revision sd)
      else if fuse_size H \<noteq> Some 8 then Inl ENODEV
      else case fuse_words H of
        None \<Rightarrow> Inl ENOMEM
      | Some (w0, w1) \<Rightarrow> Inr (ane_t8112_fuse_revision w0 w1))"

definition guard_of :: "u64 \<Rightarrow> u64" where
  "guard_of g = g AND NOT (push_bit (8 * unat (drop_bit 61 g)) 0xff)"

definition patch_of :: "host \<Rightarrow> fw_dev \<Rightarrow> u32 \<Rightarrow> ane_fw_boot_patch" where
  "patch_of H a rv = (let entry = (if ane_t6021_rvbar_latched (rvbar_patch H) then ane_t6021_rvbar_entry_bits (rvbar_patch H) else 0) in
     \<lparr>exec_base = (if entry \<noteq> 0 then entry else dev_iova a), stack_guard = guard_of (random_u64 H),
      soc = row_soc (ane_t6021_soc_for H), soc_revision = rv,
      cpu_pa = engine_start H + 0x1000000, wrapper_pa = engine_start H + 0x1400000\<rparr>)"

definition ane_t6021_fw_patch :: "host \<Rightarrow> fw_dev \<Rightarrow> bytes \<Rightarrow> errno option \<times> bytes" where
  "ane_t6021_fw_patch H a img = (let sd = ane_t6021_soc_for H in
     case ane_t6021_soc_revision H sd of
       Inl e \<Rightarrow> (Some e, img)
     | Inr rv \<Rightarrow> (case ane_fw_apply_boot_patches img (row_fw sd) (row_tunables sd) (patch_of H a rv) of
         (Some reason, img') \<Rightarrow> (Some EINVAL, img')
       | (None, img') \<Rightarrow> (None, img')))"

definition fw_file :: "ane_t602x_soc \<Rightarrow> string" where
  "fw_file sd = (case fw_pin sd of Some n \<Rightarrow> n | None \<Rightarrow> fw_name (row_fw sd))"

definition seg_table :: "ane_fw_seg list" where
  "seg_table = replicate ANE_FW_NSEGS \<lparr>seg_vmaddr = 0, seg_vmsize = 0, seg_fileoff = 0, seg_filesize = 0, seg_name = ''''\<rparr>"

text \<open>None is an access outside an object; the validator's refusal is \<^verbatim>\<open>-1\<close>.\<close>

definition ane_t6021_fwload_check :: "host \<Rightarrow> errno option option" where
  "ane_t6021_fwload_check H = (let sd = ane_t6021_soc_for H in
     if \<not> fw_load H then Some None
     else case request_firmware H (fw_file sd) of
       Inl e \<Rightarrow> Some (Some e)
     | Inr (data, sz) \<Rightarrow> (case ane_fw_validate_blob data sz (row_fw sd) (sha256 H data sz) (Some seg_table) of
         None \<Rightarrow> None
       | Some (Inl reason) \<Rightarrow> Some (Some EPERM)
       | Some (Inr x) \<Rightarrow> Some None))"

definition copy_seg :: "bytes \<Rightarrow> ane_fw_seg \<Rightarrow> bytes \<Rightarrow> bytes" where
  "copy_seg data s m = (\<lambda>a. if unat (seg_vmaddr s) \<le> a \<and> a < unat (seg_vmaddr s) + unat (seg_filesize s)
     then data (unat (seg_fileoff s) + (a - unat (seg_vmaddr s))) else m a)"

text \<open>The segments over fresh zeroed memory.\<close>

definition staged :: "bytes \<Rightarrow> ane_fw_seg list \<Rightarrow> bytes" where
  "staged data segs = fold (copy_seg data) segs (\<lambda>_. 0)"

definition ane_t6021_fwload_remove :: "host \<Rightarrow> fw_dev \<Rightarrow> fw_dev" where
  "ane_t6021_fwload_remove H a =
     (let a1 = (if extn a \<noteq> 0 then a\<lparr>dom_map := (if attached H then
                  fold (\<lambda>i d. iommu_unmap H d (ext_iova a ! i) (ext_len a ! i)) [0..<extn a] (dom_map a) else dom_map a),
                extn := 0\<rparr> else a) in
      if fw_buf a1 = None then a1
      else a1\<lparr>dom_map := dma_put H (dom_map a1) (dev_iova a1) (dev_size a1), fw_buf := None, dev_size := 0\<rparr>)"

definition fwload_place :: "host \<Rightarrow> bool \<Rightarrow> fw_dev \<Rightarrow> errno option \<times> fw_dev" where
  "fwload_place H reserved a =
     (case (if reserved then (None, the (fw_buf a)) else ane_t6021_fw_patch H a (the (fw_buf a))) of
        (Some e, img) \<Rightarrow> (Some e, ane_t6021_fwload_remove H (a\<lparr>fw_buf := Some img\<rparr>))
      | (None, img) \<Rightarrow> (case ane_t6021_fw_alias_map H reserved (a\<lparr>fw_buf := Some img\<rparr>) of
          (Some e, a') \<Rightarrow> (Some e, ane_t6021_fwload_remove H a')
        | (None, a') \<Rightarrow> (None, a')))"

definition fwload_stage :: "host \<Rightarrow> fw_dev \<Rightarrow> bytes \<Rightarrow> ane_fw_seg list \<Rightarrow> errno option \<times> fw_dev" where
  "fwload_stage H a data segs = (let alloc_size = ANE_FW_BUF_SIZE + fw_extra_ram H in
     case dma_get H (dom_map a) alloc_size of
       None \<Rightarrow> (Some ENOMEM, a)
     | Some (iova, d) \<Rightarrow>
         fwload_place H (ane_t6021_fw_alias_is_reserved H)
           (a\<lparr>dom_map := d, fw_buf := Some (staged data segs), dev_iova := iova, dev_size := alloc_size\<rparr>))"

definition ane_t6021_fwload_probe :: "host \<Rightarrow> fw_dev \<Rightarrow> (errno option \<times> fw_dev) option" where
  "ane_t6021_fwload_probe H a = (let sd = ane_t6021_soc_for H in
     if \<not> fw_load H then Some (None, a)
     else if fw_extra_ram H > 0x1000000 \<or> fw_extra_ram H AND 0x3fff \<noteq> 0 then Some (Some EINVAL, a)
     else case request_firmware H (fw_file sd) of
       Inl e \<Rightarrow> Some (Some e, a)
     | Inr (data, sz) \<Rightarrow> (case ane_fw_validate_blob data sz (row_fw sd) (sha256 H data sz) (Some seg_table) of
         None \<Rightarrow> None
       | Some (Inl reason) \<Rightarrow> Some (Some EPERM, a)
       | Some (Inr (segs, entry)) \<Rightarrow> Some (fwload_stage H a data (the segs))))"

section \<open>The kernel's part\<close>

lemma aligned_iff [simp]: "is_aligned_page v = al v"
  by (simp add: is_aligned_page_def ANE_T6021_FW_ALIAS_PAGE_def al_def mask14 take_bit_eq_mask)

text \<open>Mapping a page fails or adds exactly that page, which was not mapped; unmapping removes the pages of
  the range.\<close>

definition iommu_contract :: "host \<Rightarrow> bool" where
  "iommu_contract H \<longleftrightarrow>
     (\<forall>d x pa d'. al x \<and> al pa \<and> iommu_map H d x pa = Inr d' \<longrightarrow> d x = None \<and> d' = d(x \<mapsto> pa)) \<and>
     (\<forall>d x len. al x \<and> al len \<longrightarrow> iommu_unmap H d x len = (\<lambda>y. if y \<in> pages x len then None else d y))"

text \<open>A DMA allocation maps its pages, which were free, to page-aligned memory; freeing it unmaps them.\<close>

definition dma_contract :: "host \<Rightarrow> bool" where
  "dma_contract H \<longleftrightarrow>
     (\<forall>d sz iova d'. dma_get H d sz = Some (iova, d') \<longrightarrow> al iova \<and>
        (\<forall>x\<in>pages iova (ucast sz). d x = None \<and> (\<exists>pa. d' x = Some pa \<and> pa \<noteq> 0 \<and> al pa)) \<and>
        (\<forall>x. x \<notin> pages iova (ucast sz) \<longrightarrow> d' x = d x)) \<and>
     (\<forall>d iova sz. dma_put H d iova sz = (\<lambda>y. if y \<in> pages iova (ucast sz) then None else d y))"

lemma mapD: "iommu_contract H \<Longrightarrow> iommu_map H d x pa = Inr d' \<Longrightarrow> al x \<Longrightarrow> al pa \<Longrightarrow> d x = None \<and> d' = d(x \<mapsto> pa)"
  by (simp add: iommu_contract_def)

lemma unmapD: "iommu_contract H \<Longrightarrow> al x \<Longrightarrow> al len \<Longrightarrow> iommu_unmap H d x len = (\<lambda>y. if y \<in> pages x len then None else d y)"
  by (simp add: iommu_contract_def)

lemma unmap_all:
  assumes "iommu_contract H" "\<And>i. i < n \<Longrightarrow> al (b i) \<and> al (l i)"
  shows "fold (\<lambda>i d. iommu_unmap H d (b i) (l i)) [0..<n] d = (\<lambda>y. if \<exists>i<n. y \<in> pages (b i) (l i) then None else d y)"
  using assms(2)
proof (induction n)
  case (Suc n)
  then show ?case by (auto simp: unmapD [OF assms(1)] fun_eq_iff less_Suc_eq)
qed (simp add: fun_eq_iff)

text \<open>The pmu page of the row is aligned.\<close>

abbreviation pmu_page :: "host \<Rightarrow> u64" where
  "pmu_page H \<equiv> pmu_pa (ane_t6021_soc_for H)"

lemma al_numerals: "al 0x28e084000" "al 0x228e084000" "al 0x23b70c000" "al 0x10000000000" "al 0xc4000" "al 0x438000" "al 0x4fc000"
   "al 0x10000848000" "al 0x10001400000"
  by (simp_all add: al_unat)

lemma soc_for_row: "\<exists>r. ane_t6021_soc_for H = soc_data r"
  unfolding ane_t6021_soc_for_def
  by (simp del: soc_data.simps split: option.split prod.split) blast

lemma row_facts: "al (pmu_pa (soc_data r)) \<and> pmu_pa (soc_data r) \<noteq> 0 \<and> pinned (row_fw (soc_data r))"
  by (cases r) (simp_all add: ane_t6020_soc_def ane_t6021_soc_def ane_t6022_soc_def
      ane_t6022_soc_die1_def ane_t8112_soc_def al_numerals pinned_def)

lemma al_pmu [simp]: "al (pmu_page H)"
  by (metis soc_for_row row_facts)

lemma pmu_map_cases:
  assumes "iommu_contract H" "ane_t6021_pmu_map H a = (r, a')"
  obtains e where "r = Some e" "a' = a"
  | "dom_map a (pmu_page H) = None" "a' = a\<lparr>dom_map := (dom_map a)(pmu_page H \<mapsto> pmu_page H)\<rparr>" "r = None"
proof (cases "iommu_map H (dom_map a) (pmu_page H) (pmu_page H)")
  case (Inl e)
  then have "r = Some e" "a' = a" using assms(2) by (simp_all add: ane_t6021_pmu_map_def Let_def)
  then show ?thesis by (rule that(1))
next
  case (Inr d)
  from mapD [OF assms(1) Inr al_pmu al_pmu]
  have d: "dom_map a (pmu_page H) = None" "d = (dom_map a)(pmu_page H \<mapsto> pmu_page H)" by blast+
  then have "iommu_iova_to_phys d (pmu_page H) = pmu_page H" by (simp add: to_phys [OF al_pmu])
  with assms(2) Inr d have "a' = a\<lparr>dom_map := (dom_map a)(pmu_page H \<mapsto> pmu_page H)\<rparr>" "r = None"
    by (simp_all add: ane_t6021_pmu_map_def Let_def)
  with d(1) show ?thesis by (intro that(2))
qed

section \<open>Mapping and unwinding\<close>

text \<open>\<open>d'\<close> is \<open>d\<close> with the pages of \<open>M\<close> added.\<close>

definition added :: "domain \<Rightarrow> u64 set \<Rightarrow> domain \<Rightarrow> bool" where
  "added d M d' \<longleftrightarrow> (\<forall>x\<in>M. d x = None \<and> d' x \<noteq> None) \<and> (\<forall>x. x \<notin> M \<longrightarrow> d' x = d x)"

lemma added_refl [simp]: "added d {} d"
  by (simp add: added_def)

lemma added_step: "added d M d' \<Longrightarrow> d' x = None \<Longrightarrow> added d (insert x M) (d'(x \<mapsto> pa))"
  by (auto simp: added_def)

lemma added_trans: "added d M d' \<Longrightarrow> added d' N d'' \<Longrightarrow> added d (M \<union> N) d''"
  unfolding added_def by (metis UnCI UnE)

lemma added_remove: "added d M d' \<Longrightarrow> (\<lambda>y. if y \<in> M then None else d' y) = d"
  by (auto simp: added_def fun_eq_iff)

lemma own_loop_added:
  assumes "iommu_contract H" "al entry" "list_all al offs" "own_loop H src entry offs d = (r, d')"
  shows "(r = None \<longrightarrow> added d ((+) entry ` set offs) d') \<and>
    (\<forall>e off. r = Some (e, off) \<longrightarrow> (\<exists>pre post. offs = pre @ off # post \<and> added d ((+) entry ` set pre) d'))"
  using assms(3,4)
proof (induction offs arbitrary: d)
  case (Cons off offs)
  let ?pa = "iommu_iova_to_phys d (src + off)"
  show ?case
  proof (cases "?pa = 0 \<or> \<not> al ?pa \<or> iommu_iova_to_phys d (entry + off) \<noteq> 0 \<or> isl (iommu_map H d (entry + off) ?pa)")
    case True
    then obtain e where "r = Some (e, off)" "d' = d"
      using Cons.prems(2) by (auto simp: Let_def isl_def split: if_splits)
    then show ?thesis by (intro conjI allI impI exI [of _ "[]"] exI [of _ offs]) auto
  next
    case False
    then obtain d1 where d1: "iommu_map H d (entry + off) ?pa = Inr d1" by (cases "iommu_map H d (entry + off) ?pa") auto
    with Cons.prems False have rest: "own_loop H src entry offs d1 = (r, d')" by (auto simp: Let_def)
    from mapD [OF assms(1) d1] Cons.prems(1) assms(2) False have "added d {entry + off} d1"
      using added_step [OF added_refl] by auto
    note step = added_trans [OF this]
    show ?thesis
    proof (intro conjI allI impI)
      assume "r = None"
      with Cons.IH [OF _ rest] Cons.prems(1) have "added d1 ((+) entry ` set offs) d'" by simp
      from step [OF this] show "added d ((+) entry ` set (off # offs)) d'" by simp
    next
      fix e o'
      assume "r = Some (e, o')"
      with Cons.IH [OF _ rest] Cons.prems(1) obtain pre post where p: "offs = pre @ o' # post" "added d1 ((+) entry ` set pre) d'"
        by auto
      from step [OF p(2)] p(1) show "\<exists>pre post. off # offs = pre @ o' # post \<and> added d ((+) entry ` set pre) d'"
        by (intro exI [of _ "off # pre"] exI [of _ post]) simp
    qed
  qed
qed auto

lemma page_offs_prefix:
  assumes "page_offs len = pre @ off # post"
  shows "(+) b ` set pre = (if off = 0 then {} else pages b off)" "al off"
proof -
  let ?f = "\<lambda>k. of_nat (0x4000 * k) :: u64"
  let ?j = "length pre"
  have len: "length (pre @ off # post) = npages len" unfolding assms [symmetric] by (simp add: page_offs)
  then have j: "?j < npages len" by simp
  have off: "off = ?f ?j" using arg_cong [OF assms, of "\<lambda>xs. xs ! ?j"] j by (simp add: page_offs)
  have "pre = take ?j (page_offs len)" using assms by simp
  then have pre: "pre = map ?f [0..<?j]" using j by (simp add: page_offs take_map)
  have n: "npages off = ?j" unfolding off by (rule npages_page) (rule npages_bound [OF j])
  have "off = 0 \<longleftrightarrow> ?j = 0"
    using n by (auto simp: npages_def off)
  then show "(+) b ` set pre = (if off = 0 then {} else pages b off)"
    unfolding pages_def n by (subst pre) (auto simp: atLeast0LessThan)
  show "al off" unfolding off by (rule al_page)
qed

definition extents :: "fw_dev \<Rightarrow> u64 set" where
  "extents a = (\<Union>i<extn a. pages (ext_iova a ! i) (ext_len a ! i))"

text \<open>The domain of \<open>a\<close> is \<open>d\<close> with the recorded extents, and the pmu page when \<open>b\<close>.\<close>

definition aliased :: "host \<Rightarrow> domain \<Rightarrow> bool \<Rightarrow> fw_dev \<Rightarrow> bool" where
  "aliased H d0 b a \<longleftrightarrow>
     (\<exists>d. added d0 (extents a) d \<and> dom_map a = (if b then d(pmu_page H \<mapsto> pmu_page H) else d) \<and> (b \<longrightarrow> d (pmu_page H) = None)) \<and>
     (\<forall>i<extn a. al (ext_iova a ! i) \<and> al (ext_len a ! i)) \<and> (extn a \<noteq> 0 \<longrightarrow> attached H) \<and> extn a \<le> 3"

definition kept :: "fw_dev \<Rightarrow> fw_dev \<Rightarrow> bool" where
  "kept a a' \<longleftrightarrow> fw_buf a' = fw_buf a \<and> dev_iova a' = dev_iova a \<and> dev_size a' = dev_size a \<and>
     length (ext_iova a') = length (ext_iova a) \<and> length (ext_len a') = length (ext_len a)"

text \<open>A device before the loader ran.\<close>

definition fresh :: "fw_dev \<Rightarrow> bool" where
  "fresh a \<longleftrightarrow> extn a = 0 \<and> ext_iova a = [0, 0, 0] \<and> ext_len a = [0, 0, 0]"

lemma fresh_extents: "fresh a \<Longrightarrow> extents a = {}"
  by (simp add: fresh_def extents_def)

lemma aliased_none: "fresh a \<Longrightarrow> aliased H (dom_map a) False a"
  by (simp add: aliased_def fresh_extents) (simp add: fresh_def)

lemma pmu_aliased:
  assumes "iommu_contract H" "aliased H d False a" "ane_t6021_pmu_map H a = (r, a')"
  shows "aliased H d (r = None) a' \<and> kept a a' \<and> extents a' = extents a \<and>
    (r = None \<longrightarrow> dom_map a (pmu_page H) = None \<and> dom_map a' = (dom_map a)(pmu_page H \<mapsto> pmu_page H))"
  using assms(1,3)
proof (cases rule: pmu_map_cases)
  case 1
  then show ?thesis using assms(2) by (simp add: kept_def)
next
  case 2
  then show ?thesis using assms(2)
    by (auto simp: aliased_def kept_def extents_def intro!: exI [of _ "dom_map a"])
qed

lemma own_aliased:
  assumes H: "iommu_contract H" "attached H" and a: "fresh a" "al entry" "al (ucast (dev_size a))" "dev_size a \<noteq> 0"
    and buf: "al (dev_iova a)" "\<forall>x\<in>pages (dev_iova a) (ucast (dev_size a)). \<exists>pa. dom_map a x = Some pa \<and> pa \<noteq> 0"
    and run: "alias_own H entry a = (r, a')"
  shows "aliased H (dom_map a) (r = None) a' \<and> kept a a' \<and>
    (r = None \<longrightarrow> (\<forall>off\<in>set (page_offs (ucast (dev_size a))). dom_map a' (entry + off) = dom_map a' (dev_iova a + off) \<and>
        dom_map a' (entry + off) \<noteq> None) \<and> dom_map a' (pmu_page H) = Some (pmu_page H))"
proof -
  let ?sz = "ucast (dev_size a) :: u64"
  let ?offs = "page_offs ?sz"
  obtain lr d where lp: "own_loop H (dev_iova a) entry ?offs (dom_map a) = (lr, d)" by fastforce
  have alo: "list_all al ?offs" by (auto simp: page_offs list_all_iff)
  note out = own_loop_added [OF H(1) a(2) alo lp]
  show ?thesis
  proof (cases lr)
    case (Some x)
    obtain e off where x: "x = (e, off)" by (cases x)
    with Some out obtain pre post where p: "?offs = pre @ off # post" "added (dom_map a) ((+) entry ` set pre) d" by blast
    have "own_unwind H entry off d = dom_map a"
      using added_remove [OF p(2)] page_offs_prefix [OF p(1)] by (simp add: own_unwind_def unmapD [OF H(1) a(2)] split: if_splits)
    with Some x lp run have "a' = a" "r = Some e" by (auto simp: alias_own_def Let_def)
    then show ?thesis using aliased_none [OF a(1)] by (simp add: kept_def)
  next
    case None
    with out have d: "added (dom_map a) (pages entry ?sz) d" by (simp add: pages_image)
    show ?thesis
    proof (cases "own_check (dev_iova a) entry ?offs d")
      case False
      have "?sz \<noteq> 0" using a(4) unat_ucast_32_64 [of "dev_size a"] by (metis unat_eq_0)
      then have "own_unwind H entry ?sz d = dom_map a"
        using added_remove [OF d] by (simp add: own_unwind_def unmapD [OF H(1) a(2,3)])
      with None False lp run have "a' = a" "r = Some EIO" by (auto simp: alias_own_def Let_def)
      then show ?thesis using aliased_none [OF a(1)] by (simp add: kept_def)
    next
      case True
      let ?b = "a\<lparr>dom_map := d, alias_iova := entry, ext_iova := (ext_iova a)[0 := entry], ext_len := (ext_len a)[0 := ?sz], extn := 1\<rparr>"
      have al_b: "aliased H (dom_map a) False ?b"
        using d a H(2) by (auto simp: aliased_def extents_def fresh_def)
      have run_b: "ane_t6021_pmu_map H ?b = (r, a')" using None True lp run by (simp add: alias_own_def Let_def)
      from pmu_aliased [OF H(1) al_b run_b] have p: "aliased H (dom_map a) (r = None) a'" "kept ?b a'"
        "r = None \<longrightarrow> d (pmu_page H) = None \<and> dom_map a' = d(pmu_page H \<mapsto> pmu_page H)"
        by simp_all
      have "d (entry + off) = d (dev_iova a + off) \<and> d (entry + off) \<noteq> None" if off: "off \<in> set ?offs" for off
      proof -
        have pg: "entry + off \<in> pages entry ?sz" "dev_iova a + off \<in> pages (dev_iova a) ?sz" "al off"
          using off alo by (auto simp: pages_image [symmetric] list_all_iff)
        from buf(2) pg(2) obtain pa where pa: "dom_map a (dev_iova a + off) = Some pa" "pa \<noteq> 0" by blast
        with d have "d (dev_iova a + off) = Some pa" unfolding added_def by (metis option.distinct(1))
        moreover have "iommu_iova_to_phys d (entry + off) = iommu_iova_to_phys d (dev_iova a + off)"
          using True off by (simp add: own_check_def list_all_iff)
        ultimately show ?thesis using pa(2) pg(3) a(2) buf(1) by (simp add: to_phys split: option.splits)
      qed
      with p show ?thesis by (auto simp: kept_def) (metis option.distinct(1))+
    qed
  qed
qed

definition recorded :: "fw_dev \<Rightarrow> u64 set" where
  "recorded a = (\<Union>w<3. pages (ext_iova a ! w) (ext_len a ! w))"

definition res_inv :: "domain \<Rightarrow> fw_dev \<Rightarrow> bool" where
  "res_inv d a \<longleftrightarrow> length (ext_iova a) = 3 \<and> length (ext_len a) = 3 \<and>
     (\<forall>w<3. al (ext_iova a ! w) \<and> al (ext_len a ! w)) \<and> added d (recorded a) (dom_map a)"

text \<open>Window \<open>w\<close> has \<open>j\<close> pages from \<open>iova\<close> on.\<close>

definition at_page :: "nat \<Rightarrow> u64 \<Rightarrow> nat \<Rightarrow> fw_dev \<Rightarrow> bool" where
  "at_page w iova j a \<longleftrightarrow> ext_len a ! w = of_nat (0x4000 * j) \<and> (j = 0 \<or> ext_iova a ! w = iova)"

text \<open>Only window \<open>w\<close> and the domain change.\<close>

definition only_window :: "nat \<Rightarrow> fw_dev \<Rightarrow> fw_dev \<Rightarrow> bool" where
  "only_window w a a' \<longleftrightarrow> kept a a' \<and> extn a' = extn a \<and>
     (\<forall>v. v \<noteq> w \<longrightarrow> ext_iova a' ! v = ext_iova a ! v \<and> ext_len a' ! v = ext_len a ! v)"

lemma only_window_refl [simp]: "only_window w a a"
  by (simp add: only_window_def kept_def)

lemma only_window_trans: "only_window w a b \<Longrightarrow> only_window w b c \<Longrightarrow> only_window w a c"
  by (simp add: only_window_def kept_def)

lemma res_page_inv:
  assumes "iommu_contract H" "res_inv d a" "w < 3" "al iova" "at_page w iova j a" "0x4000 * Suc j < 2 ^ 64"
    and run: "res_page H entry w iova phys (of_nat (0x4000 * j)) a = (r, a')"
  shows "res_inv d a' \<and> only_window w a a' \<and> (r = None \<longrightarrow> at_page w iova (Suc j) a')"
proof -
  let ?off = "of_nat (0x4000 * j) :: u64"
  define pa where "pa = (if w < 2 then phys + ?off else iommu_iova_to_phys (dom_map a) (dev_iova a + iova + ?off - entry))"
  show ?thesis
  proof (cases "pa = 0 \<or> \<not> al pa \<or> iommu_iova_to_phys (dom_map a) (iova + ?off) \<noteq> 0 \<or> isl (iommu_map H (dom_map a) (iova + ?off) pa)")
    case True
    then have "a' = a" "r \<noteq> None"
      using run unfolding res_page_def pa_def [symmetric] by (auto simp: Let_def isl_def split: if_splits)
    then show ?thesis using assms(2) by auto
  next
    case False
    then obtain d' where d': "iommu_map H (dom_map a) (iova + ?off) pa = Inr d'"
      by (cases "iommu_map H (dom_map a) (iova + ?off) pa") auto
    let ?b = "a\<lparr>dom_map := d', ext_len := (ext_len a)[w := ?off + ANE_T6021_FW_ALIAS_PAGE], ext_iova := (ext_iova a)[w := iova]\<rparr>"
    have a': "a' = ?b" using run False d' unfolding res_page_def pa_def [symmetric] by (auto simp: Let_def split: if_splits)
    have next_off: "?off + ANE_T6021_FW_ALIAS_PAGE = of_nat (0x4000 * Suc j)" by (simp add: ANE_T6021_FW_ALIAS_PAGE_def)
    have len: "length (ext_iova a) = 3" "length (ext_len a) = 3" using assms(2) by (simp_all add: res_inv_def)
    have old: "pages iova ?off = pages (ext_iova a ! w) (ext_len a ! w)"
      using assms(5) by (cases "j = 0") (auto simp: at_page_def)
    have rec: "recorded ?b = insert (iova + ?off) (recorded a)"
    proof -
      have "recorded ?b = (\<Union>v\<in>{..<3} - {w}. pages (ext_iova a ! v) (ext_len a ! v)) \<union> pages iova (of_nat (0x4000 * Suc j))"
        using assms(3) len unfolding recorded_def next_off by (auto simp: nth_list_update split: if_splits)
      also have "\<dots> = insert (iova + ?off) (recorded a)"
        unfolding pages_Suc [OF assms(6)] old recorded_def using assms(3) by auto
      finally show ?thesis .
    qed
    from mapD [OF assms(1) d'] assms(4) False have m: "dom_map a (iova + ?off) = None" "d' = (dom_map a)(iova + ?off \<mapsto> pa)" by auto
    have "added d (recorded a) (dom_map a)" using assms(2) by (simp add: res_inv_def)
    from added_step [OF this m(1)] have "added d (recorded ?b) d'" unfolding rec by (simp only: m(2))
    moreover have "al (?off + ANE_T6021_FW_ALIAS_PAGE)" unfolding next_off by (rule al_page)
    ultimately have "res_inv d ?b" using assms(2,3,4) len by (auto simp: res_inv_def nth_list_update)
    moreover have "only_window w a ?b" by (auto simp: only_window_def kept_def)
    moreover have "at_page w iova (Suc j) ?b" using assms(3) len by (simp add: at_page_def next_off del: of_nat_mult)
    ultimately show ?thesis unfolding a' by blast
  qed
qed

lemma res_window_inv:
  assumes "iommu_contract H" "w < 3" "al iova" "0x4000 * n < 2 ^ 64"
  shows "res_inv d a \<Longrightarrow> at_page w iova j a \<Longrightarrow> j \<le> n \<Longrightarrow>
    res_window H entry w iova phys (map (\<lambda>k. of_nat (0x4000 * k)) [j..<n]) a = (r, a') \<Longrightarrow> res_inv d a' \<and> only_window w a a'"
proof (induction "n - j" arbitrary: j a)
  case (Suc i)
  then have j: "j < n" by simp
  obtain r1 a1 where p: "res_page H entry w iova phys (of_nat (0x4000 * j)) a = (r1, a1)" by fastforce
  have "0x4000 * Suc j < 2 ^ 64" using j assms(4) by simp
  note step = res_page_inv [OF assms(1) Suc.prems(1) assms(2,3) Suc.prems(2) this p]
  show ?case
  proof (cases r1)
    case None
    with Suc.prems(4) p j have "res_window H entry w iova phys (map (\<lambda>k. of_nat (0x4000 * k)) [Suc j..<n]) a1 = (r, a')"
      by (simp add: upt_conv_Cons del: of_nat_mult)
    from Suc.hyps(1) [OF _ _ _ _ this] step None j Suc.hyps(2) show ?thesis by (auto intro: only_window_trans)
  next
    case (Some e)
    with Suc.prems(4) p j have "a' = a1" by (simp add: upt_conv_Cons del: of_nat_mult)
    then show ?thesis using step by simp
  qed
qed simp

lemma npages_lt: "unat len < 2 ^ 33 \<Longrightarrow> 0x4000 * npages len < 2 ^ 64"
  unfolding npages_def by simp

text \<open>The windows still to map are numbered apart from those that are recorded.\<close>

lemma res_windows_inv:
  assumes "iommu_contract H"
  shows "res_inv d a \<Longrightarrow> distinct (map fst ws) \<Longrightarrow>
    (\<And>w iova phys len. (w, iova, phys, len) \<in> set ws \<Longrightarrow> w < 3 \<and> al iova \<and> unat len < 2 ^ 33 \<and> ext_len a ! w = 0) \<Longrightarrow>
    res_windows H entry ws a = (r, a') \<Longrightarrow>
    res_inv d a' \<and> kept a a' \<and> extn a' = extn a \<and> (\<forall>v. v \<notin> fst ` set ws \<longrightarrow> ext_len a' ! v = ext_len a ! v)"
proof (induction ws arbitrary: a)
  case (Cons x ws)
  obtain w iova phys len where x: "x = (w, iova, phys, len)" by (cases x)
  with Cons.prems(3) have w: "w < 3" "al iova" "unat len < 2 ^ 33" "ext_len a ! w = 0" by auto
  obtain r1 a1 where p: "res_window H entry w iova phys (page_offs len) a = (r1, a1)" by fastforce
  have "at_page w iova 0 a" using w(4) by (simp add: at_page_def)
  from res_window_inv [OF assms w(1,2) npages_lt [OF w(3)] Cons.prems(1) this _ p [unfolded page_offs]]
  have one: "res_inv d a1" "only_window w a a1" by simp_all
  show ?case
  proof (cases r1)
    case None
    with Cons.prems(4) p x have rest: "res_windows H entry ws a1 = (r, a')" by simp
    have "w' < 3 \<and> al iova' \<and> unat len' < 2 ^ 33 \<and> ext_len a1 ! w' = 0" if "(w', iova', phys', len') \<in> set ws" for w' iova' phys' len'
    proof -
      have "w' \<noteq> w" using that Cons.prems(2) x by force
      then show ?thesis using Cons.prems(3) [of w' iova' phys' len'] that one(2) by (simp add: only_window_def)
    qed
    from Cons.IH [OF one(1) _ this rest] Cons.prems(2) one(2) x show ?thesis
      by (auto simp: only_window_def kept_def)
  next
    case (Some e)
    with Cons.prems(4) p x have "a' = a1" by simp
    then show ?thesis using one x by (auto simp: only_window_def)
  qed
qed (auto simp: kept_def)

lemma unwind_all:
  assumes "iommu_contract H" "\<And>i. i < n \<Longrightarrow> al (b i) \<and> al (l i)"
  shows "fold (\<lambda>i d. if l i \<noteq> 0 then iommu_unmap H d (b i) (l i) else d) [0..<n] d = (\<lambda>y. if \<exists>i<n. y \<in> pages (b i) (l i) then None else d y)"
proof -
  have "(if l i \<noteq> 0 then iommu_unmap H d (b i) (l i) else d) = iommu_unmap H d (b i) (l i)" if "i < n" for i d
    using assms(2) [OF that] by (auto simp: unmapD [OF assms(1)])
  then have "fold (\<lambda>i d. if l i \<noteq> 0 then iommu_unmap H d (b i) (l i) else d) [0..<n] d =
      fold (\<lambda>i d. iommu_unmap H d (b i) (l i)) [0..<n] d"
    by (intro fold_cong) (auto simp: fun_eq_iff)
  then show ?thesis using unmap_all [OF assms] by simp
qed

lemma windows_facts:
  assumes "al entry"
  shows "length (windows_of H entry sz) \<in> {2, 3}" "map fst (windows_of H entry sz) = [0..<length (windows_of H entry sz)]"
    "(w, iova, phys, len) \<in> set (windows_of H entry sz) \<Longrightarrow> w < 3 \<and> al iova \<and> unat len < 2 ^ 33"
proof -
  have "unat (ucast (v :: u32) :: u64) < 2 ^ 33" for v
    using unat_lt_2p32 [of v] by (simp add: unat_ucast_32_64)
  then show "(w, iova, phys, len) \<in> set (windows_of H entry sz) \<Longrightarrow> w < 3 \<and> al iova \<and> unat len < 2 ^ 33"
    using assms al_add [OF al_numerals(4,5)] al_add [OF assms al_numerals(7)]
    by (auto simp: windows_of_def reserved_base_def ane_t6021_fw_preload_def al_numerals split: if_splits)
qed (auto simp: windows_of_def upt_rec)

lemma recorded_upto:
  assumes "n = 2 \<or> n = 3" "n = 2 \<Longrightarrow> ext_len a ! 2 = 0"
  shows "recorded a = (\<Union>w<n. pages (ext_iova a ! w) (ext_len a ! w))"
  using assms by (auto simp: recorded_def numeral_3_eq_3 numeral_2_eq_2 lessThan_Suc less_Suc_eq)

lemma fresh_res_inv: "fresh a \<Longrightarrow> res_inv (dom_map a) a"
  by (auto simp: fresh_def res_inv_def recorded_def less_Suc_eq numeral_3_eq_3 lessThan_Suc)

lemma reserved_aliased:
  assumes H: "iommu_contract H" "attached H" and a: "fresh a" "al entry"
    and run: "alias_reserved H entry a = (r, a')"
  shows "aliased H (dom_map a) (r = None) a' \<and> kept a a'"
proof (cases "reserved_base = entry")
  case False
  then have "a' = a" "r = Some EINVAL" using run by (auto simp: alias_reserved_def Let_def)
  then show ?thesis using aliased_none [OF a(1)] by (simp add: kept_def)
next
  case True
  let ?ws = "windows_of H entry (dev_size a)"
  let ?n = "length ?ws"
  note wf = windows_facts [OF a(2), where H = H and sz = "dev_size a"]
  have n: "?n = 2 \<or> ?n = 3" using wf(1) by auto
  obtain r1 a1 where p: "res_windows H entry ?ws a = (r1, a1)" by fastforce
  have nums: "fst ` set ?ws = {..<?n}" using arg_cong [OF wf(2), of set] by (simp only: set_map set_upt atLeast0LessThan)
  have zero: "ext_len a ! w = 0" if "w < 3" for w using a(1) that by (auto simp: fresh_def less_Suc_eq numeral_3_eq_3)
  have "res_inv (dom_map a) a1 \<and> kept a a1 \<and> extn a1 = extn a \<and> (\<forall>v. v \<notin> fst ` set ?ws \<longrightarrow> ext_len a1 ! v = ext_len a ! v)"
    by (rule res_windows_inv [OF H(1) fresh_res_inv [OF a(1)] _ _ p]) (simp only: wf(2) distinct_upt, use wf(3) zero in blast)
  then have a1: "res_inv (dom_map a) a1" "kept a a1" "?n = 2 \<Longrightarrow> ext_len a1 ! 2 = 0"
    unfolding nums using zero [of 2] by auto
  note rec = recorded_upto [OF n a1(3)]
  have al1: "\<And>i. i < ?n \<Longrightarrow> al (ext_iova a1 ! i) \<and> al (ext_len a1 ! i)" using a1(1) n by (auto simp: res_inv_def)
  show ?thesis
  proof (cases r1)
    case (Some e)
    with run True p have a': "a' = res_unwind H ?n a1" "r = Some e" by (auto simp: alias_reserved_def Let_def)
    have "dom_map a' = dom_map a"
      using added_remove [of "dom_map a" "recorded a1" "dom_map a1"] a1(1)
      unfolding a' res_unwind_def rec by (simp add: unwind_all [OF H(1) al1] res_inv_def rec Bex_def)
    moreover have "extn a' = 0" "kept a a'" using a1(1,2) a(1) by (simp_all add: a' res_unwind_def kept_def fresh_def res_inv_def)
    ultimately show ?thesis using a'(2) by (simp add: aliased_def extents_def)
  next
    case None
    let ?b = "a1\<lparr>extn := ?n, alias_iova := entry\<rparr>"
    have "extents ?b = recorded a1" using rec by (simp add: extents_def)
    then have al_b: "aliased H (dom_map a) False ?b"
      using a1(1) al1 H(2) n by (auto simp: aliased_def res_inv_def)
    have run_b: "ane_t6021_pmu_map H ?b = (r, a')" using None True p run by (simp add: alias_reserved_def Let_def)
    from pmu_aliased [OF H(1) al_b run_b] a1(2) show ?thesis by (simp add: kept_def)
  qed
qed

text \<open>What a staged allocation gives the mapping.\<close>

definition buffer_ok :: "fw_dev \<Rightarrow> bool" where
  "buffer_ok a \<longleftrightarrow> al (ucast (dev_size a)) \<and> dev_size a \<noteq> 0 \<and> al (dev_iova a) \<and>
     (\<forall>x\<in>pages (dev_iova a) (ucast (dev_size a)). \<exists>pa. dom_map a x = Some pa \<and> pa \<noteq> 0)"

lemma alias_map_aliased:
  assumes H: "iommu_contract H" and a: "fresh a" "buffer_ok a"
    and run: "ane_t6021_fw_alias_map H res a = (r, a')"
  shows "(\<exists>b. aliased H (dom_map a) b a' \<and> (r \<noteq> None \<longrightarrow> \<not> b) \<and>
      (r = None \<and> ane_t6021_rvbar_latched (rvbar_alias H) \<and> ane_t6021_rvbar_entry_bits (rvbar_alias H) \<noteq> 0 \<longrightarrow> b)) \<and> kept a a'"
proof -
  let ?e = "ane_t6021_rvbar_entry_bits (rvbar_alias H)"
  consider (stop) "a' = a" "r \<noteq> None \<or> \<not> ane_t6021_rvbar_latched (rvbar_alias H) \<or> ?e = 0"
    | (own) "attached H" "al ?e" "alias_own H ?e a = (r, a')" | (res) "attached H" "al ?e" "alias_reserved H ?e a = (r, a')"
    using run unfolding ane_t6021_fw_alias_map_def Let_def by (auto split: if_splits)
  then show ?thesis
  proof cases
    case stop
    then show ?thesis using aliased_none [OF a(1)] by (auto simp: kept_def)
  next
    case own
    with own_aliased [OF H own(1) a(1) own(2) _ _ _ _ own(3)] a(2) show ?thesis by (auto simp: buffer_ok_def)
  next
    case res
    with reserved_aliased [OF H res(1) a(1) res(2,3)] show ?thesis by auto
  qed
qed

lemma remove_aliased:
  assumes H: "iommu_contract H" "dma_contract H" and a: "aliased H d0 b a" "fw_buf a \<noteq> None"
    and d0: "\<forall>x\<in>pages (dev_iova a) (ucast (dev_size a)). d x = None" "\<forall>x. x \<notin> pages (dev_iova a) (ucast (dev_size a)) \<longrightarrow> d0 x = d x"
  defines "a' \<equiv> ane_t6021_fwload_remove H a"
  shows "(\<forall>x. x \<noteq> pmu_page H \<longrightarrow> dom_map a' x = d x) \<and> (\<not> b \<longrightarrow> dom_map a' = d) \<and> fw_buf a' = None \<and> extn a' = 0"
proof -
  from a(1) obtain d1 where d1: "added d0 (extents a) d1" "dom_map a = (if b then d1(pmu_page H \<mapsto> pmu_page H) else d1)"
    and al1: "\<And>i. i < extn a \<Longrightarrow> al (ext_iova a ! i) \<and> al (ext_len a ! i)" and att: "extn a \<noteq> 0 \<longrightarrow> attached H"
    by (auto simp: aliased_def)
  let ?d2 = "\<lambda>y. if y \<in> extents a then None else dom_map a y"
  let ?M = "pages (dev_iova a) (ucast (dev_size a))"
  have f: "fold (\<lambda>i d. iommu_unmap H d (ext_iova a ! i) (ext_len a ! i)) [0..<extn a] (dom_map a) = ?d2"
    using unmap_all [OF H(1), of "extn a" "(!) (ext_iova a)" "(!) (ext_len a)" "dom_map a"] al1
    by (auto simp: extents_def Bex_def)
  have "extn a = 0 \<Longrightarrow> extents a = {}" by (simp add: extents_def)
  then have a': "dom_map a' = (\<lambda>y. if y \<in> ?M then None else ?d2 y)" "fw_buf a' = None" "extn a' = 0"
    using H(2) a(2) att f unfolding a'_def ane_t6021_fwload_remove_def dma_contract_def by (auto simp: Let_def)
  have d2: "?d2 x = d0 x" if "x \<noteq> pmu_page H \<or> \<not> b" for x
    using that d1 by (auto simp: added_def)
  have "dom_map a' x = d x" if "x \<noteq> pmu_page H \<or> \<not> b" for x
    unfolding a'(1) using d0 d2 [OF that] by auto
  then show ?thesis using a'(2,3) by auto
qed

section \<open>The loader\<close>

definition new_dev :: "fw_dev \<Rightarrow> bool" where
  "new_dev a \<longleftrightarrow> fresh a \<and> fw_buf a = None"

definition latched_entry :: "host \<Rightarrow> bool" where
  "latched_entry H \<longleftrightarrow> ane_t6021_rvbar_latched (rvbar_alias H) \<and> ane_t6021_rvbar_entry_bits (rvbar_alias H) \<noteq> 0"

text \<open>The state a successful staging leaves: over the domain \<open>d\<close> the buffer pages, the recorded
  extents and, with a latched entry, the pmu page.\<close>

definition placed :: "host \<Rightarrow> domain \<Rightarrow> fw_dev \<Rightarrow> bool" where
  "placed H d a \<longleftrightarrow> fw_buf a \<noteq> None \<and> (\<exists>d0 b. aliased H d0 b a \<and> (latched_entry H \<longrightarrow> b) \<and>
     (\<forall>x\<in>pages (dev_iova a) (ucast (dev_size a)). d x = None \<and> d0 x \<noteq> None) \<and>
     (\<forall>x. x \<notin> pages (dev_iova a) (ucast (dev_size a)) \<longrightarrow> d0 x = d x))"

lemma alloc_size_ok:
  assumes "v AND 0x3fff = 0" "v \<le> 0x1000000"
  shows "al (ucast (ANE_FW_BUF_SIZE + v :: u32))" "ANE_FW_BUF_SIZE + v \<noteq> 0"
proof -
  have "unat v \<le> 0x1000000" using assms(2) by (simp add: word_le_nat_alt)
  then have u: "unat (ANE_FW_BUF_SIZE + v) = 0x500000 + unat v"
    by (subst unat_add_u32) (simp_all add: ANE_FW_BUF_SIZE_def)
  then show "ANE_FW_BUF_SIZE + v \<noteq> 0" by (metis add_eq_0_iff_both_eq_0 unat_0 zero_neq_numeral)
  have "v AND mask 14 = 0" using assms(1) by (simp add: mask_eq_exp_minus_1)
  then have "unat (take_bit 14 v) = 0" by (simp add: take_bit_eq_mask)
  then have "0x4000 dvd unat v" by (simp only: unsigned_take_bit_eq) (simp add: take_bit_eq_mod dvd_eq_mod_eq_0)
  then show "al (ucast (ANE_FW_BUF_SIZE + v :: u32))"
    unfolding al_unat unat_ucast_32_64 u by (intro dvd_add) simp_all
qed

lemma place_cases:
  assumes "fwload_place H res a = (r, a')"
  obtains e img where "r = Some e" "a' = ane_t6021_fwload_remove H (a\<lparr>fw_buf := Some img\<rparr>)"
  | img a1 where "ane_t6021_fw_alias_map H res (a\<lparr>fw_buf := Some img\<rparr>) = (r, a1)" "a' = (if r = None then a1 else ane_t6021_fwload_remove H a1)"
      "res \<Longrightarrow> img = the (fw_buf a)" "\<not> res \<Longrightarrow> ane_t6021_fw_patch H a (the (fw_buf a)) = (None, img)"
proof -
  obtain pr img where p: "(if res then (None, the (fw_buf a)) else ane_t6021_fw_patch H a (the (fw_buf a))) = (pr, img)" by fastforce
  obtain r1 a1 where m: "ane_t6021_fw_alias_map H res (a\<lparr>fw_buf := Some img\<rparr>) = (r1, a1)" by fastforce
  show ?thesis
  proof (cases pr)
    case (Some e)
    with assms p have "r = Some e" "a' = ane_t6021_fwload_remove H (a\<lparr>fw_buf := Some img\<rparr>)" by (simp_all add: fwload_place_def)
    then show ?thesis by (rule that(1))
  next
    case None
    have "r = r1" "a' = (if r = None then a1 else ane_t6021_fwload_remove H a1)"
      using assms None unfolding fwload_place_def p by (auto simp: m split: option.splits)
    then show ?thesis using that(2) m p None by (simp split: if_splits)
  qed
qed

lemma stage_outcome:
  assumes H: "iommu_contract H" "dma_contract H" and a: "new_dev a"
    and ram: "fw_extra_ram H AND 0x3fff = 0" "fw_extra_ram H \<le> 0x1000000"
    and run: "fwload_stage H a data segs = (r, a')"
  shows "(r \<noteq> None \<longrightarrow> dom_map a' = dom_map a \<and> fw_buf a' = None \<and> extn a' = 0) \<and> (r = None \<longrightarrow> placed H (dom_map a) a')"
proof (cases "dma_get H (dom_map a) (ANE_FW_BUF_SIZE + fw_extra_ram H)")
  case None
  then show ?thesis using run a by (auto simp: fwload_stage_def Let_def new_dev_def fresh_def)
next
  case (Some y)
  obtain iova d0 where y: "y = (iova, d0)" by (cases y)
  let ?sz = "ANE_FW_BUF_SIZE + fw_extra_ram H"
  let ?M = "pages iova (ucast ?sz)"
  let ?b = "a\<lparr>dom_map := d0, fw_buf := Some (staged data segs), dev_iova := iova, dev_size := ?sz\<rparr>"
  let ?a = "\<lambda>img. ?b\<lparr>fw_buf := Some img\<rparr>"
  from H(2) Some y have dma: "al iova" "\<forall>x\<in>?M. dom_map a x = None" "\<forall>x\<in>?M. \<exists>pa. d0 x = Some pa \<and> pa \<noteq> 0"
    "\<forall>x. x \<notin> ?M \<longrightarrow> d0 x = dom_map a x" unfolding dma_contract_def by blast+
  have fr: "fresh (?a img)" "buffer_ok (?a img)" for img
    using a dma alloc_size_ok [OF ram] by (simp_all add: new_dev_def fresh_def buffer_ok_def)
  have undo: "dom_map (ane_t6021_fwload_remove H b) = dom_map a \<and> fw_buf (ane_t6021_fwload_remove H b) = None \<and>
      extn (ane_t6021_fwload_remove H b) = 0"
    if "aliased H d0 False b" "kept (?a img) b" for b img
    using remove_aliased [OF H that(1), of "dom_map a"] that(2) dma by (auto simp: kept_def)
  from run Some y have pl: "fwload_place H (ane_t6021_fw_alias_is_reserved H) ?b = (r, a')"
    by (simp add: fwload_stage_def Let_def)
  show ?thesis
    using pl
  proof (cases rule: place_cases)
    case (1 e img)
    then show ?thesis using undo [of "?a img" img] aliased_none [OF fr(1)] by (simp add: kept_def)
  next
    case (2 img a1)
    note out = alias_map_aliased [OF H(1) fr 2(1)]
    show ?thesis
    proof (cases r)
      case (Some e)
      then show ?thesis using out undo [of a1 img] 2(2) by auto
    next
      case None
      with out obtain b where b: "aliased H d0 b a1" "latched_entry H \<longrightarrow> b" and k: "kept (?a img) a1"
        by (auto simp: latched_entry_def)
      have M: "\<forall>x\<in>pages (dev_iova a1) (ucast (dev_size a1)). dom_map a x = None \<and> d0 x \<noteq> None"
        "\<forall>x. x \<notin> pages (dev_iova a1) (ucast (dev_size a1)) \<longrightarrow> d0 x = dom_map a x"
        using k dma by (auto simp: kept_def)
      have "placed H (dom_map a) a1" using b M k unfolding placed_def by (auto simp: kept_def)
      then show ?thesis using None 2(2) by simp
    qed
  qed
qed

lemma lc_turn_out:
  "lc_turn blob sz fw c s = Some (Inr s') \<Longrightarrow> lc_out s \<noteq> None \<Longrightarrow> lc_out s' \<noteq> None"
  unfolding lc_turn_def put_seg_def
  by (auto simp: Let_def split: option.splits sum.splits if_splits prod.splits Option.bind_splits)

lemma lc_loop_out:
  "lc_loop n blob sz fw c s = Some (Inr s') \<Longrightarrow> lc_out s \<noteq> None \<Longrightarrow> lc_out s' \<noteq> None"
proof (induction n arbitrary: s)
  case (Suc n)
  then show ?case using lc_turn_out by (fastforce split: sum.splits Option.bind_splits)
qed simp

lemma validate_accepts:
  assumes "ane_fw_validate_blob blob sz fw sha (Some l) = Some (Inr (segs, e))" "pinned fw"
  shows "sha = fw_sha256 fw \<and> segs = Some (fw_segs fw)"
proof -
  have "take ANE_FW_NSEGS (fw_segs fw) = fw_segs fw"
    using assms(2) by (auto simp: pinned_def ane_fw_selene_def ane_fw_bia_def ANE_FW_NSEGS_def)
  then show ?thesis
    using assms(1) unfolding ane_fw_validate_blob_def
    by (auto split: sum.splits if_splits Option.bind_splits dest: lc_loop_out)
qed

lemma probe_cases:
  assumes "ane_t6021_fwload_probe H a = Some (r, a')"
  obtains "r \<noteq> None" "a' = a" | "\<not> fw_load H" "r = None" "a' = a"
  | data sz where "fw_load H" "fw_extra_ram H AND 0x3fff = 0" "fw_extra_ram H \<le> 0x1000000"
      "request_firmware H (fw_file (ane_t6021_soc_for H)) = Inr (data, sz)"
      "sha256 H data sz = fw_sha256 (row_fw (ane_t6021_soc_for H))"
      "fwload_stage H a data (fw_segs (row_fw (ane_t6021_soc_for H))) = (r, a')"
proof -
  let ?sd = "ane_t6021_soc_for H"
  have pin: "pinned (row_fw ?sd)" by (metis soc_for_row row_facts)
  show ?thesis
  proof (cases "fw_load H \<and> fw_extra_ram H \<le> 0x1000000 \<and> fw_extra_ram H AND 0x3fff = 0 \<and> (\<exists>x. request_firmware H (fw_file ?sd) = Inr x)")
    case False
    then show ?thesis using assms that(1,2)
      by (cases "request_firmware H (fw_file ?sd)") (auto simp: ane_t6021_fwload_probe_def Let_def split: if_splits)
  next
    case True
    then obtain data sz where rq: "request_firmware H (fw_file ?sd) = Inr (data, sz)" by auto
    let ?v = "ane_fw_validate_blob data sz (row_fw ?sd) (sha256 H data sz) (Some seg_table)"
    show ?thesis
    proof (cases "\<exists>segs e. ?v = Some (Inr (segs, e))")
      case False
      then have "r = Some EPERM \<and> a' = a"
        using assms True rq by (auto simp: ane_t6021_fwload_probe_def Let_def not_less
            split: option.splits sum.splits prod.splits if_splits)
      then show ?thesis using that(1) by simp
    next
      case True': True
      then obtain segs e where v: "?v = Some (Inr (segs, e))" by blast
      from validate_accepts [OF v pin] have "sha256 H data sz = fw_sha256 (row_fw ?sd)" "segs = Some (fw_segs (row_fw ?sd))" by simp_all
      moreover have "fwload_stage H a data (the segs) = (r, a')"
        using assms True rq v by (auto simp: ane_t6021_fwload_probe_def Let_def not_less split: if_splits)
      ultimately show ?thesis using that(3) [OF _ _ _ rq] True by simp
    qed
  qed
qed

text \<open>C8: Over a kernel whose IOMMU and DMA calls behave as documented, loading the firmware into a new device
  and removing it again leaves no trace in the IOMMU domain but one page: a load that fails, wherever it
  fails and in both alias modes, leaves the domain exactly as it was and no buffer behind, and removing a
  successful load restores every page except that of the power manager.\<close>

theorem fwload_restores_domain:
  assumes "iommu_contract H" "dma_contract H" "new_dev a" "ane_t6021_fwload_probe H a = Some (r, a')"
  shows "(r \<noteq> None \<longrightarrow> dom_map a' = dom_map a \<and> fw_buf a' = None \<and> extn a' = 0) \<and>
    (r = None \<longrightarrow> (\<forall>x. x \<noteq> pmu_pa (ane_t6021_soc_for H) \<longrightarrow> dom_map (ane_t6021_fwload_remove H a') x = dom_map a x) \<and>
       fw_buf (ane_t6021_fwload_remove H a') = None)"
  using assms(4)
proof (cases rule: probe_cases)
  case 1
  then show ?thesis using assms(3) by (auto simp: new_dev_def fresh_def)
next
  case 2
  then show ?thesis using assms(3) by (simp add: new_dev_def fresh_def ane_t6021_fwload_remove_def)
next
  case (3 data sz)
  note out = stage_outcome [OF assms(1-3) 3(2,3,6)]
  show ?thesis
  proof (cases r)
    case None
    with out obtain d0 b where "aliased H d0 b a'" "fw_buf a' \<noteq> None"
      "\<forall>x\<in>pages (dev_iova a') (ucast (dev_size a')). dom_map a x = None"
      "\<forall>x. x \<notin> pages (dev_iova a') (ucast (dev_size a')) \<longrightarrow> d0 x = dom_map a x" by (auto simp: placed_def)
    from remove_aliased [OF assms(1,2) this] None show ?thesis by simp
  qed (use out in simp)
qed

lemma placed_pmu:
  assumes "placed H d a" "latched_entry H"
  shows "dom_map a (pmu_page H) \<noteq> None" "d (pmu_page H) = None" "pmu_page H \<notin> extents a"
    "pmu_page H \<notin> pages (dev_iova a) (ucast (dev_size a))"
proof -
  from assms obtain d0 d1 where d1: "added d0 (extents a) d1" "dom_map a = d1(pmu_page H \<mapsto> pmu_page H)" "d1 (pmu_page H) = None"
    and M: "\<forall>x\<in>pages (dev_iova a) (ucast (dev_size a)). d x = None \<and> d0 x \<noteq> None"
      "\<forall>x. x \<notin> pages (dev_iova a) (ucast (dev_size a)) \<longrightarrow> d0 x = d x"
    by (auto simp: placed_def aliased_def)
  then show "dom_map a (pmu_page H) \<noteq> None" "pmu_page H \<notin> extents a" by (auto simp: added_def)
  then have "d0 (pmu_page H) = None" using d1 by (auto simp: added_def)
  then show "pmu_page H \<notin> pages (dev_iova a) (ucast (dev_size a))" "d (pmu_page H) = None" using M by auto
qed

lemma remove_keeps_pmu:
  assumes "iommu_contract H" "dma_contract H" "placed H d a" "latched_entry H"
  shows "dom_map (ane_t6021_fwload_remove H a) (pmu_page H) \<noteq> None"
proof -
  from assms(3) have "\<And>i. i < extn a \<Longrightarrow> al (ext_iova a ! i) \<and> al (ext_len a ! i)" by (auto simp: placed_def aliased_def)
  then have "fold (\<lambda>i d. iommu_unmap H d (ext_iova a ! i) (ext_len a ! i)) [0..<extn a] (dom_map a) (pmu_page H) \<noteq> None"
    using unmap_all [OF assms(1), of "extn a" "(!) (ext_iova a)" "(!) (ext_len a)" "dom_map a"] placed_pmu [OF assms(3,4)]
    by (auto simp: extents_def)
  then show ?thesis
    using assms(2) placed_pmu [OF assms(3,4)] unfolding ane_t6021_fwload_remove_def dma_contract_def by (auto simp: Let_def)
qed

text \<open>C37: The page of the power manager stays mapped after a removal, so while the entry is latched no later load
  into the same domain succeeds: its own mapping of that page is refused.  The probe's refusal of a second
  attempt in the same boot rests on it.\<close>

theorem fwload_never_loads_twice:
  assumes "iommu_contract H" "dma_contract H" "latched_entry H" "fw_load H" "new_dev a" "ane_t6021_fwload_probe H a = Some (None, a1)"
    and "new_dev a2" "dom_map a2 = dom_map (ane_t6021_fwload_remove H a1)" "ane_t6021_fwload_probe H a2 = Some (r, a3)"
  shows "r \<noteq> None"
proof -
  have loads: "placed H (dom_map b) b'" if "new_dev b" "ane_t6021_fwload_probe H b = Some (None, b')" for b b'
    using that(2)
  proof (cases rule: probe_cases)
    case (3 data sz)
    from stage_outcome [OF assms(1,2) that(1) 3(2,3,6)] show ?thesis by simp
  qed (use assms(4) in simp_all)
  from remove_keeps_pmu [OF assms(1,2) loads [OF assms(5,6)] assms(3)] have "dom_map a2 (pmu_page H) \<noteq> None"
    unfolding assms(8) .
  then show ?thesis using loads [OF assms(7)] placed_pmu(2) [OF _ assms(3)] assms(9) by metis
qed

lemma staged_segments:
  assumes "pinned fw" "s \<in> set (fw_segs fw)" "k < unat (seg_filesize s)"
  shows "staged data (fw_segs fw) (unat (seg_vmaddr s) + k) = data (unat (seg_fileoff s) + k)"
  using assms by (auto simp: pinned_def ane_fw_selene_def ane_fw_bia_def staged_def copy_seg_def)

lemma patch_done:
  assumes "ane_t6021_fw_patch H a img = (None, img')"
  obtains rv key where "ane_t6021_soc_revision H (ane_t6021_soc_for H) = Inr rv"
    "patched img' (row_fw (ane_t6021_soc_for H)) (row_tunables (ane_t6021_soc_for H)) (patch_of H a rv) key"
    "img' = put_all (patch_stores (row_fw (ane_t6021_soc_for H)) (row_tunables (ane_t6021_soc_for H)) (patch_of H a rv) key) img"
proof -
  let ?sd = "ane_t6021_soc_for H"
  have pin: "pinned (row_fw ?sd)" by (metis soc_for_row row_facts)
  from assms obtain rv where rv: "ane_t6021_soc_revision H ?sd = Inr rv"
    and ap: "ane_fw_apply_boot_patches img (row_fw ?sd) (row_tunables ?sd) (patch_of H a rv) = (None, img')"
    unfolding ane_t6021_fw_patch_def Let_def by (auto split: sum.splits prod.splits option.splits)
  from ap obtain key where "tun_n (row_tunables ?sd) \<le> ANE_FW_TUNABLES_MAX" "rtk_records_ok img (row_fw ?sd)"
    "tunables_block_unset img (row_fw ?sd)"
    "img' = put_all (patch_stores (row_fw ?sd) (row_tunables ?sd) (patch_of H a rv) key) img"
    unfolding ane_fw_apply_boot_patches_def by (auto split: option.splits if_splits)
  with patches_written [OF pin] rv show ?thesis by (intro that) auto
qed

lemma stage_own:
  assumes "fwload_stage H a data segs = (None, a')" "\<not> ane_t6021_fw_alias_is_reserved H"
  obtains iova d0 img where "dma_get H (dom_map a) (ANE_FW_BUF_SIZE + fw_extra_ram H) = Some (iova, d0)"
    "ane_t6021_fw_patch H (a\<lparr>dom_map := d0, fw_buf := Some (staged data segs), dev_iova := iova,
       dev_size := ANE_FW_BUF_SIZE + fw_extra_ram H\<rparr>) (staged data segs) = (None, img)"
    "ane_t6021_fw_alias_map H False (a\<lparr>dom_map := d0, dev_iova := iova,
       dev_size := ANE_FW_BUF_SIZE + fw_extra_ram H, fw_buf := Some img\<rparr>) = (None, a')"
proof -
  let ?z = "ANE_FW_BUF_SIZE + fw_extra_ram H"
  from assms(1) obtain iova d0 where g: "dma_get H (dom_map a) ?z = Some (iova, d0)"
    by (cases "dma_get H (dom_map a) ?z") (auto simp: fwload_stage_def Let_def)
  let ?b = "a\<lparr>dom_map := d0, fw_buf := Some (staged data segs), dev_iova := iova, dev_size := ?z\<rparr>"
  have pl: "fwload_place H False ?b = (None, a')"
    using assms g by (simp add: fwload_stage_def Let_def)
  from pl obtain img where "ane_t6021_fw_alias_map H False (?b\<lparr>fw_buf := Some img\<rparr>) = (None, a')"
    "ane_t6021_fw_patch H ?b (staged data segs) = (None, img)"
    by (cases rule: place_cases) auto
  with g show ?thesis by (intro that) simp_all
qed

text \<open>C17: When a load in own-memory mode succeeds with a latched entry, the staged memory holds the segments of
  a file with the pinned hash, with the boot patches of the running system readable in it, based at the
  latched entry, and no other byte changed; the device sees each page of it at the latched entry, backed by
  the same physical page as in the buffer, and the power-manager page at its own address.\<close>

theorem fwload_own_memory:
  assumes "iommu_contract H" "dma_contract H" "new_dev a" "fw_load H" "latched_entry H" "rvbar_patch H = rvbar_alias H"
    and "\<not> ane_t6021_fw_alias_is_reserved H" "ane_t6021_fwload_probe H a = Some (None, a')"
  shows "\<exists>data sz rv key img. let sd = ane_t6021_soc_for H; fw = row_fw sd; p = patch_of H a' rv;
       entry = ane_t6021_rvbar_entry_bits (rvbar_alias H) in
     request_firmware H (fw_file sd) = Inr (data, sz) \<and> sha256 H data sz = fw_sha256 fw \<and>
     ane_t6021_soc_revision H sd = Inr rv \<and> fw_buf a' = Some img \<and>
     exec_base p = entry \<and> patched img fw (row_tunables sd) p key \<and>
     (\<forall>x. (\<forall>w\<in>set (patch_stores fw (row_tunables sd) p key). \<not> covers w x) \<longrightarrow> img x = staged data (fw_segs fw) x) \<and>
     (\<forall>s\<in>set (fw_segs fw). \<forall>k<unat (seg_filesize s).
        staged data (fw_segs fw) (unat (seg_vmaddr s) + k) = data (unat (seg_fileoff s) + k)) \<and>
     (\<forall>off\<in>set (page_offs (ucast (dev_size a'))). dom_map a' (entry + off) = dom_map a' (dev_iova a' + off) \<and>
        dom_map a' (entry + off) \<noteq> None) \<and>
     dom_map a' (pmu_pa sd) = Some (pmu_pa sd)"
  using assms(8)
proof (cases rule: probe_cases)
  case (3 data sz)
  let ?sd = "ane_t6021_soc_for H"
  let ?e = "ane_t6021_rvbar_entry_bits (rvbar_alias H)"
  let ?z = "ANE_FW_BUF_SIZE + fw_extra_ram H"
  have pin: "pinned (row_fw ?sd)" by (metis soc_for_row row_facts)
  let ?st = "staged data (fw_segs (row_fw ?sd))"
  obtain iova d0 img where g: "dma_get H (dom_map a) ?z = Some (iova, d0)"
    and pt: "ane_t6021_fw_patch H (a\<lparr>dom_map := d0, fw_buf := Some ?st, dev_iova := iova, dev_size := ?z\<rparr>) ?st = (None, img)"
    and m: "ane_t6021_fw_alias_map H False (a\<lparr>dom_map := d0, dev_iova := iova, dev_size := ?z, fw_buf := Some img\<rparr>) = (None, a')"
    by (rule stage_own [OF 3(6) assms(7)])
  let ?b = "a\<lparr>dom_map := d0, fw_buf := Some ?st, dev_iova := iova, dev_size := ?z\<rparr>"
  from pt obtain rv key where rv: "ane_t6021_soc_revision H ?sd = Inr rv"
    and img: "patched img (row_fw ?sd) (row_tunables ?sd) (patch_of H ?b rv) key"
      "img = put_all (patch_stores (row_fw ?sd) (row_tunables ?sd) (patch_of H ?b rv) key) ?st"
    by (rule patch_done)
  let ?c = "a\<lparr>dom_map := d0, dev_iova := iova, dev_size := ?z, fw_buf := Some img\<rparr>"
  from assms(2) g have dma: "al iova" "\<forall>x\<in>pages iova (ucast ?z). \<exists>pa. d0 x = Some pa \<and> pa \<noteq> 0" unfolding dma_contract_def by blast+
  from m assms(5) have own: "attached H" "al ?e" "alias_own H ?e ?c = (None, a')"
    unfolding ane_t6021_fw_alias_map_def Let_def latched_entry_def by (auto split: if_splits)
  have c: "fresh ?c" "dev_size ?c = ?z" "dev_iova ?c = iova" "dom_map ?c = d0" using assms(3) by (simp_all add: new_dev_def fresh_def)
  from own_aliased [OF assms(1) own(1) c(1) own(2) _ _ _ _ own(3), unfolded c, OF alloc_size_ok [OF 3(2,3)] dma]
  have dom: "kept ?c a'" "\<forall>off\<in>set (page_offs (ucast ?z)). dom_map a' (?e + off) = dom_map a' (iova + off) \<and> dom_map a' (?e + off) \<noteq> None"
    "dom_map a' (pmu_page H) = Some (pmu_page H)" by blast+
  then have k: "fw_buf a' = Some img" "dev_iova a' = iova" "dev_size a' = ?z" by (simp_all add: kept_def)
  have p: "patch_of H ?b rv = patch_of H a' rv" "exec_base (patch_of H a' rv) = ?e"
    using assms(5,6) k(2) by (simp_all add: patch_of_def latched_entry_def)
  have other: "img x = ?st x" if "\<forall>w\<in>set (patch_stores (row_fw ?sd) (row_tunables ?sd) (patch_of H a' rv) key). \<not> covers w x" for x
    unfolding img(2) p(1) by (rule put_all_other) (rule that)
  show ?thesis
    unfolding Let_def
  proof (intro exI conjI)
    show "request_firmware H (fw_file ?sd) = Inr (data, sz)" "sha256 H data sz = fw_sha256 (row_fw ?sd)" by (fact 3(4), fact 3(5))
    show "ane_t6021_soc_revision H ?sd = Inr rv" "fw_buf a' = Some img" "exec_base (patch_of H a' rv) = ?e" by (fact rv, fact k(1), fact p(2))
    show "patched img (row_fw ?sd) (row_tunables ?sd) (patch_of H a' rv) key" using img(1) unfolding p(1) .
    show "\<forall>x. (\<forall>w\<in>set (patch_stores (row_fw ?sd) (row_tunables ?sd) (patch_of H a' rv) key). \<not> covers w x) \<longrightarrow> img x = ?st x"
      using other by blast
    show "\<forall>s\<in>set (fw_segs (row_fw ?sd)). \<forall>k<unat (seg_filesize s). ?st (unat (seg_vmaddr s) + k) = data (unat (seg_fileoff s) + k)"
      using staged_segments [OF pin] by blast
    show "\<forall>off\<in>set (page_offs (ucast (dev_size a'))). dom_map a' (?e + off) = dom_map a' (dev_iova a' + off) \<and> dom_map a' (?e + off) \<noteq> None"
      unfolding k(2,3) by (fact dom(2))
    show "dom_map a' (pmu_page H) = Some (pmu_page H)" by (fact dom(3))
  qed
qed (use assms(4) in simp_all)

end
