(* ===== verification/Ane_Fwload_Runs.thy ===== *)
theory Ane_Fwload_Runs
  imports Ane_Fwload Ane_Fw_Runs
begin

text \<open>
  A host whose IOMMU and DMA allocator satisfy the contracts of the loader and whose firmware file passes the
  validator and the patch checks: the load of a T6021 in own-memory mode, step by step, and the loader's
  properties applied to it.
\<close>

section \<open>A file the validator accepts\<close>

definition ex_file :: "store list" where
  "ex_file = ex_header @ ex_text 32 @ ex_data 104 @ ex_thread 176 @ [(464, 2, 4), (468, 16, 4), (480, 2, 4), (484, 16, 4)] @
     map (\<lambda>(p, v, n). (p + 0x4000, v, n)) ex_image"

lemma ex_file_fields:
  "list_all (\<lambda>(p, v, n). le_val n (blob_of ex_file) p = v \<and>
     map (blob_of ex_file) [p..<p + n] = map (\<lambda>k. ucast (drop_bit (8 * k) v)) [0..<n]) ex_file"
  by (rule blob_fields) code_simp+

lemma ex_file_segs:
  shows "seg_cmd (blob_of ex_file) 0x4c5b28 ane_fw_selene 32 = Some (Inr text_seg)"
    and "seg_cmd (blob_of ex_file) 0x4c5b28 ane_fw_selene 104 = Some (Inr data_seg)"
proof -
  have "(40, 0x545845545f5f, 8) \<in> set ex_file" "(48, 0, 8) \<in> set ex_file" "(56, 0, 8) \<in> set ex_file" "(64, 0x0c4000, 8) \<in> set ex_file"
    "(72, 0x4000, 8) \<in> set ex_file" "(80, 0x0c4000, 8) \<in> set ex_file"
    "(112, 0x415441445f5f, 8) \<in> set ex_file" "(120, 0, 8) \<in> set ex_file" "(128, 0x0c4000, 8) \<in> set ex_file"
    "(136, 0x438000, 8) \<in> set ex_file" "(144, 0x0c8000, 8) \<in> set ex_file" "(152, 0x3e8000, 8) \<in> set ex_file"
    by (simp_all add: ex_file_def ex_stores)
  note R = this [THEN ex_file_fields [unfolded list_all_iff, THEN bspec], unfolded prod.case]
  have "map (blob_of ex_file) [40..<56] = name16 ''__TEXT''" "map (blob_of ex_file) [112..<128] = name16 ''__DATA''"
    using R(1,2,7,8) upt_16 [of 40] upt_16 [of 112] unfolding ex_names by (simp_all del: upt_rec_numeral)
  then show "seg_cmd (blob_of ex_file) 0x4c5b28 ane_fw_selene 32 = Some (Inr text_seg)"
    "seg_cmd (blob_of ex_file) 0x4c5b28 ane_fw_selene 104 = Some (Inr data_seg)"
    using R(3-6,9-12) by (auto intro!: seg_cmd_eval simp: text_seg_def data_seg_def ex_segs simp del: upt_rec_numeral)
qed

lemma ex_file_accepted:
  "ane_fw_validate_blob (blob_of ex_file) 0x4c5b28 ane_fw_selene (fw_sha256 ane_fw_selene) (Some seg_table) =
     Some (Inr (Some (fw_segs ane_fw_selene), 0))"
proof -
  let ?b = "blob_of ex_file"
  have "(0, 0xfeedfacf, 4) \<in> set ex_file" "(4, 0x0100000c, 4) \<in> set ex_file" "(12, 5, 4) \<in> set ex_file"
    "(16, 5, 4) \<in> set ex_file" "(20, 0x960, 4) \<in> set ex_file" "(24, 1, 4) \<in> set ex_file"
    "(32, 0x19, 4) \<in> set ex_file" "(36, 72, 4) \<in> set ex_file" "(104, 0x19, 4) \<in> set ex_file" "(108, 72, 4) \<in> set ex_file"
    "(176, 5, 4) \<in> set ex_file" "(180, 288, 4) \<in> set ex_file" "(184, 6, 4) \<in> set ex_file" "(188, 68, 4) \<in> set ex_file"
    "(448, 0, 8) \<in> set ex_file" "(464, 2, 4) \<in> set ex_file" "(468, 16, 4) \<in> set ex_file" "(480, 2, 4) \<in> set ex_file" "(484, 16, 4) \<in> set ex_file"
    by (simp_all add: ex_file_def ex_stores)
  note R = this [THEN ex_file_fields [unfolded list_all_iff, THEN bspec], unfolded prod.case, THEN conjunct1]
  have five: "(5 :: nat) = Suc (Suc (Suc (Suc (Suc 0))))" by simp
  have turn: "lc_turn ?b 0x4c5b28 ane_fw_selene 0x960 \<lparr>lc_off = 464, lc_nsegs = n, lc_entry = e, lc_out = l\<rparr> =
      Some (Inr \<lparr>lc_off = 480, lc_nsegs = n, lc_entry = e, lc_out = l\<rparr>)"
    "lc_turn ?b 0x4c5b28 ane_fw_selene 0x960 \<lparr>lc_off = 480, lc_nsegs = n, lc_entry = e, lc_out = l\<rparr> =
      Some (Inr \<lparr>lc_off = 496, lc_nsegs = n, lc_entry = e, lc_out = l\<rparr>)" for n e l
    using R by (simp_all add: lc_turn_def Let_def le32_Some LC_SEGMENT_64_def LC_UNIXTHREAD_def)
  have segs: "lc_turn ?b 0x4c5b28 ane_fw_selene 0x960 \<lparr>lc_off = 32, lc_nsegs = 0, lc_entry = e, lc_out = Some [x, y]\<rparr> =
      Some (Inr \<lparr>lc_off = 104, lc_nsegs = 1, lc_entry = e, lc_out = Some [text_seg, y]\<rparr>)"
    "lc_turn ?b 0x4c5b28 ane_fw_selene 0x960 \<lparr>lc_off = 104, lc_nsegs = 1, lc_entry = e, lc_out = Some [x, y]\<rparr> =
      Some (Inr \<lparr>lc_off = 176, lc_nsegs = 2, lc_entry = e, lc_out = Some [x, data_seg]\<rparr>)" for x y e
    by (subst lc_turn_seg, use R ex_file_segs in \<open>auto simp: put_seg_def\<close>)+
  have "thread_loop (Suc (Suc k)) ?b 0x4c5b28 176 288 184 e = Some (Inr 0)" for k e
    using R by (simp add: le32_Some le64_Some ARM_THREAD_STATE64_def)
  from this [of 303] have thread: "lc_turn ?b 0x4c5b28 ane_fw_selene 0x960 \<lparr>lc_off = 176, lc_nsegs = n, lc_entry = e, lc_out = l\<rparr> =
      Some (Inr \<lparr>lc_off = 464, lc_nsegs = n, lc_entry = 0, lc_out = l\<rparr>)" for n e l
    using R by (simp add: lc_turn_def Let_def le32_Some LC_SEGMENT_64_def LC_UNIXTHREAD_def thread_fuel_def)
  have two: "replicate ANE_FW_NSEGS x = [x, x]" for x :: ane_fw_seg
    by (simp add: ANE_FW_NSEGS_def numeral_2_eq_2)
  have "lc_loop 5 ?b 0x4c5b28 ane_fw_selene 0x960 \<lparr>lc_off = 32, lc_nsegs = 0, lc_entry = NOT 0, lc_out = Some seg_table\<rparr> =
      Some (Inr \<lparr>lc_off = 496, lc_nsegs = 2, lc_entry = 0, lc_out = Some [text_seg, data_seg]\<rparr>)"
    unfolding five lc_loop.simps seg_table_def two by (simp add: turn segs [unfolded One_nat_def] thread)
  then show ?thesis by (simp add: header_eval [OF R(1-6)])
qed

lemma ex_staged_fields:
  "list_all (\<lambda>(p, v, n). le_val n (staged (blob_of ex_file) (fw_segs ane_fw_selene)) p = v \<and>
     map (staged (blob_of ex_file) (fw_segs ane_fw_selene)) [p..<p + n] = map (\<lambda>k. ucast (drop_bit (8 * k) v)) [0..<n]) ex_image"
proof -
  let ?st = "staged (blob_of ex_file) (fw_segs ane_fw_selene)"
  have at: "?st a = blob_of ex_file (0x4000 + a)" if "a < 0x4ac000" for a
    using that by (cases "a < 0xc4000") (simp_all add: staged_def copy_seg_def ex_segs)
  have "le_val n ?st p = v \<and> map ?st [p..<p + n] = map (\<lambda>k. ucast (drop_bit (8 * k) v)) [0..<n]" if i: "(p, v, n) \<in> set ex_image" for p v n
  proof -
    have r: "p + n < 0x4ac000" using i by (auto simp: ex_image_def)
    have "(p + 0x4000, v, n) \<in> set ex_file" using i by (force simp: ex_file_def)
    from ex_file_fields [unfolded list_all_iff, THEN bspec, OF this]
    have D: "le_val n (blob_of ex_file) (p + 0x4000) = v" "map (blob_of ex_file) [p + 0x4000..<p + 0x4000 + n] = map (\<lambda>k. ucast (drop_bit (8 * k) v)) [0..<n]"
      by simp_all
    have B: "blob_of ex_file (p + 0x4000 + k) = ucast (drop_bit (8 * k) v)" if "k < n" for k
      using arg_cong [OF D(2), of "\<lambda>l. l ! k"] that by simp
    have T: "?st (p + k) = ucast (drop_bit (8 * k) v)" if "k < n" for k
      using B [OF that] at [of "p + k"] r that by (simp add: add_ac)
    have "take_bit (8 * n) v = v" using le_val_bytes [OF B, of n] D(1) by simp
    then have "le_val n ?st p = v" using le_val_bytes [OF T, of n] by simp
    moreover have "map ?st [p..<p + n] = map (\<lambda>k. ucast (drop_bit (8 * k) v)) [0..<n]"
      by (rule nth_equalityI) (simp_all add: T)
    ultimately show ?thesis ..
  qed
  then show ?thesis by (auto simp: list_all_iff)
qed

section \<open>A host\<close>

text \<open>An IOMMU that maps whatever is free, and an allocator with one place.\<close>

definition ex_iova :: u64 where "ex_iova = 0x80000000"

definition ex_dma_get :: "domain \<Rightarrow> u32 \<Rightarrow> (u64 \<times> domain) option" where
  "ex_dma_get d sz = (if list_all (\<lambda>off. d (ex_iova + off) = None) (page_offs (ucast sz))
     then Some (ex_iova, \<lambda>x. if x \<in> set (map ((+) ex_iova) (page_offs (ucast sz))) then Some (x + 0x800000000) else d x) else None)"

definition ex_unmap :: "domain \<Rightarrow> u64 \<Rightarrow> u64 \<Rightarrow> domain" where
  "ex_unmap d x len = (\<lambda>y. if y \<in> set (map ((+) x) (page_offs len)) then None else d y)"

definition ex_host :: host where
  "ex_host = \<lparr>fw_load = True, fw_extra_ram = 0, fw_alias_reserved = False, match_data = T6021, set_start = None,
     reserved_nodes = None, request_firmware = (\<lambda>_. Inr (blob_of ex_file, 0x4c5b28)), sha256 = (\<lambda>_ _. fw_sha256 ane_fw_selene),
     dma_get = ex_dma_get, dma_put = (\<lambda>d iova sz. ex_unmap d iova (ucast sz)),
     iommu_map = (\<lambda>d x pa. if d x = None then Inr (d(x \<mapsto> pa)) else Inl EEXIST), iommu_unmap = ex_unmap,
     attached = True, aperture_end = 0x3ffffffffff, rvbar_patch = 0x10000000001, rvbar_alias = 0x10000000001,
     engine_start = 0x284000000, random_u64 = 0x1122334455667788, fuse_size = None, fuse_words = None\<rparr>"

definition ex_dev :: "domain \<Rightarrow> fw_dev" where
  "ex_dev d = \<lparr>dom_map = d, fw_buf = None, dev_iova = 0, dev_size = 0, alias_iova = 0, ext_iova = [0, 0, 0],
     ext_len = [0, 0, 0], extn = 0\<rparr>"

lemma ex_pages: "set (map ((+) x) (page_offs len)) = pages x len"
  by (simp add: pages_image)

lemma ex_iommu: "iommu_contract ex_host"
  by (auto simp: iommu_contract_def ex_host_def ex_unmap_def pages_image fun_eq_iff split: if_splits)

lemma pages_range:
  assumes "x \<in> pages b 0x500000" "unat b + 0x500000 < 2 ^ 64"
  shows "unat b \<le> unat x" "unat x < unat b + 0x500000"
proof -
  from assms(1) obtain k where k: "k < 320" "x = b + of_nat (0x4000 * k)" by (auto simp: pages_def npages_def)
  then have "unat (of_nat (0x4000 * k) :: u64) = 0x4000 * k" by (intro unat_page) simp
  then have "unat x = unat b + 0x4000 * k" using k assms(2) by (simp add: unat_add_exact)
  then show "unat b \<le> unat x" "unat x < unat b + 0x500000" using k by simp_all
qed

lemma al_ex: "al ex_iova" "al 0x800000000" "al 0x10000000000"
  by (simp_all add: al_unat ex_iova_def)

lemma al_in_pages: "al b \<Longrightarrow> x \<in> pages b len \<Longrightarrow> al x"
  by (auto simp: pages_def)

lemma ex_dma: "dma_contract ex_host"
proof -
  have get: "al iova \<and> (\<forall>x\<in>pages iova (ucast sz). d x = None \<and> (\<exists>pa. d' x = Some pa \<and> pa \<noteq> 0 \<and> al pa)) \<and>
      (\<forall>x. x \<notin> pages iova (ucast sz) \<longrightarrow> d' x = d x)" if "ex_dma_get d sz = Some (iova, d')" for d sz iova d'
  proof -
    from that have i: "iova = ex_iova" "\<forall>x\<in>pages ex_iova (ucast sz). d x = None"
      "d' = (\<lambda>x. if x \<in> pages ex_iova (ucast sz) then Some (x + 0x800000000) else d x)"
      unfolding ex_dma_get_def ex_pages by (auto simp: list_all_iff simp flip: pages_image split: if_splits)
    have "x + 0x800000000 \<noteq> 0" if "x \<in> pages ex_iova (ucast sz)" for x
    proof -
      from that obtain k where k: "k < npages (ucast sz :: u64)" "x = ex_iova + of_nat (0x4000 * k)" by (auto simp: pages_def)
      have "unat (ucast sz :: u64) < 2 ^ 32" using unat_lt_2p32 [of sz] by (simp add: unat_ucast_32_64)
      then have "0x4000 * k < 2 ^ 32" using k(1) unfolding npages_def by linarith
      moreover from this have "unat (of_nat (0x4000 * k) :: u64) = 0x4000 * k" by (intro unat_page) simp
      ultimately have "unat (x + 0x800000000) = 0x80000000 + 0x4000 * k + 0x800000000"
        unfolding k(2) ex_iova_def by (simp add: unat_add_exact)
      then show ?thesis by (metis add_is_0 unat_0 zero_neq_numeral)
    qed
    with i al_ex show ?thesis by (auto intro: al_in_pages)
  qed
  then show ?thesis unfolding dma_contract_def by (simp add: ex_host_def ex_unmap_def pages_image)
qed

lemma own_loop_done:
  assumes "\<And>d x pa. d x = None \<Longrightarrow> iommu_map H d x pa = Inr (d(x \<mapsto> pa))" "al src" "al entry"
    and "list_all al offs" "distinct offs"
    and "\<forall>off\<in>set offs. (\<exists>pa. d (src + off) = Some pa \<and> pa \<noteq> 0 \<and> al pa) \<and> d (entry + off) = None"
  shows "\<exists>d'. own_loop H src entry offs d = (None, d') \<and> (\<forall>off\<in>set offs. d' (entry + off) = d (src + off)) \<and>
     (\<forall>x. x \<notin> (+) entry ` set offs \<longrightarrow> d' x = d x)"
  using assms(4-6)
proof (induction offs arbitrary: d)
  case (Cons off offs)
  then obtain pa where pa: "d (src + off) = Some pa" "pa \<noteq> 0" "al pa" "d (entry + off) = None" "al off" by auto
  let ?d = "d(entry + off \<mapsto> pa)"
  have ne: "src + o' \<noteq> entry + off" if "o' \<in> set (off # offs)" for o' using Cons.prems(3) that pa(4) by fastforce
  then have "\<forall>o'\<in>set offs. (\<exists>pa. ?d (src + o') = Some pa \<and> pa \<noteq> 0 \<and> al pa) \<and> ?d (entry + o') = None"
    using Cons.prems(2,3) by auto
  with Cons.prems(1,2) have "\<exists>d'. own_loop H src entry offs ?d = (None, d') \<and> (\<forall>off\<in>set offs. d' (entry + off) = ?d (src + off)) \<and>
     (\<forall>x. x \<notin> (+) entry ` set offs \<longrightarrow> d' x = ?d x)" by (intro Cons.IH) simp_all
  then obtain d' where d': "own_loop H src entry offs ?d = (None, d')"
    "\<forall>off\<in>set offs. d' (entry + off) = ?d (src + off)" "\<forall>x. x \<notin> (+) entry ` set offs \<longrightarrow> d' x = ?d x" by blast
  have "own_loop H src entry (off # offs) d = (None, d')"
    using pa d'(1) assms(2,3) by (simp add: Let_def to_phys assms(1))
  moreover have "entry + off \<notin> (+) entry ` set offs" using Cons.prems(2) by auto
  then have "d' (entry + off) = d (src + off)" using d'(3) pa(1) by simp
  moreover have "\<forall>o'\<in>set offs. d' (entry + o') = d (src + o')" using d'(2) ne by simp
  moreover have "\<forall>x. x \<notin> (+) entry ` set (off # offs) \<longrightarrow> d' x = d x" using d'(3) by auto
  ultimately show ?case by auto
qed simp

lemma ex_row [simp]: "ane_t6021_soc_for ex_host = ane_t6021_soc"
  by (simp add: ane_t6021_soc_for_def ex_host_def)

lemma ex_patches: "fst (ane_t6021_fw_patch ex_host b (staged (blob_of ex_file) (fw_segs ane_fw_selene))) = None"
proof -
  have "fst (ane_fw_apply_boot_patches (staged (blob_of ex_file) (fw_segs ane_fw_selene)) ane_fw_selene ane_t602x_asc_tunables
      (patch_of ex_host b 0x11)) = None"
    by (rule image_patched [OF ex_staged_fields]) (simp add: patch_of_def Let_def)
  then show ?thesis
    by (auto simp: ane_t6021_fw_patch_def ane_t6021_soc_revision_def ane_t6021_soc_def split: prod.split option.split)
qed

abbreviation ex_entry :: u64 where "ex_entry \<equiv> 0x10000000000"

lemma ex_offs: "list_all al (page_offs len)" "distinct (page_offs len)"
proof -
  have "inj_on (\<lambda>k. of_nat (0x4000 * k) :: u64) {..<npages len}"
  proof (rule inj_onI)
    fix j k assume "j \<in> {..<npages len}" "k \<in> {..<npages len}" "(of_nat (0x4000 * j) :: u64) = of_nat (0x4000 * k)"
    with npages_bound [of j len] npages_bound [of k len] unat_page [of j] unat_page [of k] show "j = k" by (metis lessThan_iff mult_cancel1 zero_neq_numeral)
  qed
  then show "list_all al (page_offs len)" "distinct (page_offs len)"
    by (auto simp: page_offs distinct_map list_all_iff atLeast0LessThan)
qed

lemma ex_apart:
  "pages ex_entry 0x500000 \<inter> pages ex_iova 0x500000 = {}" "0x28e084000 \<notin> pages ex_entry 0x500000"
  "0x28e084000 \<notin> pages ex_iova 0x500000"
proof -
  have e: "0x10000000000 \<le> unat x" if "x \<in> pages ex_entry 0x500000" for x
    using pages_range(1) [OF that] by simp
  have i: "unat x < 0x80500000" if "x \<in> pages ex_iova 0x500000" for x
    using pages_range(2) [OF that] by (simp add: ex_iova_def)
  show "pages ex_entry 0x500000 \<inter> pages ex_iova 0x500000 = {}"
  proof (rule ccontr)
    assume "\<not> ?thesis"
    then obtain x where "x \<in> pages ex_entry 0x500000" "x \<in> pages ex_iova 0x500000" by blast
    from e [OF this(1)] i [OF this(2)] show False by simp
  qed
  show "0x28e084000 \<notin> pages ex_entry 0x500000" using e [of "0x28e084000"] by auto
  show "0x28e084000 \<notin> pages ex_iova 0x500000" using i [of "0x28e084000"] by auto
qed

lemma ex_alias:
  assumes "dom_map b = (\<lambda>x. if x \<in> pages ex_iova 0x500000 then Some (x + 0x800000000) else None)"
    and "dev_iova b = ex_iova" "dev_size b = 0x500000"
  shows "fst (ane_t6021_fw_alias_map ex_host False b) = None"
proof -
  let ?offs = "page_offs 0x500000"
  let ?d = "dom_map b"
  have P: "x + off \<in> pages x 0x500000" if "off \<in> set ?offs" for x off
    using that by (simp flip: pages_image)
  have "dma_get ex_host Map.empty 0x500000 = Some (ex_iova, ?d)"
    by (simp add: ex_host_def ex_dma_get_def assms(1) list_all_iff pages_image)
  with ex_dma have "\<forall>x\<in>pages ex_iova 0x500000. \<exists>pa. ?d x = Some pa \<and> pa \<noteq> 0 \<and> al pa"
    unfolding dma_contract_def by fastforce
  then have M: "\<forall>off\<in>set ?offs. (\<exists>pa. ?d (ex_iova + off) = Some pa \<and> pa \<noteq> 0 \<and> al pa) \<and> ?d (ex_entry + off) = None"
    using ex_apart P by (auto simp: assms(1))
  have "\<exists>d'. own_loop ex_host ex_iova ex_entry ?offs ?d = (None, d') \<and> (\<forall>off\<in>set ?offs. d' (ex_entry + off) = ?d (ex_iova + off)) \<and>
     (\<forall>x. x \<notin> (+) ex_entry ` set ?offs \<longrightarrow> d' x = ?d x)"
    by (rule own_loop_done [OF _ _ _ ex_offs M]) (simp_all add: ex_host_def al_ex)
  then obtain d' where d': "own_loop ex_host ex_iova ex_entry ?offs ?d = (None, d')" "\<forall>off\<in>set ?offs. d' (ex_entry + off) = ?d (ex_iova + off)"
    "\<forall>x. x \<notin> pages ex_entry 0x500000 \<longrightarrow> d' x = ?d x" unfolding pages_image by blast
  have "d' (ex_entry + off) = d' (ex_iova + off)" "al off" if "off \<in> set ?offs" for off
  proof -
    have "ex_iova + off \<notin> pages ex_entry 0x500000" using P [OF that, of ex_iova] ex_apart(1) by blast
    then show "d' (ex_entry + off) = d' (ex_iova + off)" "al off"
      using d'(2,3) that ex_offs(1) [of "0x500000"] by (simp_all add: list_all_iff)
  qed
  then have "own_check ex_iova ex_entry ?offs d'"
    using al_ex by (simp add: own_check_def list_all_iff to_phys)
  moreover have "d' 0x28e084000 = None" using d'(3) ex_apart by (simp add: assms(1))
  ultimately have "fst (alias_own ex_host ex_entry b) = None"
    using d'(1) assms(2,3) by (simp add: alias_own_def ane_t6021_pmu_map_def ane_t6021_soc_def to_phys al_numerals)
      (simp add: ex_host_def to_phys al_numerals)
  then show ?thesis
    using al_ex assms(3) by (simp add: ane_t6021_fw_alias_map_def ex_host_def ane_t6021_rvbar_entry_bits_def ane_t6021_rvbar_latched_def
      ane_t6021_rvbar_entry_ok_def ANE_T6021_RVBAR_ADDR_MASK_def)
qed

lemma ex_new: "new_dev (ex_dev d)" "dom_map (ex_dev d) = d"
  by (simp_all add: ex_dev_def new_dev_def fresh_def)

lemma ex_latched: "latched_entry ex_host" "fw_load ex_host" "rvbar_patch ex_host = rvbar_alias ex_host"
  "\<not> ane_t6021_fw_alias_is_reserved ex_host" "ane_t6021_rvbar_entry_bits (rvbar_alias ex_host) = ex_entry"
  by (simp_all add: latched_entry_def ex_host_def ane_t6021_rvbar_entry_bits_def ane_t6021_rvbar_latched_def
      ANE_T6021_RVBAR_ADDR_MASK_def ane_t6021_fw_alias_is_reserved_def)

lemma ex_probe:
  "ane_t6021_fwload_probe ex_host a = Some (fwload_stage ex_host a (blob_of ex_file) (fw_segs ane_fw_selene))"
proof -
  have "request_firmware ex_host f = Inr (blob_of ex_file, 0x4c5b28)" "sha256 ex_host x n = fw_sha256 ane_fw_selene"
    "fw_load ex_host" "fw_extra_ram ex_host = 0" for f x n by (simp_all add: ex_host_def)
  moreover have "row_fw ane_t6021_soc = ane_fw_selene" by (simp add: ane_t6021_soc_def)
  ultimately show ?thesis by (simp only: ane_t6021_fwload_probe_def Let_def ex_row) (simp add: ex_file_accepted)
qed

lemma fst_None: "fst p = None \<Longrightarrow> \<exists>x. p = (None, x)"
  by (cases p) simp

lemma ex_loaded: "\<exists>a'. ane_t6021_fwload_probe ex_host (ex_dev Map.empty) = Some (None, a')"
proof -
  let ?st = "staged (blob_of ex_file) (fw_segs ane_fw_selene)"
  let ?d = "\<lambda>x. if x \<in> pages ex_iova 0x500000 then Some (x + 0x800000000) else None"
  let ?b = "(ex_dev Map.empty)\<lparr>dom_map := ?d, fw_buf := Some ?st, dev_iova := ex_iova, dev_size := 0x500000\<rparr>"
  have g: "dma_get ex_host Map.empty 0x500000 = Some (ex_iova, ?d)"
    by (simp add: ex_host_def ex_dma_get_def list_all_iff pages_image)
  have z: "ANE_FW_BUF_SIZE + fw_extra_ram ex_host = 0x500000" by (simp add: ANE_FW_BUF_SIZE_def ex_host_def)
  obtain img where p: "ane_t6021_fw_patch ex_host ?b ?st = (None, img)" using fst_None [OF ex_patches] by blast
  have "fst (ane_t6021_fw_alias_map ex_host False (?b\<lparr>fw_buf := Some img\<rparr>)) = None" by (rule ex_alias) simp_all
  from fst_None [OF this] obtain a' where "ane_t6021_fw_alias_map ex_host False (?b\<lparr>fw_buf := Some img\<rparr>) = (None, a')" by blast
  then have "fwload_place ex_host False ?b = (None, a')" using p by (simp add: fwload_place_def)
  then have "fwload_stage ex_host (ex_dev Map.empty) (blob_of ex_file) (fw_segs ane_fw_selene) = (None, a')"
    unfolding fwload_stage_def Let_def z ex_new(2) g using ex_latched(4) by simp
  then show ?thesis by (simp add: ex_probe)
qed

section \<open>The properties at this host\<close>

theorem fwload_restores_domain_witness:
  "\<exists>a'. ane_t6021_fwload_probe ex_host (ex_dev Map.empty) = Some (None, a') \<and>
     dom_map (ane_t6021_fwload_remove ex_host a') 0x10000000000 = None \<and> fw_buf (ane_t6021_fwload_remove ex_host a') = None"
proof -
  obtain a' where a': "ane_t6021_fwload_probe ex_host (ex_dev Map.empty) = Some (None, a')" using ex_loaded by blast
  from fwload_restores_domain [OF ex_iommu ex_dma ex_new(1) a'] a' show ?thesis
    by (auto simp: ex_new(2) ane_t6021_soc_def)
qed

theorem fwload_never_loads_twice_witness:
  "\<exists>a1 e a3. ane_t6021_fwload_probe ex_host (ex_dev Map.empty) = Some (None, a1) \<and>
     ane_t6021_fwload_probe ex_host (ex_dev (dom_map (ane_t6021_fwload_remove ex_host a1))) = Some (Some e, a3)"
proof -
  obtain a1 where a1: "ane_t6021_fwload_probe ex_host (ex_dev Map.empty) = Some (None, a1)" using ex_loaded by blast
  obtain r a3 where a3: "ane_t6021_fwload_probe ex_host (ex_dev (dom_map (ane_t6021_fwload_remove ex_host a1))) = Some (r, a3)"
    unfolding ex_probe by (metis prod.collapse)
  from fwload_never_loads_twice [OF ex_iommu ex_dma ex_latched(1,2) ex_new(1) a1 ex_new(1,2) a3] a1 a3 show ?thesis by auto
qed

theorem fwload_own_memory_witness:
  "\<exists>a'. ane_t6021_fwload_probe ex_host (ex_dev Map.empty) = Some (None, a') \<and>
     dom_map a' 0x28e084000 = Some 0x28e084000"
proof -
  obtain a' where a': "ane_t6021_fwload_probe ex_host (ex_dev Map.empty) = Some (None, a')" using ex_loaded by blast
  from fwload_own_memory [OF ex_iommu ex_dma ex_new(1) ex_latched(2,1,3,4) a'] a' show ?thesis
    unfolding Let_def ex_row by (auto simp: ane_t6021_soc_def)
qed

end
