(* ===== verification/Spec2Isabelle.thy ===== *)
theory Spec2Isabelle
  imports Ane_Prelude Ane_Pool Ane_Progtab Ane_Machine Ane_Legacy Ane_Command Ane_Runs Ane_Stats Ane_Bo Ane_Ioctl Ane_Ioctl_Runs Ane_Fw Ane_Fw_Runs Ane_Boot Ane_Boot_Runs Ane_Iommu Ane_Fwload Ane_Fwload_Runs
begin

text \<open>
  Verification of omarchy-ane, the Linux driver stack of the Apple Neural Engine.

  \<^bold>\<open>The program.\<close>  A client process opens the device, allocates buffer objects, loads programs from them and
  executes those programs.  On the M2 family the kernel driver \<^verbatim>\<open>ane_t6021.ko\<close> does not program the engine
  itself: it validates, patches and stages a pinned firmware image, boots the engine's CPU with it, and from then
  on exchanges commands with the firmware through rings in shared memory.  The firmware asks the driver for memory,
  answers commands and posts events, and it may misbehave.  This development models that driver, from the
  firmware file to the client calls, together with the statistics code that the M1 and M2 drivers share.

  \<^bold>\<open>The theories\<close>, in the order of their imports; paths are those under \<^verbatim>\<open>src/\<close>.

  \<^item> \<^verbatim>\<open>Ane_Prelude\<close>: integer types, \<open>errno\<close>, alignment, byte access, generic lemmas.
  \<^item> \<^verbatim>\<open>Ane_Pool\<close> (\<^verbatim>\<open>ane/t6021/ane_t6021_pool.h\<close>): the pool of parked buffers.  The record \<open>pool\<close> is
    \<^verbatim>\<open>struct ane_t6021_pool\<close>; there is one definition per function.  The step relation \<open>pool_step\<close> splits
    \<^verbatim>\<open>ane_t6021_pool_park\<close> at its atomic accesses and interleaves any number of threads.  Shown: the budget is never
    exceeded in any interleaving, the outcome of park, take and evict on every branch, and that the allocation
    retry ends.
  \<^item> \<^verbatim>\<open>Ane_Progtab\<close> (\<^verbatim>\<open>ane/t6021/ane_t6021_progtab.h\<close>): the table of loaded programs shared by all files, with
    the unload and release callbacks of the C code as parameters.  The locale \<open>slot_table\<close> is the contract of a table
    with a high-water mark; this table and the allocation table of \<^verbatim>\<open>Ane_Legacy\<close> interpret it.  Shown: no program is
    unloaded under a client, digests are unique, the close protocol, and that a held program stays held.
  \<^item> \<^verbatim>\<open>Ane_Machine\<close>: driver code that touches registers, shared memory or the DMA allocator is a state-monad
    program over a record with a trace of all accesses.  The environment, a function of the whole trace, decides what
    every read and allocation returns, so a statement for every environment holds for every hardware and firmware.
    The collections \<open>wp\<close>, \<open>exts\<close>, \<open>keep\<close>, \<open>give\<close> and \<open>foll\<close> hold the proof rules; the locale \<open>trace_grammar\<close> is the
    interface for properties of traces.
  \<^item> \<^verbatim>\<open>Ane_Legacy\<close> (\<^verbatim>\<open>ane_t6021_legtab.h\<close>, \<^verbatim>\<open>ane_t6021_mring.h\<close>, the channel tables of \<^verbatim>\<open>ane_t6021_boot.h\<close>, and the
    \<^verbatim>\<open>ane_rtclient_legacy_*\<close> and \<^verbatim>\<open>ane_rtclient_malloc_*\<close> functions of \<^verbatim>\<open>ane_t6021_rtclient_main.c\<close>): the
    firmware's allocation ring and the exchange of one command.  Shown: a command is published at most once and only
    to a slot the host owns, the allocation budget and the command buffer survive every request, and the order in which
    an allocation request is answered.
  \<^item> \<^verbatim>\<open>Ane_Stats\<close> (\<^verbatim>\<open>ane/include/ane_stats.h\<close>, \<^verbatim>\<open>ane/ane_stats_show.c\<close>): the lock-free counters and the timeline.
    \<open>advance\<close> is one atomic access of one submission and \<open>stat_step\<close> interleaves them; the calls as the drivers
    make them refine it.  Shown: busy time is the measure of the union of the spans, the counters balance, what a
    snapshot covers, and what the timeline prints.
  \<^item> \<^verbatim>\<open>Ane_Command\<close> (\<^verbatim>\<open>ane_rtclient_command\<close> and what it calls): event drain, completion wait with and without
    tracing, statistics, quarantine.  The locales \<open>command_grammar\<close> and \<open>wait_inv\<close> carry the proofs over the loops.
    Shown: success implies a matching finish event, failure implies quarantine, firmware addresses are followed only
    into host memory, and the task-manager word is read only while the islands are powered.
  \<^item> \<^verbatim>\<open>Ane_Bo\<close>, \<^verbatim>\<open>Ane_Ioctl\<close> (the buffer functions, ioctls and file operations of \<^verbatim>\<open>ane_t6021_rtclient_main.c\<close>): the
    record \<open>bw\<close> is the world of buffers, \<open>m2_step\<close> is one client call with buffer operations of other threads
    in between wherever the buffer lock is free.  The locale \<open>unload_contract\<close> is what the close path relies on.  Shown: memory whose
    address the firmware was given stays mapped, clients see no bytes of earlier owners, reference counts and accounting are exact,
    quarantine is final, and what a program load sends and hashes.
  \<^item> \<^verbatim>\<open>Ane_Fw\<close> (\<^verbatim>\<open>ane_fw_validate.h\<close>): the Mach-O validator on arbitrary bytes, where \<open>None\<close> is an access outside an
    object, and the boot patches.  Shown: the validator is total and sound, and patches read back.
  \<^item> \<^verbatim>\<open>Ane_Boot\<close> (\<^verbatim>\<open>ane_t6021_boot.h\<close>, \<^verbatim>\<open>ane_t6021_boot.c\<close>): the register sequence of the boot, the surfaces it
    allocates, the init block byte for byte and the host rings.  Shown: the order of all engine writes, the ownership
    of surfaces on every path, and that a responsive firmware boots.
  \<^item> \<^verbatim>\<open>Ane_Iommu\<close>, \<^verbatim>\<open>Ane_Fwload\<close> (\<^verbatim>\<open>ane_t6021_fwload.c\<close>): SoC rows, staging, the alias of the staged pages at the
    latched entry in both modes, teardown.  Shown: a failed load leaves the IOMMU domain as it was, and what the
    device sees after a successful one.
  \<^item> \<^verbatim>\<open>Ane_Runs\<close>, \<^verbatim>\<open>Ane_Ioctl_Runs\<close>, \<^verbatim>\<open>Ane_Fw_Runs\<close>, \<^verbatim>\<open>Ane_Boot_Runs\<close>, \<^verbatim>\<open>Ane_Fwload_Runs\<close>: concrete environments,
    files and hosts, with the properties applied to them.

  \<^bold>\<open>Assumptions.\<close>  The kernel, the engine and the firmware are parameters.  Most properties hold for all of them.
  Those of the loader assume \<open>iommu_contract\<close> and \<open>dma_contract\<close>, the documented behaviour of the mapping and DMA calls; the
  liveness of the boot assumes a firmware that answers (\<open>responsive\<close>, \<open>modest\<close>) and an allocator that serves
  (\<open>generous\<close>).  Atomic accesses are sequentially consistent, and code under a mutex is one step.

  \<^bold>\<open>Bounds.\<close>  Loops over a counter in the source recurse on that counter: 1000 polls for a boot acknowledgement, 64
  further settle windows, five load commands.  A wait until a deadline lets through as many polls as the environment
  says, an arbitrary number that may depend on the trace.  The walk of a thread-state command has fuel 305: the
  commands end at byte 2432 and a turn advances by at least eight bytes; \<open>thread_loop_total\<close> shows that this is
  enough.

  \<^bold>\<open>Not modelled.\<close>  Of the M2 driver: probe, remove and suspend (\<^verbatim>\<open>ane_t6021_rtclient_main.c\<close> after line 2040,
  which sequence device-tree, power-domain and DRM registration calls of the kernel around the boot and loader
  calls modelled here), the power gate of \<^verbatim>\<open>ane_pwgate.h\<close>, the diagnostic probe modules, and log output.  The M1 driver
  (\<^verbatim>\<open>ane/src\<close>): only the statistics it shares with the M2 driver are covered, not its task manager, fault
  containment, buffer mapping, recovery and clock control.  The bring-up drivers \<^verbatim>\<open>ane/h13\<close>, \<^verbatim>\<open>ane/h15\<close>, \<^verbatim>\<open>ane/h16\<close> and
  \<^verbatim>\<open>ane/h18\<close>, which are not packaged, with their simulators and \<^verbatim>\<open>ane/common\<close>.  User space: the development ends at
  the kernel interface, so \<^verbatim>\<open>libane\<close> (file formats, tiling, SHA-256) and the tools are outside it.  Packaging,
  device-tree sources, receipts and tests.
\<close>

end
